(* ===== verification/Prelude.thy ===== *)
theory Prelude
  imports Main "HOL-Library.Word"
begin

unbundle bit_operations_syntax

text \<open>
  The shared base of the development: the outcomes of a C function that may leave by
  \<open>longjmp\<close>, the state monad the effectful code is written in, its weakest-precondition
  calculus with one rule for all loops, and the C library's block operations
  (\<open>memmove\<close>, \<open>memset\<close>, \<open>realloc\<close>) on lists.
\<close>

section \<open>Outcomes and the effect monad\<close>

text \<open>
  A function either returns a value (\<open>Ok\<close>) or stops: \<open>Longjmp n\<close> is \<open>longjmp(c->err, n)\<close>
  (1 asks for a connection reset, 2 does not), \<open>Fatal\<close> is \<open>fatal()\<close>, which ends the
  process, \<open>Null_deref\<close> is a dereference of a NULL pointer, \<open>Overflow\<close> is a write outside an
  array, and \<open>Blocked\<close> means that the
  observation ended while the program was still waiting for an answer of its environment.
  Every outcome carries the state reached.
\<close>

datatype stop = Longjmp nat | Fatal | Null_deref | Overflow | Blocked

datatype ('a, 's) res = Ok 'a 's | Stop stop 's

primrec res_state :: "('a, 's) res \<Rightarrow> 's" where
  "res_state (Ok a s) = s"
| "res_state (Stop k s) = s"

definition retM :: "'a \<Rightarrow> 's \<Rightarrow> ('a, 's) res" where
  "retM a s = Ok a s"

definition bindM :: "('s \<Rightarrow> ('a, 's) res) \<Rightarrow> ('a \<Rightarrow> 's \<Rightarrow> ('b, 's) res) \<Rightarrow> 's \<Rightarrow> ('b, 's) res" where
  "bindM m f s = (case m s of Ok a s' \<Rightarrow> f a s' | Stop k s' \<Rightarrow> Stop k s')"

definition seqM :: "('s \<Rightarrow> (unit, 's) res) \<Rightarrow> ('s \<Rightarrow> ('b, 's) res) \<Rightarrow> 's \<Rightarrow> ('b, 's) res" where
  "seqM m m' = bindM m (\<lambda>_. m')"

definition getM :: "('s \<Rightarrow> 'a) \<Rightarrow> 's \<Rightarrow> ('a, 's) res" where
  "getM f s = Ok (f s) s"

definition modM :: "('s \<Rightarrow> 's) \<Rightarrow> 's \<Rightarrow> (unit, 's) res" where
  "modM f s = Ok () (f s)"

definition stopM :: "stop \<Rightarrow> 's \<Rightarrow> ('a, 's) res" where
  "stopM k s = Stop k s"

definition whenM :: "bool \<Rightarrow> ('s \<Rightarrow> (unit, 's) res) \<Rightarrow> 's \<Rightarrow> (unit, 's) res" where
  "whenM b m = (if b then m else retM ())"

text \<open>
  A loop: the body returns \<open>Inl b\<close> to leave the loop with \<open>b\<close>, \<open>Inr a\<close> to go round again
  with \<open>a\<close>. The fuel bounds the number of rounds; the components take it from the
  observation horizon of the environment, which every round brings closer.
\<close>

primrec iterM :: "nat \<Rightarrow> ('a \<Rightarrow> 's \<Rightarrow> ('b + 'a, 's) res) \<Rightarrow> 'a \<Rightarrow> 's \<Rightarrow> ('b, 's) res" where
  "iterM 0 body a = stopM Blocked"
| "iterM (Suc n) body a =
     bindM (body a) (\<lambda>r. case r of Inl b \<Rightarrow> retM b | Inr a' \<Rightarrow> iterM n body a')"

text \<open>A loop over the elements of a list, in order.\<close>

primrec forM :: "'x list \<Rightarrow> ('x \<Rightarrow> 's \<Rightarrow> (unit, 's) res) \<Rightarrow> 's \<Rightarrow> (unit, 's) res" where
  "forM [] f = retM ()"
| "forM (x # xs) f = seqM (f x) (forM xs f)"

text \<open>A loop over the elements of a list that carries a value.\<close>

primrec foldM :: "('x \<Rightarrow> 'a \<Rightarrow> 's \<Rightarrow> ('a, 's) res) \<Rightarrow> 'x list \<Rightarrow> 'a \<Rightarrow> 's \<Rightarrow> ('a, 's) res" where
  "foldM f [] a = retM a"
| "foldM f (x # xs) a = bindM (f x a) (foldM f xs)"

lemmas mdefs = retM_def bindM_def seqM_def getM_def modM_def stopM_def whenM_def

section \<open>Weakest preconditions\<close>

text \<open>
  \<open>wp m Q E s\<close>: run from \<open>s\<close>, the computation \<open>m\<close> returns with \<open>Q\<close> or stops with \<open>E\<close>.
  Since every computation here is total, this is total correctness.
\<close>

definition wp :: "('s \<Rightarrow> ('a, 's) res) \<Rightarrow> ('a \<Rightarrow> 's \<Rightarrow> bool) \<Rightarrow> (stop \<Rightarrow> 's \<Rightarrow> bool) \<Rightarrow> 's \<Rightarrow> bool" where
  "wp m Q E s = (case m s of Ok a s' \<Rightarrow> Q a s' | Stop k s' \<Rightarrow> E k s')"

named_theorems wp_simps \<open>equations that compute weakest preconditions\<close>

lemma wp_retM [wp_simps]: "wp (retM a) Q E s = Q a s"
  by (simp add: wp_def retM_def)

lemma wp_bindM [wp_simps]: "wp (bindM m f) Q E s = wp m (\<lambda>a. wp (f a) Q E) E s"
  by (auto simp: wp_def bindM_def split: res.splits)

lemma wp_seqM [wp_simps]: "wp (seqM m m') Q E s = wp m (\<lambda>_. wp m' Q E) E s"
  by (simp add: seqM_def wp_bindM)

lemma wp_getM [wp_simps]: "wp (getM f) Q E s = Q (f s) s"
  by (simp add: wp_def getM_def)

lemma wp_modM [wp_simps]: "wp (modM f) Q E s = Q () (f s)"
  by (simp add: wp_def modM_def)

lemma wp_stopM [wp_simps]: "wp (stopM k) Q E s = E k s"
  by (simp add: wp_def stopM_def)

lemma wp_if [wp_simps]:
  "wp (if b then m else m') Q E s = (if b then wp m Q E s else wp m' Q E s)"
  by simp

lemma wp_whenM [wp_simps]: "wp (whenM b m) Q E s = (if b then wp m Q E s else Q () s)"
  by (simp add: whenM_def wp_retM)

text \<open>The rule of consequence, and reading a result off a wp fact.\<close>

lemma wp_mono:
  assumes "wp m Q E s"
    and "\<And>a s'. Q a s' \<Longrightarrow> Q' a s'" and "\<And>k s'. E k s' \<Longrightarrow> E' k s'"
  shows "wp m Q' E' s"
  using assms by (auto simp: wp_def split: res.splits)

lemma wp_Ok: "wp m Q E s \<Longrightarrow> m s = Ok a s' \<Longrightarrow> Q a s'"
  by (simp add: wp_def)

lemma wp_Stop: "wp m Q E s \<Longrightarrow> m s = Stop k s' \<Longrightarrow> E k s'"
  by (simp add: wp_def)

lemma wpI:
  assumes "\<And>a s'. m s = Ok a s' \<Longrightarrow> Q a s'" and "\<And>k s'. m s = Stop k s' \<Longrightarrow> E k s'"
  shows "wp m Q E s"
  using assms by (cases "m s") (auto simp: wp_def)

lemma wp_conj: "wp m Q E s \<Longrightarrow> wp m Q' E' s \<Longrightarrow> wp m (\<lambda>a s. Q a s \<and> Q' a s) (\<lambda>k s. E k s \<and> E' k s) s"
  by (auto simp: wp_def split: res.splits)

lemma wp_res_state: "wp m (\<lambda>_. P) (\<lambda>_. P) s = P (res_state (m s))"
  by (cases "m s") (auto simp: wp_def)

text \<open>One rule for every loop: an invariant of the rounds that also covers running out of
  the observation.\<close>

lemma wp_iterM:
  assumes "I a s"
    and "\<And>a s. I a s \<Longrightarrow>
      wp (body a) (\<lambda>r s'. case r of Inl b \<Rightarrow> Q b s' | Inr a' \<Rightarrow> I a' s') E s"
    and "\<And>a s. I a s \<Longrightarrow> E Blocked s"
  shows "wp (iterM n body a) Q E s"
  using assms(1)
proof (induction n arbitrary: a s)
  case 0
  then show ?case by (simp add: wp_simps assms(3))
next
  case (Suc n)
  show ?case
    by (simp add: wp_simps)
      (rule wp_mono [OF assms(2) [OF Suc.prems]];
       auto simp: wp_simps Suc.IH split: sum.splits)
qed

lemma wp_forM:
  assumes "I [] s"
    and "\<And>ys x s. I ys s \<Longrightarrow> x \<in> set xs \<Longrightarrow> wp (f x) (\<lambda>_. I (ys @ [x])) E s"
  shows "wp (forM xs f) (\<lambda>_. I xs) E s"
proof -
  have "wp (forM zs f) (\<lambda>_. I (ys @ zs)) E s" if "I ys s" and "set zs \<subseteq> set xs" for ys zs s
    using that
  proof (induction zs arbitrary: ys s)
    case Nil
    then show ?case by (simp add: wp_simps)
  next
    case (Cons z zs)
    have "wp (f z) (\<lambda>_. I (ys @ [z])) E s"
      using Cons.prems by (intro assms(2)) auto
    then show ?case
      using Cons.IH [of "ys @ [z]"] Cons.prems(2)
      by (auto simp: wp_simps elim!: wp_mono)
  qed
  from this [of "[]" s xs] assms(1) show ?thesis by simp
qed

lemma wp_foldM:
  assumes "I [] a s"
    and "\<And>ys x a s. I ys a s \<Longrightarrow> x \<in> set xs \<Longrightarrow> wp (f x a) (I (ys @ [x])) E s"
  shows "wp (foldM f xs a) (I xs) E s"
proof -
  have "wp (foldM f zs a) (I (ys @ zs)) E s" if "I ys a s" and "set zs \<subseteq> set xs" for ys zs a s
    using that
  proof (induction zs arbitrary: ys a s)
    case Nil
    then show ?case by (simp add: wp_simps)
  next
    case (Cons z zs)
    have "wp (f z a) (I (ys @ [z])) E s"
      using Cons.prems by (intro assms(2)) auto
    then show ?case
      unfolding foldM.simps wp_bindM
      by (rule wp_mono) (use Cons.IH [of "ys @ [z]"] Cons.prems(2) in auto)
  qed
  from this [of "[]" a s xs] assms(1) show ?thesis by simp
qed

section \<open>Blocks of memory\<close>

type_synonym byte = "8 word"

text \<open>
  \<open>memmove(buf + d, buf + s, n)\<close> and \<open>memset(buf + d, v, n)\<close> inside one array; both leave the
  array's length alone. \<open>realloc_list\<close> is \<open>str_realloc\<close>: the old prefix is kept and the new
  part is zero-filled (\<open>z\<close> is the zero of the element type).
\<close>

definition memmove :: "'a list \<Rightarrow> nat \<Rightarrow> nat \<Rightarrow> nat \<Rightarrow> 'a list" where
  "memmove buf d s n = take d buf @ take n (drop s buf) @ drop (d + n) buf"

definition memset :: "'a list \<Rightarrow> nat \<Rightarrow> 'a \<Rightarrow> nat \<Rightarrow> 'a list" where
  "memset buf d v n = take d buf @ replicate n v @ drop (d + n) buf"

definition memcpy_at :: "'a list \<Rightarrow> nat \<Rightarrow> 'a list \<Rightarrow> 'a list" where
  "memcpy_at buf d src = take d buf @ src @ drop (d + length src) buf"

definition realloc_list :: "'a \<Rightarrow> 'a list \<Rightarrow> nat \<Rightarrow> 'a list" where
  "realloc_list z xs n = take n xs @ replicate (n - length xs) z"

lemma length_memmove [simp]:
  "d + n \<le> length buf \<Longrightarrow> s + n \<le> length buf \<Longrightarrow> length (memmove buf d s n) = length buf"
  by (simp add: memmove_def)

lemma length_memset [simp]: "d + n \<le> length buf \<Longrightarrow> length (memset buf d v n) = length buf"
  by (simp add: memset_def)

lemma length_memcpy_at [simp]:
  "d + length src \<le> length buf \<Longrightarrow> length (memcpy_at buf d src) = length buf"
  by (simp add: memcpy_at_def)

lemma take_memset [simp]: "d \<le> length buf \<Longrightarrow> take d (memset buf d v n) = take d buf"
  by (simp add: memset_def)

lemma take_memmove_front:
  "s + n \<le> length buf \<Longrightarrow> take n (memmove buf 0 s n) = take n (drop s buf)"
  by (simp add: memmove_def)

lemma take_memcpy_at:
  "d \<le> length buf \<Longrightarrow> take (d + length src) (memcpy_at buf d src) = take d buf @ src"
  by (simp add: memcpy_at_def)

lemma length_realloc_list [simp]: "length (realloc_list z xs n) = n"
  by (simp add: realloc_list_def)

lemma take_realloc_list: "m \<le> n \<Longrightarrow> m \<le> length xs \<Longrightarrow> take m (realloc_list z xs n) = take m xs"
  by (simp add: realloc_list_def)

section \<open>Text\<close>

text \<open>C strings as Isabelle strings, and the bytes they are on the wire.\<close>

definition raw :: "string \<Rightarrow> byte list" where
  "raw s = map of_char s"

definition to_text :: "byte list \<Rightarrow> string" where
  "to_text bs = map (\<lambda>b. char_of (unat b)) bs"

lemma raw_append [simp]: "raw (s @ t) = raw s @ raw t"
  by (simp add: raw_def)

lemma raw_Nil [simp]: "raw [] = []"
  by (simp add: raw_def)

lemma length_raw [simp]: "length (raw s) = length s"
  by (simp add: raw_def)

lemma to_text_append [simp]: "to_text (s @ t) = to_text s @ to_text t"
  by (simp add: to_text_def)

lemma length_to_text [simp]: "length (to_text bs) = length bs"
  by (simp add: to_text_def)

lemma char_of_unat_of_char [simp]: "char_of (unat (of_char c :: byte)) = c"
proof -
  have "unat (of_char c :: byte) = of_char c mod 256"
    using unat_of_nat [where 'a = 8, of "of_char c"] by (simp add: of_nat_of_char)
  then show ?thesis by (simp add: char_of_mod_256)
qed

lemma to_text_raw [simp]: "to_text (raw s) = s"
  by (induction s) (simp_all add: to_text_def raw_def char_of_unat_of_char)

end
