(* ===== verification/Poll.thy ===== *)
theory Poll
  imports Prelude
begin

unbundle bit_operations_syntax

text \<open>
  The poll sets of network.c: the set of descriptors a connection waits for. The file has two
  implementations behind one interface, an array of \<open>struct pollfd\<close> (\<open>USE_POLL\<close>, the
  one the rest of the development runs on) and six \<open>fd_set\<close>s for \<open>select\<close>. The locale
  \<open>watch_set\<close> is the interface; both implementations interpret it.
\<close>

section \<open>The interface\<close>

text \<open>
  \<open>want s f\<close> is what the set \<open>s\<close> asks about the descriptor \<open>f\<close>: \<open>None\<close> when it is not
  watched, \<open>Some (rd, wr)\<close> with the two directions waited for otherwise (a descriptor watched
  for neither is still watched for exceptions).
\<close>

locale watch_set =
  fixes clear :: "'s \<Rightarrow> 's"
    and add :: "'s \<Rightarrow> int \<Rightarrow> bool \<Rightarrow> bool \<Rightarrow> 's"
    and remove :: "'s \<Rightarrow> int \<Rightarrow> 's"
    and want :: "'s \<Rightarrow> int \<Rightarrow> (bool \<times> bool) option"
    and inv :: "'s \<Rightarrow> bool"
  assumes inv_clear: "inv (clear s)"
    and inv_add: "inv s \<Longrightarrow> inv (add s f r w)"
    and inv_remove: "inv s \<Longrightarrow> inv (remove s f)"
    and want_clear: "want (clear s) g = None"
    and want_add: "inv s \<Longrightarrow> want (add s f r w) g =
      (if g = f then Some (case want s f of None \<Rightarrow> (r, w) | Some (r', w') \<Rightarrow> (r' \<or> r, w' \<or> w))
       else want s g)"
    and want_remove: "inv s \<Longrightarrow> want (remove s f) g = (if g = f then None else want s g)"
begin

lemma adds:
  assumes "inv s"
  shows "inv (foldl (\<lambda>s (f, r, w). add s f r w) s reqs) \<and>
    want (foldl (\<lambda>s (f, r, w). add s f r w) s reqs) g =
      (if (\<exists>r w. (g, r, w) \<in> set reqs) \<or> want s g \<noteq> None
       then Some ((\<exists>w. (g, True, w) \<in> set reqs) \<or> (\<exists>w. want s g = Some (True, w)),
                  (\<exists>r. (g, r, True) \<in> set reqs) \<or> (\<exists>r. want s g = Some (r, True)))
       else None)"
  using assms
proof (induction reqs arbitrary: s)
  case Nil
  then show ?case by (cases "want s g") auto
next
  case (Cons x reqs)
  obtain f r w where x: "x = (f, r, w)" by (cases x) auto
  have "inv (add s f r w)" using Cons.prems by (rule inv_add)
  from Cons.IH [OF this] show ?case
    by (cases "want s f"; cases "want s g"; cases "g = f") (auto simp: x want_add [OF Cons.prems])
qed

text \<open>Clearing the set and adding requests leaves exactly the requests, those on one
  descriptor joined.\<close>

lemma watch_exactly:
  "want (foldl (\<lambda>s (f, r, w). add s f r w) (clear s0) reqs) g =
    (if \<exists>r w. (g, r, w) \<in> set reqs
     then Some (\<exists>w. (g, True, w) \<in> set reqs, \<exists>r. (g, r, True) \<in> set reqs)
     else None)"
  using adds [OF inv_clear [of s0], of reqs g] by (simp add: want_clear)

end

section \<open>The poll implementation\<close>

record pollfd =
  pfd :: int
  events :: "16 word"
  revents :: "16 word"

record poll_set =
  ufds :: "pollfd list"
  nfds :: nat
  allocated :: nat

text \<open>The event bits, with the values of Linux's \<open>poll.h\<close>.\<close>

definition POLLIN :: "16 word" where "POLLIN = 0x1"
definition POLLOUT :: "16 word" where "POLLOUT = 0x4"
definition POLLERR :: "16 word" where "POLLERR = 0x8"
definition POLLHUP :: "16 word" where "POLLHUP = 0x10"
definition POLLRDHUP :: "16 word" where "POLLRDHUP = 0x2000"

lemmas poll_bits = POLLIN_def POLLOUT_def POLLERR_def POLLHUP_def POLLRDHUP_def

definition zero_pollfd :: pollfd where
  "zero_pollfd = \<lparr>pfd = 0, events = 0, revents = 0\<rparr>"

definition s_poll_realloc :: "poll_set \<Rightarrow> poll_set" where
  "s_poll_realloc fds = fds\<lparr>ufds := realloc_list zero_pollfd (ufds fds) (allocated fds)\<rparr>"

definition s_poll_alloc :: poll_set where
  "s_poll_alloc = \<lparr>ufds = [], nfds = 0, allocated = 0\<rparr>"

definition s_poll_init :: "poll_set \<Rightarrow> poll_set" where
  "s_poll_init fds = s_poll_realloc (fds\<lparr>nfds := 0, allocated := 4\<rparr>)"

text \<open>The search loop \<open>for(i=0; i<fds->nfds && fds->ufds[i].fd!=fd; i++)\<close>, over the used
  part of the array.\<close>

fun find_fd :: "pollfd list \<Rightarrow> int \<Rightarrow> nat" where
  "find_fd [] f = 0"
| "find_fd (p # ps) f = (if pfd p = f then 0 else Suc (find_fd ps f))"

definition poll_used :: "poll_set \<Rightarrow> pollfd list" where
  "poll_used fds = take (nfds fds) (ufds fds)"

definition s_poll_add :: "poll_set \<Rightarrow> int \<Rightarrow> bool \<Rightarrow> bool \<Rightarrow> poll_set" where
  "s_poll_add fds f rd wr =
    (let i = find_fd (poll_used fds) f;
         fds1 =
           (if i = nfds fds then
              let fds0 = (if i = allocated fds then s_poll_realloc (fds\<lparr>allocated := i + 1\<rparr>) else fds)
              in fds0\<lparr>ufds := (ufds fds0)[i := (ufds fds0 ! i)\<lparr>pfd := f, events := 0\<rparr>],
                      nfds := nfds fds0 + 1\<rparr>
            else fds);
         fds2 =
           (if rd then fds1\<lparr>ufds := (ufds fds1)[i := (ufds fds1 ! i)\<lparr>events :=
                events (ufds fds1 ! i) OR POLLIN OR POLLRDHUP\<rparr>]\<rparr>
            else fds1)
     in if wr then fds2\<lparr>ufds := (ufds fds2)[i := (ufds fds2 ! i)\<lparr>events :=
                events (ufds fds2 ! i) OR POLLOUT\<rparr>]\<rparr>
        else fds2)"

definition s_poll_remove :: "poll_set \<Rightarrow> int \<Rightarrow> poll_set" where
  "s_poll_remove fds f =
    (let i = find_fd (poll_used fds) f
     in if i < nfds fds
        then fds\<lparr>ufds := memmove (ufds fds) i (i + 1) (nfds fds - i - 1), nfds := nfds fds - 1\<rparr>
        else fds)"

text \<open>The queries share one loop; each returns the event bits it asks about, 0 when the
  descriptor is not listed.\<close>

fun revents_of :: "pollfd list \<Rightarrow> int \<Rightarrow> 16 word" where
  "revents_of [] f = 0"
| "revents_of (p # ps) f = (if pfd p = f then revents p else revents_of ps f)"

definition s_poll_canread :: "poll_set \<Rightarrow> int \<Rightarrow> bool" where
  "s_poll_canread fds f \<longleftrightarrow> revents_of (poll_used fds) f AND (POLLIN OR POLLERR) \<noteq> 0"

definition s_poll_canwrite :: "poll_set \<Rightarrow> int \<Rightarrow> bool" where
  "s_poll_canwrite fds f \<longleftrightarrow> revents_of (poll_used fds) f AND (POLLOUT OR POLLERR) \<noteq> 0"

definition s_poll_hup :: "poll_set \<Rightarrow> int \<Rightarrow> bool" where
  "s_poll_hup fds f \<longleftrightarrow> revents_of (poll_used fds) f AND POLLHUP \<noteq> 0"

definition s_poll_rdhup :: "poll_set \<Rightarrow> int \<Rightarrow> bool" where
  "s_poll_rdhup fds f \<longleftrightarrow> revents_of (poll_used fds) f AND POLLRDHUP \<noteq> 0"

definition s_poll_err :: "poll_set \<Rightarrow> int \<Rightarrow> bool" where
  "s_poll_err fds f \<longleftrightarrow> revents_of (poll_used fds) f AND POLLERR \<noteq> 0"

text \<open>What \<open>poll()\<close> stores: its \<open>revents\<close>, one per used entry, in order.\<close>

definition store_revents :: "poll_set \<Rightarrow> (16 word) list \<Rightarrow> poll_set" where
  "store_revents fds rs =
    fds\<lparr>ufds := map2 (\<lambda>p r. p\<lparr>revents := r\<rparr>) (poll_used fds) rs @ drop (nfds fds) (ufds fds)\<rparr>"

section \<open>The poll implementation meets the interface\<close>

definition poll_inv :: "poll_set \<Rightarrow> bool" where
  "poll_inv fds \<longleftrightarrow> allocated fds = length (ufds fds) \<and> nfds fds \<le> allocated fds \<and>
     distinct (map pfd (poll_used fds))"

fun want_of :: "pollfd list \<Rightarrow> int \<Rightarrow> (bool \<times> bool) option" where
  "want_of [] f = None"
| "want_of (p # ps) f =
    (if pfd p = f then Some (events p AND POLLIN \<noteq> 0, events p AND POLLOUT \<noteq> 0) else want_of ps f)"

definition poll_want :: "poll_set \<Rightarrow> int \<Rightarrow> (bool \<times> bool) option" where
  "poll_want fds f = want_of (poll_used fds) f"

lemma find_fd_le: "find_fd ps f \<le> length ps"
  by (induction ps f rule: find_fd.induct) auto

lemma find_fd_found: "find_fd ps f < length ps \<longleftrightarrow> f \<in> pfd ` set ps"
  by (induction ps f rule: find_fd.induct) auto

lemma find_fd_nth: "find_fd ps f < length ps \<Longrightarrow> pfd (ps ! find_fd ps f) = f"
  by (induction ps f rule: find_fd.induct) auto

lemma want_of_None: "want_of ps f = None \<longleftrightarrow> f \<notin> pfd ` set ps"
  by (induction ps f rule: want_of.induct) auto

lemma want_of_append_new:
  "f \<notin> pfd ` set ps \<Longrightarrow> want_of (ps @ [p]) g = (if g = f then want_of [p] f else want_of ps g)"
  if "pfd p = f"
  using that by (induction ps g rule: want_of.induct) auto

lemma want_of_update:
  assumes "find_fd ps f < length ps" and "pfd p = f" and "distinct (map pfd ps)"
  shows "want_of (ps[find_fd ps f := p]) g = (if g = f then want_of [p] f else want_of ps g)"
  using assms by (induction ps f rule: find_fd.induct) (auto split: if_splits)

lemma want_of_found:
  assumes "find_fd ps f < length ps"
  shows "want_of ps f = want_of [ps ! find_fd ps f] f"
  using assms by (induction ps f rule: find_fd.induct) auto

lemma map_pfd_update: "find_fd ps f < length ps \<Longrightarrow> pfd p = f \<Longrightarrow>
  map pfd (ps[find_fd ps f := p]) = map pfd ps"
  by (induction ps f rule: find_fd.induct) auto

lemma or_masks [simp]:
  "((a OR POLLIN OR POLLRDHUP) AND POLLIN = 0) = False" "((a OR POLLOUT) AND POLLOUT = 0) = False"
  "(a OR POLLOUT) AND POLLIN = a AND POLLIN"
  "(a OR POLLIN OR POLLRDHUP) AND POLLOUT = a AND POLLOUT"
  "0 AND POLLIN = 0" "0 AND POLLOUT = 0" "POLLIN \<noteq> 0" "POLLOUT \<noteq> 0"
  by (simp_all add: poll_bits bit.conj_disj_distrib2)

text \<open>The events an add requests, and the entry it touches.\<close>

definition add_events :: "16 word \<Rightarrow> bool \<Rightarrow> bool \<Rightarrow> 16 word" where
  "add_events e rd wr =
    (let e1 = (if rd then e OR POLLIN OR POLLRDHUP else e) in if wr then e1 OR POLLOUT else e1)"

lemma add_events_masks [simp]:
  "add_events e rd wr AND POLLIN = 0 \<longleftrightarrow> e AND POLLIN = 0 \<and> \<not> rd"
  "add_events e rd wr AND POLLOUT = 0 \<longleftrightarrow> e AND POLLOUT = 0 \<and> \<not> wr"
  by (auto simp: add_events_def Let_def)

lemma poll_inv_used: "poll_inv fds \<Longrightarrow> length (poll_used fds) = nfds fds"
  by (simp add: poll_inv_def poll_used_def)

lemma take_update_same: "i < n \<Longrightarrow> take n xs = (take n xs)[i := xs ! i]"
  by (metis list_update_id nth_take)

lemma s_poll_add_found:
  assumes "poll_inv fds" and "i = find_fd (poll_used fds) f" and "i < nfds fds"
  shows "poll_used (s_poll_add fds f rd wr) =
      (poll_used fds)[i := (poll_used fds ! i)\<lparr>events := add_events (events (poll_used fds ! i)) rd wr\<rparr>]"
    and "nfds (s_poll_add fds f rd wr) = nfds fds"
    and "allocated (s_poll_add fds f rd wr) = allocated fds"
    and "length (ufds (s_poll_add fds f rd wr)) = length (ufds fds)"
  using assms
  by (auto simp: s_poll_add_def Let_def poll_used_def add_events_def poll_inv_def
      take_update_swap intro: take_update_same)

lemma s_poll_add_new:
  assumes "poll_inv fds" and "find_fd (poll_used fds) f = nfds fds"
  shows "\<exists>p. pfd p = f \<and> events p = add_events 0 rd wr \<and>
      poll_used (s_poll_add fds f rd wr) = poll_used fds @ [p] \<and>
      nfds (s_poll_add fds f rd wr) = nfds fds + 1 \<and>
      nfds fds + 1 \<le> allocated (s_poll_add fds f rd wr) \<and>
      allocated (s_poll_add fds f rd wr) = length (ufds (s_poll_add fds f rd wr))"
  using assms
  by (cases "nfds fds = length (ufds fds)")
    (auto simp: s_poll_add_def Let_def poll_used_def add_events_def poll_inv_def s_poll_realloc_def
      realloc_list_def take_Suc_conv_app_nth nth_append)

lemma poll_inv_init: "poll_inv (s_poll_init fds)"
  by (simp add: poll_inv_def s_poll_init_def s_poll_realloc_def poll_used_def)

lemma nfds_cases:
  "poll_inv fds \<Longrightarrow> find_fd (poll_used fds) f = nfds fds \<or> find_fd (poll_used fds) f < nfds fds"
  using find_fd_le [of "poll_used fds" f] by (auto simp: poll_inv_used)

lemma poll_inv_add:
  assumes "poll_inv fds"
  shows "poll_inv (s_poll_add fds f rd wr)"
  using nfds_cases [OF assms, of f]
proof
  assume new: "find_fd (poll_used fds) f = nfds fds"
  then have "f \<notin> pfd ` set (poll_used fds)"
    using find_fd_found [of "poll_used fds" f] by (simp add: poll_inv_used [OF assms])
  then show ?thesis
    using s_poll_add_new [OF assms new, of rd wr] assms by (auto simp: poll_inv_def)
next
  assume "find_fd (poll_used fds) f < nfds fds"
  with s_poll_add_found [OF assms refl this, of rd wr] show ?thesis
    using assms
    by (auto simp: poll_inv_def map_pfd_update find_fd_nth poll_inv_used [OF assms])
qed

lemma poll_want_add:
  assumes "poll_inv fds"
  shows "poll_want (s_poll_add fds f rd wr) g =
    (if g = f then Some (case poll_want fds f of None \<Rightarrow> (rd, wr) | Some (r', w') \<Rightarrow> (r' \<or> rd, w' \<or> wr))
     else poll_want fds g)"
  using nfds_cases [OF assms, of f]
proof
  assume new: "find_fd (poll_used fds) f = nfds fds"
  then have fresh: "f \<notin> pfd ` set (poll_used fds)"
    using find_fd_found [of "poll_used fds" f] by (simp add: poll_inv_used [OF assms])
  then have "want_of (poll_used fds) f = None" by (simp add: want_of_None)
  with fresh show ?thesis
    using s_poll_add_new [OF assms new, of rd wr] by (auto simp: poll_want_def want_of_append_new)
next
  let ?i = "find_fd (poll_used fds) f"
  assume old: "?i < nfds fds"
  then have i: "?i < length (poll_used fds)" by (simp add: poll_inv_used [OF assms])
  have "distinct (map pfd (poll_used fds))" using assms by (simp add: poll_inv_def)
  with i show ?thesis
    by (simp add: poll_want_def s_poll_add_found [OF assms refl old] want_of_update find_fd_nth
        want_of_found [OF i])
qed

lemma s_poll_remove_used:
  assumes "poll_inv fds" and "i = find_fd (poll_used fds) f" and "i < nfds fds"
  shows "poll_used (s_poll_remove fds f) = take i (poll_used fds) @ drop (Suc i) (poll_used fds)"
proof -
  have n: "nfds fds \<le> length (ufds fds)" using assms(1) by (simp add: poll_inv_def)
  let ?ab = "take i (ufds fds) @ take (nfds fds - i - 1) (drop (Suc i) (ufds fds))"
  have "length ?ab = nfds fds - 1" using assms(3) n by auto
  moreover have "take (length zs) (zs @ xs) = zs" for zs xs :: "pollfd list" by simp
  ultimately have "take (nfds fds - 1) (?ab @ drop (nfds fds - 1) (ufds fds)) = ?ab" by metis
  then have "take (nfds fds - 1) (memmove (ufds fds) i (i + 1) (nfds fds - i - 1)) = ?ab"
    using assms(3) by (simp add: memmove_def)
  also have "take (nfds fds - i - 1) (drop (Suc i) (ufds fds)) = drop (Suc i) (take (nfds fds) (ufds fds))"
    by (simp add: drop_take)
  finally show ?thesis
    using assms(2,3) by (simp add: s_poll_remove_def Let_def poll_used_def min_def)
qed

lemma distinct_delete: "distinct xs \<Longrightarrow> distinct (take i xs @ drop (Suc i) xs)"
  by (cases "i < length xs") (metis distinct.simps(2) distinct_append id_take_nth_drop
      disjoint_insert(1) list.simps(15), simp)

lemma want_of_delete:
  assumes "find_fd ps f < length ps" and "distinct (map pfd ps)"
  shows "want_of (take (find_fd ps f) ps @ drop (Suc (find_fd ps f)) ps) g =
    (if g = f then None else want_of ps g)"
  using assms
proof (induction ps f rule: find_fd.induct)
  case (1 f)
  then show ?case by simp
next
  case (2 p ps f)
  then show ?case using want_of_None [of ps f] by (cases "pfd p = f") auto
qed

lemma s_poll_remove_absent:
  "poll_inv fds \<Longrightarrow> find_fd (poll_used fds) f = nfds fds \<Longrightarrow> s_poll_remove fds f = fds"
  by (simp add: s_poll_remove_def)

lemma poll_inv_remove:
  assumes "poll_inv fds"
  shows "poll_inv (s_poll_remove fds f)"
  using nfds_cases [OF assms, of f]
proof
  assume "find_fd (poll_used fds) f = nfds fds"
  with assms show ?thesis by (simp add: s_poll_remove_absent)
next
  let ?i = "find_fd (poll_used fds) f"
  assume i: "?i < nfds fds"
  have "distinct (map pfd (take ?i (poll_used fds) @ drop (Suc ?i) (poll_used fds)))"
    using assms distinct_delete [of "map pfd (poll_used fds)" ?i]
    by (simp add: poll_inv_def take_map drop_map)
  with s_poll_remove_used [OF assms refl i] i assms show ?thesis
    by (auto simp: poll_inv_def s_poll_remove_def Let_def)
qed

lemma poll_want_remove:
  assumes "poll_inv fds"
  shows "poll_want (s_poll_remove fds f) g = (if g = f then None else poll_want fds g)"
  using nfds_cases [OF assms, of f]
proof
  assume absent: "find_fd (poll_used fds) f = nfds fds"
  then have "want_of (poll_used fds) f = None"
    using find_fd_found [of "poll_used fds" f] by (simp add: want_of_None poll_inv_used [OF assms])
  with absent show ?thesis by (simp add: s_poll_remove_absent assms poll_want_def)
next
  assume i: "find_fd (poll_used fds) f < nfds fds"
  have "distinct (map pfd (poll_used fds))" using assms by (simp add: poll_inv_def)
  with i show ?thesis
    by (simp add: poll_want_def s_poll_remove_used [OF assms refl i] want_of_delete poll_inv_used [OF assms])
qed

lemma poll_want_init: "poll_want (s_poll_init fds) g = None"
  by (simp add: poll_want_def poll_used_def s_poll_init_def s_poll_realloc_def)

interpretation poll: watch_set s_poll_init s_poll_add s_poll_remove poll_want poll_inv
  by unfold_locales
    (simp_all add: poll_inv_init poll_inv_add poll_inv_remove poll_want_add poll_want_remove
      poll_want_init)

section \<open>The select implementation\<close>

text \<open>Six descriptor sets: the requests (\<open>i\<close>) and the answers (\<open>o\<close>), each for reading,
  writing and exceptions, and the greatest descriptor added.\<close>

record select_set =
  irfds :: "int set"
  iwfds :: "int set"
  ixfds :: "int set"
  orfds :: "int set"
  owfds :: "int set"
  oxfds :: "int set"
  max_fd :: int

definition select_init :: "select_set \<Rightarrow> select_set" where
  "select_init fds = fds\<lparr>irfds := {}, iwfds := {}, ixfds := {}, max_fd := 0\<rparr>"

definition select_add :: "select_set \<Rightarrow> int \<Rightarrow> bool \<Rightarrow> bool \<Rightarrow> select_set" where
  "select_add fds f rd wr =
    (let fds1 = (if rd then fds\<lparr>irfds := insert f (irfds fds)\<rparr> else fds);
         fds2 = (if wr then fds1\<lparr>iwfds := insert f (iwfds fds1)\<rparr> else fds1);
         fds3 = fds2\<lparr>ixfds := insert f (ixfds fds2)\<rparr>
     in if f > max_fd fds3 then fds3\<lparr>max_fd := f\<rparr> else fds3)"

definition select_remove :: "select_set \<Rightarrow> int \<Rightarrow> select_set" where
  "select_remove fds f =
    fds\<lparr>irfds := irfds fds - {f}, iwfds := iwfds fds - {f}, ixfds := ixfds fds - {f}\<rparr>"

text \<open>The queries; \<open>serr\<close> is \<open>get_socket_error\<close> of the descriptor.\<close>

definition select_canread :: "select_set \<Rightarrow> int \<Rightarrow> int \<Rightarrow> bool" where
  "select_canread fds f serr \<longleftrightarrow> f \<in> orfds fds \<or> (f \<in> oxfds fds \<and> serr \<noteq> 0)"

definition select_canwrite :: "select_set \<Rightarrow> int \<Rightarrow> int \<Rightarrow> bool" where
  "select_canwrite fds f serr \<longleftrightarrow> f \<in> owfds fds \<or> (f \<in> oxfds fds \<and> serr \<noteq> 0)"

definition select_err :: "select_set \<Rightarrow> int \<Rightarrow> bool" where
  "select_err fds f \<longleftrightarrow> f \<in> oxfds fds"

text \<open>\<open>s_poll_dump\<close> lists the descriptors it finds in a set, from 0 up.\<close>

definition select_dump :: "select_set \<Rightarrow> int list" where
  "select_dump fds =
    filter (\<lambda>f. f \<in> irfds fds \<or> f \<in> iwfds fds \<or> f \<in> ixfds fds \<or>
                f \<in> orfds fds \<or> f \<in> owfds fds \<or> f \<in> oxfds fds)
      (map int [0..<nat (max_fd fds)])"

definition select_want :: "select_set \<Rightarrow> int \<Rightarrow> (bool \<times> bool) option" where
  "select_want fds f = (if f \<in> ixfds fds then Some (f \<in> irfds fds, f \<in> iwfds fds) else None)"

definition select_inv :: "select_set \<Rightarrow> bool" where
  "select_inv fds \<longleftrightarrow> irfds fds \<subseteq> ixfds fds \<and> iwfds fds \<subseteq> ixfds fds \<and> (\<forall>f \<in> ixfds fds. f \<le> max_fd fds)"

interpretation select: watch_set select_init select_add select_remove select_want select_inv
  by unfold_locales
    (auto simp: select_init_def select_add_def select_remove_def select_want_def select_inv_def Let_def)

end
