(* ===== verification/Cli.thy ===== *)
theory Cli
  imports Poll
begin

text \<open>
  The state of one connection (\<open>CLI\<close> and the parts of \<open>SERVICE_OPTIONS\<close> it uses, from
  prototypes.h) and its environment: the operating system, the resolver and the OpenSSL library
  answer requests through one function \<open>os\<close>, a parameter of every theorem. The configuration
  modelled is the POSIX one with threads, \<open>USE_POLL\<close>, IPv6 and Unix sockets.
\<close>

section \<open>Addresses and descriptors\<close>

text \<open>\<open>SOCKADDR_UNION\<close>: address and port are kept as the bytes on the wire (network order).\<close>

datatype sockaddr =
    AF_INET "byte list" "byte list"
  | AF_INET6 "byte list" "byte list"
  | AF_UNIX string
  | AF_OTHER nat

fun sa_family :: "sockaddr \<Rightarrow> nat" where
  "sa_family (AF_UNIX p) = 1"
| "sa_family (AF_INET a p) = 2"
| "sa_family (AF_INET6 a p) = 10"
| "sa_family (AF_OTHER n) = n"

fun sin_port :: "sockaddr \<Rightarrow> byte list" where
  "sin_port (AF_INET a p) = p"
| "sin_port (AF_INET6 a p) = p"
| "sin_port (AF_UNIX s) = take 2 (raw s)"
| "sin_port (AF_OTHER n) = [0, 0]"

text \<open>\<open>addr_len\<close>: the size of the structure the family uses.\<close>

fun addr_len :: "sockaddr \<Rightarrow> nat" where
  "addr_len (AF_INET a p) = 16"
| "addr_len (AF_INET6 a p) = 28"
| "addr_len (AF_UNIX s) = 110"
| "addr_len (AF_OTHER n) = 112"

text \<open>Network byte order: \<open>ntohs\<close> and \<open>ntohl\<close> of the bytes stored.\<close>

definition be_nat :: "byte list \<Rightarrow> nat" where
  "be_nat bs = foldl (\<lambda>n b. 256 * n + unat b) 0 bs"

text \<open>Where \<open>addr_list->parent\<close> points: to the list itself or to one of the service's lists.\<close>

datatype parent = Own | Opt_connect | Opt_redirect

record addrlist =
  al_parent :: parent
  al_addr :: "sockaddr list"
  al_session :: "nat option list option"
  al_rr :: nat
  al_passive :: bool
  al_names :: "string list"

text \<open>\<open>num\<close> is the length of the address array, which the code keeps equal to it; \<open>session\<close> is
  an array of session pointers or NULL.\<close>

definition al_num :: "addrlist \<Rightarrow> nat" where
  "al_num l = length (al_addr l)"

record fdesc =
  fd :: int
  is_socket :: bool

definition INVALID_SOCKET :: int where "INVALID_SOCKET = -1"

section \<open>Requests to the environment and their answers\<close>

datatype ssl_error = SSL_NONE | SSL_SSL | SSL_WANT_READ | SSL_WANT_WRITE | SSL_WANT_X509
  | SSL_SYSCALL | SSL_ZERO_RETURN | SSL_OTHER

datatype (plugins only: code size) req =
    Poll "pollfd list" int
  | Read int nat
  | Write int "byte list"
  | Close int
  | Shutdown int nat
  | Fionread int
  | Sock_error int
  | Connect int sockaddr
  | Socket nat
  | Bind int sockaddr
  | Listen int
  | Accept int
  | Socketpair
  | Pipe
  | Setsockopt int string
  | Getpeername int
  | Getsockname int
  | Getsockopt_dst int bool
  | Getaddrinfo "string option" string nat bool bool
  | Getnameinfo sockaddr
  | Getservbyname string
  | Set_nonblock int bool
  | Rand_bytes
  | Sleep
  | Lock string
  | Unlock string
  | Fork_exec int
  | Pty_allocate
  | Libwrap_auth string
  | Ssl_new
  | Ssl_set_fd int int
  | Ssl_set_sni string
  | Ssl_set_session nat
  | Ssl_handshake bool
  | Ssl_session_reused
  | Ssl_get_session
  | Ssl_peer_cert
  | Ssl_peer_chain
  | Ssl_ctx_add_session nat
  | Ssl_session_free nat
  | Ssl_free
  | Ssl_pending
  | Ssl_version
  | Ssl_read nat
  | Ssl_write "byte list"
  | Ssl_shutdown
  | Bio_new
  | Md4 "byte list"
  | Des_ecb "byte list" "byte list"
  | Thread_create int
  | Count_clients
  | Waitpid
  | Lstat string
  | Lchown string
  | Unlink string
  | Flush_sessions
  | Options_parse
  | Daemonize
  | Open string
  | Dup2 int int
  | Fork
  | Getpid
  | Options_cmdline
  | Log_open
  | Sysconf
  | Ssl_init
  | Sthreads_init
  | Sd_listen_fds
  | Chroot string
  | Chdir string
  | Setgid nat
  | Setgroups nat
  | Setuid nat

text \<open>
  An answer: the return value, \<open>errno\<close> after the call, and what the call hands back. The
  answers of OpenSSL's calls carry its classification of the result (\<open>SSL_get_error\<close>), the
  shutdown state of the connection after the call (\<open>SSL_get_shutdown\<close>) and whether
  \<open>info_callback\<close> saw a renegotiation during it.
\<close>

record ans =
  a_ret :: int
  a_errno :: int
  a_val :: int
  a_data :: "byte list"
  a_fds :: "int list"
  a_revents :: "(16 word) list"
  a_ssl :: ssl_error
  a_sent :: bool
  a_rcvd :: bool
  a_reneg :: bool
  a_addr :: sockaddr
  a_addrs :: "sockaddr list"
  a_host :: string
  a_port :: string

record env =
  os :: "nat \<Rightarrow> req \<Rightarrow> ans"
  now :: nat
  horizon :: nat
  trace :: "(req \<times> ans) list"
  errno :: int

text \<open>What the manual pages of the calls promise and the code relies on: a read returns at most
  the bytes asked for and as many as it counts, a write accepts at most the bytes offered,
  \<open>poll\<close> stores one answer per entry, a created descriptor is not negative, an MD4
  digest has 16 bytes and a DES block 8.\<close>

fun ans_ok :: "req \<Rightarrow> ans \<Rightarrow> bool" where
  "ans_ok (Read f n) a \<longleftrightarrow> -1 \<le> a_ret a \<and> a_ret a \<le> int n \<and> int (length (a_data a)) = max 0 (a_ret a)"
| "ans_ok (Write f bs) a \<longleftrightarrow> -1 \<le> a_ret a \<and> a_ret a \<le> int (length bs)"
| "ans_ok (Ssl_read n) a \<longleftrightarrow> -1 \<le> a_ret a \<and> a_ret a \<le> int n \<and>
     int (length (a_data a)) = max 0 (a_ret a) \<and> (a_ssl a = SSL_NONE \<longleftrightarrow> 0 < a_ret a)"
| "ans_ok (Ssl_write bs) a \<longleftrightarrow> -1 \<le> a_ret a \<and> a_ret a \<le> int (length bs) \<and>
     (a_ssl a = SSL_NONE \<longleftrightarrow> 0 < a_ret a)"
| "ans_ok (Poll ps t) a \<longleftrightarrow> length (a_revents a) = length ps"
| "ans_ok (Socket d) a \<longleftrightarrow> -1 \<le> a_ret a"
| "ans_ok (Accept s) a \<longleftrightarrow> -1 \<le> a_ret a"
| "ans_ok (Open p) a \<longleftrightarrow> -1 \<le> a_ret a"
| "ans_ok Socketpair a \<longleftrightarrow> a_ret a < 0 \<or> 0 \<le> a_fds a ! 0 \<and> 0 \<le> a_fds a ! 1"
| "ans_ok Pipe a \<longleftrightarrow> a_ret a < 0 \<or> 0 \<le> a_fds a ! 0 \<and> 0 \<le> a_fds a ! 1"
| "ans_ok Pty_allocate a \<longleftrightarrow> a_ret a < 0 \<or> a_ret a = 0 \<and> 0 \<le> a_fds a ! 0 \<and> 0 \<le> a_fds a ! 1"
| "ans_ok (Md4 m) a \<longleftrightarrow> length (a_data a) = 16"
| "ans_ok (Des_ecb k b) a \<longleftrightarrow> length (a_data a) = 8"
| "ans_ok _ a \<longleftrightarrow> True"

definition os_ok :: "(nat \<Rightarrow> req \<Rightarrow> ans) \<Rightarrow> bool" where
  "os_ok f \<longleftrightarrow> (\<forall>n q. ans_ok q (f n q))"

section \<open>Service options and the connection\<close>

datatype failover = FAILOVER_RR | FAILOVER_PRIO

record service =
  o_client :: bool
  o_connect_before_ssl :: bool
  o_protocol_endpoint :: bool
  o_transparent_src :: bool
  o_transparent_dst :: bool
  o_local :: bool
  o_pty :: bool
  o_retry :: bool
  o_reset :: bool
  o_renegotiation :: bool
  o_exec_name :: "string option"
  o_sni :: string
  o_connect_addr :: addrlist
  o_redirect_addr :: addrlist
  o_source_addr :: sockaddr
  o_local_addr :: sockaddr
  o_timeout_busy :: int
  o_timeout_close :: int
  o_timeout_connect :: int
  o_timeout_idle :: int
  o_failover :: failover
  o_username :: "string option"
  o_session :: "nat option"
  o_chain :: "byte list option"
  o_protocol :: "string option"
  o_protocol_host :: "string option"
  o_protocol_domain :: "string option"
  o_protocol_username :: "string option"
  o_protocol_password :: "string option"
  o_protocol_authentication :: string
  o_log_level :: nat

datatype reneg = RENEG_INIT | RENEG_ESTABLISHED | RENEG_DETECTED

text \<open>\<open>c->sock_rfd\<close> and its kin point to one of the three descriptors of the connection.\<close>

datatype fdsel = Local_rfd | Local_wfd | Remote_fd

record cli =
  env :: env
  opt :: service
  ssl :: bool
  ssl_sent :: bool
  ssl_rcvd :: bool
  sess_redirect :: "nat \<Rightarrow> nat"
  sess_addr :: "nat \<Rightarrow> sockaddr option"
  peer_addr :: sockaddr
  bind_addr :: "sockaddr option"
  connect_addr :: addrlist
  idx :: nat
  local_rfd :: fdesc
  local_wfd :: fdesc
  remote_fd :: fdesc
  tmp_fd :: int
  reneg_state :: reneg
  sock_buff :: "byte list"
  ssl_buff :: "byte list"
  sock_ptr :: nat
  ssl_ptr :: nat
  sock_rfd :: fdsel
  sock_wfd :: fdsel
  ssl_rfd :: fdsel
  ssl_wfd :: fdsel
  sock_bytes :: "64 word"
  ssl_bytes :: "64 word"
  fds :: poll_set
  redirect :: nat
  num_clients :: int
  max_fds :: int
  sock_opts :: "(string \<times> bool list) list"

fun get_fd :: "cli \<Rightarrow> fdsel \<Rightarrow> fdesc" where
  "get_fd c Local_rfd = local_rfd c"
| "get_fd c Local_wfd = local_wfd c"
| "get_fd c Remote_fd = remote_fd c"

definition BUFFSIZE :: nat where "BUFFSIZE = 18432"

type_synonym 'a cm = "cli \<Rightarrow> ('a, cli) res"

text \<open>One request: the environment answers, or the observation ends here.\<close>

definition sys :: "req \<Rightarrow> ans cm" where
  "sys q c =
    (if now (env c) < horizon (env c) then
       let a = os (env c) (now (env c)) q
       in Ok a (c\<lparr>env := (env c)\<lparr>now := now (env c) + 1, trace := trace (env c) @ [(q, a)],
                                errno := a_errno a\<rparr>\<rparr>)
     else Stop Blocked c)"

text \<open>A request to OpenSSL also moves the connection's shutdown and renegotiation state.\<close>

definition ssl_sys :: "req \<Rightarrow> ans cm" where
  "ssl_sys q = bindM (sys q) (\<lambda>a.
     seqM (modM (\<lambda>c. c\<lparr>ssl_sent := a_sent a, ssl_rcvd := a_rcvd a,
                       reneg_state := (if a_reneg a \<and> reneg_state c = RENEG_ESTABLISHED
                                       then RENEG_DETECTED else reneg_state c)\<rparr>))
       (retM a))"

definition fuel :: "cli \<Rightarrow> nat" where
  "fuel c = Suc (horizon (env c) - now (env c))"

definition loopM :: "('a \<Rightarrow> ('b + 'a) cm) \<Rightarrow> 'a \<Rightarrow> 'b cm" where
  "loopM body a c = iterM (fuel c) body a c"

definition lock :: "string \<Rightarrow> unit cm" where
  "lock l = bindM (sys (Lock l)) (\<lambda>_. retM ())"

definition unlock :: "string \<Rightarrow> unit cm" where
  "unlock l = bindM (sys (Unlock l)) (\<lambda>_. retM ())"

definition closesocket :: "int \<Rightarrow> unit cm" where
  "closesocket f = bindM (sys (Close f)) (\<lambda>_. retM ())"

text \<open>\<open>errno\<close> values (Linux) the code distinguishes.\<close>

definition EINTR :: int where "EINTR = 4"
definition EWOULDBLOCK :: int where "EWOULDBLOCK = 11"
definition EPIPE :: int where "EPIPE = 32"
definition ENOTSOCK :: int where "ENOTSOCK = 88"
definition EOPNOTSUPP :: int where "EOPNOTSUPP = 95"
definition EADDRINUSE :: int where "EADDRINUSE = 98"
definition ECONNABORTED :: int where "ECONNABORTED = 103"
definition EINPROGRESS :: int where "EINPROGRESS = 115"

lemmas errnos = EINTR_def EWOULDBLOCK_def EPIPE_def ENOTSOCK_def EOPNOTSUPP_def EADDRINUSE_def
  ECONNABORTED_def EINPROGRESS_def

section \<open>Laws of requests and loops\<close>

lemma wp_sys [wp_simps]:
  "wp (sys q) Q E c =
    (if now (env c) < horizon (env c) then
       let a = os (env c) (now (env c)) q
       in Q a (c\<lparr>env := (env c)\<lparr>now := now (env c) + 1, trace := trace (env c) @ [(q, a)],
                                errno := a_errno a\<rparr>\<rparr>)
     else E Blocked c)"
  by (simp add: wp_def sys_def Let_def)

lemma os_okD: "os_ok f \<Longrightarrow> ans_ok q (f n q)"
  by (simp add: os_ok_def)

lemma wp_loopM:
  assumes "I a c"
    and "\<And>a c. I a c \<Longrightarrow>
      wp (body a) (\<lambda>r c'. case r of Inl b \<Rightarrow> Q b c' | Inr a' \<Rightarrow> I a' c') E c"
    and "\<And>a c. I a c \<Longrightarrow> E Blocked c"
  shows "wp (loopM body a) Q E c"
proof -
  have "wp (loopM body a) Q E c = wp (iterM (fuel c) body a) Q E c"
    by (simp add: wp_def loopM_def)
  also have "\<dots>" using assms by (rule wp_iterM)
  finally show ?thesis .
qed

end
