(* ===== verification/Frame.thy ===== *)
theory Frame
  imports Cli
begin

text \<open>
  What a computation leaves alone, and why its loops end only with the environment: frame
  relations between the state before and after, closed under the monad's combinators, and
  liveness (a computation is \<open>Blocked\<close> only at the observation horizon, never because a loop
  ran out of fuel).
\<close>

section \<open>Frames\<close>

definition keeps :: "('s \<Rightarrow> 's \<Rightarrow> bool) \<Rightarrow> ('s \<Rightarrow> ('a, 's) res) \<Rightarrow> bool" where
  "keeps R m \<longleftrightarrow> (\<forall>c. wp m (\<lambda>_. R c) (\<lambda>_. R c) c)"

text \<open>The environment only moves forward.\<close>

definition env_le :: "env \<Rightarrow> env \<Rightarrow> bool" where
  "env_le e e' \<longleftrightarrow> os e' = os e \<and> horizon e' = horizon e \<and> now e \<le> now e' \<and>
     now e' \<le> max (now e) (horizon e) \<and> (\<exists>t. trace e' = trace e @ t)"

text \<open>An I/O function touches the environment, the poll set and OpenSSL's state only:
  \<open>rest_of\<close> is the remainder of the connection's state.\<close>

definition rest_of :: "cli \<Rightarrow> cli" where
  "rest_of c = c\<lparr>env := undefined, fds := undefined, ssl_sent := undefined, ssl_rcvd := undefined,
     reneg_state := undefined\<rparr>"

definition io_le :: "cli \<Rightarrow> cli \<Rightarrow> bool" where
  "io_le c c' \<longleftrightarrow> env_le (env c) (env c') \<and> rest_of c' = rest_of c"

definition env_step :: "req \<Rightarrow> cli \<Rightarrow> cli" where
  "env_step q c = c\<lparr>env := (env c)\<lparr>now := now (env c) + 1,
     trace := trace (env c) @ [(q, os (env c) (now (env c)) q)],
     errno := a_errno (os (env c) (now (env c)) q)\<rparr>\<rparr>"

named_theorems frame_intros \<open>rules that push a frame through a computation\<close>

text \<open>\<open>R\<close> relates the state before to the state after; \<open>may q\<close> are the requests that respect it.\<close>

locale frame_rel =
  fixes R :: "cli \<Rightarrow> cli \<Rightarrow> bool"
    and may :: "req \<Rightarrow> bool"
  assumes refl: "R c c"
    and trans: "R a b \<Longrightarrow> R b c \<Longrightarrow> R a c"
    and env_step: "may q \<Longrightarrow> now (env c) < horizon (env c) \<Longrightarrow> R c (env_step q c)"
    and ssl_step: "R c (c\<lparr>ssl_sent := s, ssl_rcvd := r, reneg_state := g\<rparr>)"
begin

lemma retM: "keeps R (retM a)"
  by (simp add: keeps_def wp_simps refl)

lemma stopM: "keeps R (stopM k)"
  by (simp add: keeps_def wp_simps refl)

lemma getM: "keeps R (getM f)"
  by (simp add: keeps_def wp_simps refl)

lemma modM: "(\<And>c. R c (f c)) \<Longrightarrow> keeps R (modM f)"
  by (simp add: keeps_def wp_simps)

lemma bindM:
  assumes m: "keeps R m" and f: "\<And>a. keeps R (f a)"
  shows "keeps R (bindM m f)"
  unfolding keeps_def wp_bindM
proof
  fix c
  have "wp m (\<lambda>_. R c) (\<lambda>_. R c) c" using m by (simp add: keeps_def)
  then show "wp m (\<lambda>a. wp (f a) (\<lambda>_. R c) (\<lambda>_. R c)) (\<lambda>_. R c) c"
  proof (rule wp_mono)
    fix a c' assume "R c c'"
    moreover have "wp (f a) (\<lambda>_. R c') (\<lambda>_. R c') c'" using f by (simp add: keeps_def)
    ultimately show "wp (f a) (\<lambda>_. R c) (\<lambda>_. R c) c'" by (auto intro: trans elim: wp_mono)
  qed
qed

lemma seqM: "keeps R m \<Longrightarrow> keeps R m' \<Longrightarrow> keeps R (seqM m m')"
  by (simp add: seqM_def bindM)

lemma whenM: "keeps R m \<Longrightarrow> keeps R (whenM b m)"
  by (simp add: whenM_def retM)

lemma sys: "may q \<Longrightarrow> keeps R (sys q)"
  using env_step [of q] refl by (auto simp: keeps_def wp_simps Let_def env_step_def)

lemma ssl_sys: "may q \<Longrightarrow> keeps R (ssl_sys q)"
  unfolding ssl_sys_def by (intro bindM sys seqM modM retM ssl_step)

lemma loopM:
  assumes "\<And>a. keeps R (body a)"
  shows "keeps R (loopM body a)"
  unfolding keeps_def
proof
  fix c
  show "wp (loopM body a) (\<lambda>_. R c) (\<lambda>_. R c) c"
  proof (rule wp_loopM [where I = "\<lambda>_. R c"])
    fix a c' assume "R c c'"
    with assms [of a] show "wp (body a) (\<lambda>r c'. case r of Inl b \<Rightarrow> R c c' | Inr a' \<Rightarrow> R c c') (\<lambda>_. R c) c'"
      by (auto simp: keeps_def intro: trans elim!: allE [where x = c'] wp_mono split: sum.split)
  qed (simp_all add: refl)
qed

lemma foldM: "(\<And>x a. keeps R (f x a)) \<Longrightarrow> keeps R (foldM f xs a)"
  by (induction xs arbitrary: a) (simp_all add: retM bindM)

lemmas rules = retM stopM getM bindM seqM whenM sys ssl_sys loopM foldM

end

lemma keeps_if [frame_intros]:
  "(b \<Longrightarrow> keeps R m) \<Longrightarrow> (\<not> b \<Longrightarrow> keeps R m') \<Longrightarrow> keeps R (if b then m else m')"
  by simp

lemma keepsD: "keeps R m \<Longrightarrow> R c (res_state (m c))"
  by (simp add: keeps_def wp_res_state)

lemma keeps_Ok: "keeps R m \<Longrightarrow> m c = Ok a c' \<Longrightarrow> R c c'"
  using keepsD [of R m c] by simp

lemma keeps_Stop: "keeps R m \<Longrightarrow> m c = Stop k c' \<Longrightarrow> R c c'"
  using keepsD [of R m c] by simp

lemma env_le_trans: "env_le a b \<Longrightarrow> env_le b c \<Longrightarrow> env_le a c"
  by (auto simp: env_le_def)

lemma rest_of_updates [simp]:
  "rest_of (c\<lparr>env := e\<rparr>) = rest_of c" "rest_of (c\<lparr>fds := p\<rparr>) = rest_of c"
  "rest_of (c\<lparr>ssl_sent := x, ssl_rcvd := y, reneg_state := g\<rparr>) = rest_of c"
  by (simp_all add: rest_of_def)

lemma io_le_fields:
  assumes "io_le c c'"
  shows "opt c' = opt c" "connect_addr c' = connect_addr c" "sock_buff c' = sock_buff c"
    "ssl_buff c' = ssl_buff c" "sock_ptr c' = sock_ptr c" "ssl_ptr c' = ssl_ptr c"
    "sock_bytes c' = sock_bytes c" "ssl_bytes c' = ssl_bytes c" "sock_rfd c' = sock_rfd c"
    "sock_wfd c' = sock_wfd c" "ssl_rfd c' = ssl_rfd c" "ssl_wfd c' = ssl_wfd c"
    "local_rfd c' = local_rfd c" "local_wfd c' = local_wfd c" "remote_fd c' = remote_fd c"
    "tmp_fd c' = tmp_fd c" "idx c' = idx c" "ssl c' = ssl c" "redirect c' = redirect c"
    "sess_addr c' = sess_addr c" "peer_addr c' = peer_addr c" "bind_addr c' = bind_addr c"
    "num_clients c' = num_clients c" "max_fds c' = max_fds c"
  using assms by (cases c; cases c'; simp add: io_le_def rest_of_def)+

interpretation io: frame_rel io_le "\<lambda>_. True"
  by unfold_locales (auto simp: io_le_def env_le_def env_step_def)

definition moves :: "cli \<Rightarrow> cli \<Rightarrow> bool" where
  "moves c c' \<longleftrightarrow> env_le (env c) (env c')"

interpretation mv: frame_rel moves "\<lambda>_. True"
  by unfold_locales (auto simp: moves_def env_le_def env_step_def)

text \<open>Only requests that satisfy \<open>P\<close> are made.\<close>

definition asks :: "(req \<Rightarrow> bool) \<Rightarrow> cli \<Rightarrow> cli \<Rightarrow> bool" where
  "asks P c c' \<longleftrightarrow> (\<exists>t. trace (env c') = trace (env c) @ t \<and> (\<forall>x \<in> set t. P (fst x)))"

interpretation asks: frame_rel "asks P" P for P
proof unfold_locales
  fix a b c
  assume "asks P a b" "asks P b c"
  then obtain t u where "trace (env b) = trace (env a) @ t" "\<forall>x \<in> set t. P (fst x)"
    "trace (env c) = trace (env b) @ u" "\<forall>x \<in> set u. P (fst x)"
    by (auto simp: asks_def)
  then have "trace (env c) = trace (env a) @ (t @ u)" "\<forall>x \<in> set (t @ u). P (fst x)"
    by auto
  then show "asks P a c" unfolding asks_def by blast
qed (auto simp: asks_def env_step_def)

lemma keeps_mono:
  assumes "keeps R m" "\<And>c c'. R c c' \<Longrightarrow> S c c'"
  shows "keeps S m"
  unfolding keeps_def
proof
  fix c
  have "wp m (\<lambda>_. R c) (\<lambda>_. R c) c" using assms(1) by (simp add: keeps_def)
  then show "wp m (\<lambda>_. S c) (\<lambda>_. S c) c" by (rule wp_mono) (simp_all add: assms(2))
qed

lemma io_moves: "keeps io_le m \<Longrightarrow> keeps moves m"
  by (erule keeps_mono) (simp add: io_le_def moves_def)

section \<open>Loops end only with the observation\<close>

definition live :: "'a cm \<Rightarrow> bool" where
  "live m \<longleftrightarrow> (\<forall>c c'. m c = Stop Blocked c' \<longrightarrow> horizon (env c') \<le> now (env c'))"

definition ticks :: "'a cm \<Rightarrow> bool" where
  "ticks m \<longleftrightarrow> (\<forall>c a c'. m c = Ok a c' \<longrightarrow> now (env c) < now (env c'))"

definition rounds :: "('b + 'a) cm \<Rightarrow> bool" where
  "rounds m \<longleftrightarrow> (\<forall>c a c'. m c = Ok (Inr a) c' \<longrightarrow> now (env c) < now (env c'))"

lemma live_simps [simp]:
  "live (retM a)" "live (getM f)" "live (modM g)" "live (sys q)" "live (ssl_sys q)"
  "live (stopM (Longjmp n))" "live (stopM Fatal)" "live (stopM Null_deref)" "live (stopM Overflow)"
  by (auto simp: live_def mdefs sys_def ssl_sys_def Let_def split: res.splits if_splits)

lemma live_bindM: "live m \<Longrightarrow> (\<And>a. live (f a)) \<Longrightarrow> live (bindM m f)"
  by (auto simp: live_def bindM_def split: res.splits)

lemma live_seqM: "live m \<Longrightarrow> live m' \<Longrightarrow> live (seqM m m')"
  by (simp add: seqM_def live_bindM)

lemma live_whenM: "live m \<Longrightarrow> live (whenM b m)"
  by (simp add: whenM_def)

lemma live_if: "(b \<Longrightarrow> live m) \<Longrightarrow> (\<not> b \<Longrightarrow> live m') \<Longrightarrow> live (if b then m else m')"
  by simp

lemma ticks_sys [simp]: "ticks (sys q)" "ticks (ssl_sys q)" "ticks (stopM k)"
  by (auto simp: ticks_def mdefs sys_def ssl_sys_def Let_def split: res.splits if_splits)

lemma ticks_bind1: "ticks m \<Longrightarrow> (\<And>a. keeps moves (f a)) \<Longrightarrow> ticks (bindM m f)"
  by (fastforce simp: ticks_def bindM_def moves_def env_le_def split: res.splits dest: keeps_Ok)

lemma ticks_bind2: "keeps moves m \<Longrightarrow> (\<And>a. ticks (f a)) \<Longrightarrow> ticks (bindM m f)"
  by (fastforce simp: ticks_def bindM_def moves_def env_le_def split: res.splits dest: keeps_Ok)

lemma rounds_ticks: "ticks m \<Longrightarrow> rounds m"
  by (auto simp: ticks_def rounds_def)

lemma rounds_Inl [simp]: "rounds (retM (Inl b))"
  by (simp add: rounds_def retM_def)

lemma rounds_sys [frame_intros]:
  "(\<And>a. keeps moves (f a)) \<Longrightarrow> rounds (bindM (sys q) f)"
  "(\<And>a. keeps moves (f a)) \<Longrightarrow> rounds (bindM (ssl_sys q) f)"
  by (simp_all add: rounds_ticks ticks_bind1)

lemma rounds_bind: "keeps moves m \<Longrightarrow> (\<And>a. rounds (f a)) \<Longrightarrow> rounds (bindM m f)"
  by (fastforce simp: rounds_def bindM_def moves_def env_le_def split: res.splits dest: keeps_Ok)

lemma rounds_getM [frame_intros]: "(\<And>a. rounds (f a)) \<Longrightarrow> rounds (bindM (getM g) f)"
  by (simp add: rounds_bind mv.getM)

lemma rounds_seqM [frame_intros]: "keeps moves m \<Longrightarrow> rounds m' \<Longrightarrow> rounds (seqM m m')"
  by (simp add: seqM_def rounds_bind)

lemma rounds_stopM [frame_intros]: "rounds (stopM k)"
  by (simp add: rounds_def stopM_def)

lemma rounds_if: "(b \<Longrightarrow> rounds m) \<Longrightarrow> (\<not> b \<Longrightarrow> rounds m') \<Longrightarrow> rounds (if b then m else m')"
  by simp

lemma live_foldM: "(\<And>x a. live (f x a)) \<Longrightarrow> live (foldM f xs a)"
  by (induction xs arbitrary: a) (simp_all add: live_bindM)

lemmas live_rules = live_simps live_bindM live_seqM live_whenM live_foldM

lemma live_iterM:
  assumes "\<And>a. live (body a)" "\<And>a. keeps moves (body a)" "\<And>a. rounds (body a)"
    and "horizon (env c) - now (env c) < n" and "iterM n body a c = Stop Blocked c'"
  shows "horizon (env c') \<le> now (env c')"
  using assms(4,5)
proof (induction n arbitrary: a c)
  case 0
  then show ?case by simp
next
  case (Suc n)
  show ?case
  proof (cases "body a c")
    case (Stop k s)
    with Suc.prems(2) assms(1) [of a] show ?thesis by (auto simp: bindM_def live_def)
  next
    case (Ok r s)
    show ?thesis
    proof (cases r)
      case (Inl b)
      with Ok Suc.prems(2) show ?thesis by (simp add: bindM_def retM_def)
    next
      case (Inr a')
      have "moves c s" using assms(2) Ok by (rule keeps_Ok)
      moreover have "now (env c) < now (env s)"
        using assms(3) [of a] Ok Inr by (auto simp: rounds_def)
      ultimately have "horizon (env s) - now (env s) < n"
        using Suc.prems(1) by (auto simp: moves_def env_le_def max_def split: if_splits)
      moreover have "iterM n body a' s = Stop Blocked c'"
        using Suc.prems(2) Ok Inr by (simp add: bindM_def)
      ultimately show ?thesis by (rule Suc.IH)
    qed
  qed
qed

lemma live_loopM:
  assumes "\<And>a. live (body a)" "\<And>a. keeps moves (body a)" "\<And>a. rounds (body a)"
  shows "live (loopM body a)"
  unfolding live_def
proof (intro allI impI)
  fix c c'
  assume "loopM body a c = Stop Blocked c'"
  then have "iterM (Suc (horizon (env c) - now (env c))) body a c = Stop Blocked c'"
    by (simp add: loopM_def fuel_def)
  then show "horizon (env c') \<le> now (env c')"
    by (rule live_iterM [where body = body, OF assms, rotated]) simp
qed

lemma ticks_loopM:
  assumes "ticks (body a)" "\<And>a. keeps moves (body a)"
  shows "ticks (loopM body a)"
proof -
  have "loopM body a c = bindM (body a) (case_sum retM (iterM (horizon (env c) - now (env c)) body)) c" for c
    by (simp add: loopM_def fuel_def)
  moreover have "keeps moves (iterM n body a)" for n a
    by (induction n arbitrary: a) (auto intro!: mv.rules assms(2) split: sum.split)
  then have "ticks (bindM (body a) (case_sum retM (iterM n body)))" for n
    using assms(1) by (auto intro!: ticks_bind1 mv.rules split: sum.split)
  ultimately show ?thesis by (simp add: ticks_def)
qed

section \<open>The ways a computation stops\<close>

definition stops :: "stop set \<Rightarrow> ('s \<Rightarrow> ('a, 's) res) \<Rightarrow> bool" where
  "stops K m \<longleftrightarrow> (\<forall>c k c'. m c = Stop k c' \<longrightarrow> k \<in> K)"

lemma stops_basic [simp]:
  "stops K (retM a)" "stops K (getM f)" "stops K (modM g)" "stops K (stopM k) \<longleftrightarrow> k \<in> K"
  by (auto simp: stops_def mdefs)

lemma stops_bindM: "stops K m \<Longrightarrow> (\<And>a. stops K (f a)) \<Longrightarrow> stops K (bindM m f)"
  by (auto simp: stops_def bindM_def split: res.splits)

lemma stops_seqM: "stops K m \<Longrightarrow> stops K m' \<Longrightarrow> stops K (seqM m m')"
  by (simp add: seqM_def stops_bindM)

lemma stops_whenM: "stops K m \<Longrightarrow> stops K (whenM b m)"
  by (simp add: whenM_def)

lemma stops_sys: "Blocked \<in> K \<Longrightarrow> stops K (sys q)" "Blocked \<in> K \<Longrightarrow> stops K (ssl_sys q)"
  by (auto simp: stops_def sys_def ssl_sys_def mdefs Let_def split: res.splits if_splits)

lemma stops_iterM: "Blocked \<in> K \<Longrightarrow> (\<And>a. stops K (body a)) \<Longrightarrow> stops K (iterM n body a)"
proof (induction n arbitrary: a)
  case (Suc n)
  then show ?case by (auto intro!: stops_bindM split: sum.split)
qed simp

lemma stops_loopM: "Blocked \<in> K \<Longrightarrow> (\<And>a. stops K (body a)) \<Longrightarrow> stops K (loopM body a)"
  using stops_iterM [of K body] by (simp add: stops_def loopM_def)

lemma stops_mono: "stops K m \<Longrightarrow> K \<subseteq> L \<Longrightarrow> stops L m"
  by (auto simp: stops_def)

lemma wp_stops: "stops K m \<Longrightarrow> wp m Q E c \<Longrightarrow> wp m Q (\<lambda>k c'. k \<in> K \<and> E k c') c"
  by (auto simp: stops_def wp_def split: res.splits)

lemma stops_foldM: "(\<And>x a. stops K (f x a)) \<Longrightarrow> stops K (foldM f xs a)"
  by (induction xs arbitrary: a) (simp_all add: stops_bindM)

lemmas stops_rules = stops_bindM stops_seqM stops_whenM stops_sys stops_loopM stops_foldM

section \<open>What a trace says was transferred\<close>

text \<open>The byte streams of a connection: out of and into a descriptor, and out of and into the
  TLS layer. \<open>stream ch c\<close> are the bytes the requests of \<open>c\<close> moved on \<open>ch\<close> so far: those
  accepted by a write, those delivered by a read.\<close>

datatype chan = Out int | In int | Tls_out | Tls_in

fun channel :: "req \<Rightarrow> chan option" where
  "channel (Write f bs) = Some (Out f)"
| "channel (Read f n) = Some (In f)"
| "channel (Ssl_write bs) = Some Tls_out"
| "channel (Ssl_read n) = Some Tls_in"
| "channel q = None"

fun payload :: "req \<Rightarrow> ans \<Rightarrow> byte list" where
  "payload (Write f bs) a = take (nat (a_ret a)) bs"
| "payload (Ssl_write bs) a = take (nat (a_ret a)) bs"
| "payload q a = a_data a"

definition moved :: "chan \<Rightarrow> (req \<times> ans) list \<Rightarrow> byte list" where
  "moved ch t = concat (map (\<lambda>(q, a). if channel q = Some ch then payload q a else []) t)"

definition stream :: "chan \<Rightarrow> cli \<Rightarrow> byte list" where
  "stream ch c = moved ch (trace (env c))"

lemma moved_simps [simp]:
  "moved ch [] = []" "moved ch (t @ u) = moved ch t @ moved ch u"
  "moved ch (x # t) = (if channel (fst x) = Some ch then payload (fst x) (snd x) else []) @ moved ch t"
  by (simp_all add: moved_def split: prod.split)

text \<open>Requests that transfer nothing.\<close>

definition quiet :: "req \<Rightarrow> bool" where
  "quiet q \<longleftrightarrow> channel q = None"

lemma asks_quiet:
  assumes "asks quiet c c'"
  shows "stream ch c' = stream ch c"
proof -
  obtain t where t: "trace (env c') = trace (env c) @ t" "\<forall>x \<in> set t. quiet (fst x)"
    using assms by (auto simp: asks_def)
  have "moved ch t = []"
    using t(2) by (auto simp: moved_def quiet_def)
  with t(1) show ?thesis by (simp add: stream_def)
qed

text \<open>One request made in isolation.\<close>

lemma stream_env_step [simp]:
  "stream ch (env_step q c) =
    stream ch c @ (if channel q = Some ch then payload q (os (env c) (now (env c)) q) else [])"
  by (simp add: stream_def env_step_def)

lemma stream_cong: "env c' = env c \<Longrightarrow> stream ch c' = stream ch c"
  by (simp add: stream_def)

text \<open>Using a frame for one step of a weakest-precondition proof.\<close>

lemma wp_keeps:
  assumes "keeps R m" and "\<And>a c'. R c c' \<Longrightarrow> Q a c'" and "\<And>k c'. R c c' \<Longrightarrow> E k c'"
  shows "wp m Q E c"
proof -
  have "wp m (\<lambda>_. R c) (\<lambda>_. R c) c" using assms(1) by (simp add: keeps_def)
  then show ?thesis by (rule wp_mono) (auto intro: assms)
qed

lemma keeps_conj: "keeps R m \<Longrightarrow> keeps R' m \<Longrightarrow> keeps (\<lambda>c c'. R c c' \<and> R' c c') m"
  unfolding keeps_def by (intro allI wp_conj) auto

lemma wp_sys_step:
  "wp (sys q) Q E c = (if now (env c) < horizon (env c)
     then Q (os (env c) (now (env c)) q) (env_step q c) else E Blocked c)"
  by (simp add: wp_sys Let_def env_step_def)

lemma env_step_fields [simp]:
  "os (env (env_step q c)) = os (env c)" "horizon (env (env_step q c)) = horizon (env c)"
  "now (env (env_step q c)) = now (env c) + 1" "rest_of (env_step q c) = rest_of c"
  "fds (env_step q c) = fds c"
  by (simp_all add: env_step_def)

text \<open>A quiet I/O step: nothing transferred, nothing but the environment and the poll set touched.\<close>

definition hush :: "cli \<Rightarrow> cli \<Rightarrow> bool" where
  "hush c c' \<longleftrightarrow> io_le c c' \<and> (\<forall>ch. stream ch c' = stream ch c)"

interpretation hush: frame_rel hush quiet
proof unfold_locales
  fix q and c :: cli
  assume "quiet q" "now (env c) < horizon (env c)"
  then show "hush c (env_step q c)"
    using io.env_step [of c q] by (simp add: hush_def quiet_def)
qed (auto simp: hush_def io.ssl_step stream_def intro: io.refl io.trans)

lemma hush_os: "hush c c' \<Longrightarrow> os (env c') = os (env c)"
  by (simp add: hush_def io_le_def env_le_def)

lemma hush_stream: "hush c c' \<Longrightarrow> stream ch c' = stream ch c"
  by (simp add: hush_def)

lemma hush_io: "hush c c' \<Longrightarrow> io_le c c'"
  by (simp add: hush_def)

section \<open>Descriptors held\<close>

text \<open>\<open>held f c\<close>: how many times the requests of \<open>c\<close> created the descriptor \<open>f\<close> less how
  many times they closed it.\<close>

fun opens :: "req \<Rightarrow> ans \<Rightarrow> int list" where
  "opens (Socket d) a = (if a_ret a = -1 then [] else [a_ret a])"
| "opens (Accept s) a = (if a_ret a = -1 then [] else [a_ret a])"
| "opens (Open p) a = (if a_ret a = -1 then [] else [a_ret a])"
| "opens Socketpair a = (if a_ret a < 0 then [] else [a_fds a ! 0, a_fds a ! 1])"
| "opens Pipe a = (if a_ret a < 0 then [] else [a_fds a ! 0, a_fds a ! 1])"
| "opens Pty_allocate a = (if a_ret a < 0 then [] else [a_fds a ! 0, a_fds a ! 1])"
| "opens q a = []"

fun closes :: "req \<Rightarrow> int list" where
  "closes (Close f) = [f]"
| "closes q = []"

definition held_in :: "int \<Rightarrow> (req \<times> ans) list \<Rightarrow> int" where
  "held_in f t = (\<Sum>(q, a) \<leftarrow> t. int (count_list (opens q a) f) - int (count_list (closes q) f))"

definition held :: "int \<Rightarrow> cli \<Rightarrow> int" where
  "held f c = held_in f (trace (env c))"

lemma held_in_simps [simp]:
  "held_in f [] = 0" "held_in f (t @ u) = held_in f t + held_in f u"
  "held_in f (x # t) = int (count_list (opens (fst x) (snd x)) f)
     - int (count_list (closes (fst x)) f) + held_in f t"
  by (simp_all add: held_in_def split: prod.split)

lemma held_env_step [simp]:
  "held f (env_step q c) = held f c + int (count_list (opens q (os (env c) (now (env c)) q)) f)
     - int (count_list (closes q) f)"
  by (simp add: held_def env_step_def)

text \<open>Requests that neither create nor close a descriptor.\<close>

definition fd_neutral :: "req \<Rightarrow> bool" where
  "fd_neutral q \<longleftrightarrow> closes q = [] \<and> (\<forall>d. q \<noteq> Socket d) \<and> (\<forall>s. q \<noteq> Accept s) \<and> (\<forall>p. q \<noteq> Open p) \<and>
     q \<noteq> Socketpair \<and> q \<noteq> Pipe \<and> q \<noteq> Pty_allocate"

lemma fd_neutral_opens: "fd_neutral q \<Longrightarrow> opens q a = []"
  by (cases q) (auto simp: fd_neutral_def)

text \<open>The frame they respect: nothing is held or let go, and the connection keeps its descriptors.\<close>

definition fd_state :: "cli \<Rightarrow> int \<times> int \<times> int \<times> int \<times> int" where
  "fd_state c = (tmp_fd c, fd (remote_fd c), fd (local_rfd c), fd (local_wfd c), num_clients c)"

definition holds :: "cli \<Rightarrow> cli \<Rightarrow> bool" where
  "holds c c' \<longleftrightarrow> (\<forall>f. held f c' = held f c) \<and> fd_state c' = fd_state c"

interpretation holds: frame_rel holds fd_neutral
proof unfold_locales
  fix q and c :: cli
  assume "fd_neutral q"
  then show "holds c (env_step q c)"
    by (auto simp: holds_def fd_neutral_opens) (simp_all add: fd_neutral_def fd_state_def env_step_def)
qed (auto simp: holds_def held_def fd_state_def)

text \<open>How many requests in \<open>P\<close> were made.\<close>

definition count_req :: "(req \<Rightarrow> bool) \<Rightarrow> cli \<Rightarrow> nat" where
  "count_req P c = length (filter (P \<circ> fst) (trace (env c)))"

lemma count_req_env_step [simp]:
  "count_req P (env_step q c) = count_req P c + (if P q then 1 else 0)"
  by (simp add: count_req_def env_step_def)

text \<open>What a computation can return.\<close>

definition returns :: "('a \<Rightarrow> bool) \<Rightarrow> ('s \<Rightarrow> ('a, 's) res) \<Rightarrow> bool" where
  "returns P m \<longleftrightarrow> (\<forall>c a c'. m c = Ok a c' \<longrightarrow> P a)"

lemma returns_retM: "P a \<Longrightarrow> returns P (retM a)"
  by (simp add: returns_def retM_def)

lemma returns_stopM: "returns P (stopM k)"
  by (simp add: returns_def stopM_def)

lemma returns_getM: "(\<And>c. P (f c)) \<Longrightarrow> returns P (getM f)"
  by (auto simp: returns_def getM_def)

lemma returns_bindM: "(\<And>a. returns P (f a)) \<Longrightarrow> returns P (bindM m f)"
  by (auto simp: returns_def bindM_def split: res.splits)

lemma returns_bind2: "returns Q m \<Longrightarrow> (\<And>a. Q a \<Longrightarrow> returns P (f a)) \<Longrightarrow> returns P (bindM m f)"
  unfolding returns_def bindM_def by (metis res.case(1,2) res.distinct(1) res.exhaust)

lemma returns_seqM: "returns P m' \<Longrightarrow> returns P (seqM m m')"
  by (simp add: seqM_def returns_bindM)

lemma returns_foldM:
  "P a \<Longrightarrow> (\<And>x a. P a \<Longrightarrow> returns P (f x a)) \<Longrightarrow> returns P (foldM f xs a)"
  by (induction xs arbitrary: a) (auto intro!: returns_retM returns_bind2 [of P])

lemmas returns_rules = returns_retM returns_stopM returns_getM returns_bindM returns_seqM

lemma wp_returns: "returns P m \<Longrightarrow> wp m Q E c \<Longrightarrow> wp m (\<lambda>a c'. P a \<and> Q a c') E c"
  by (auto simp: returns_def wp_def split: res.splits)

end
