(* ===== verification/Netio.thy ===== *)
theory Netio
  imports Frame
begin

text \<open>
  Descriptor creation (fd.c) and the I/O of network.c: waiting on the poll set, the blocking
  reads, writes and connects simulated on non-blocking descriptors, and the line functions the
  protocol negotiations use.
\<close>

section \<open>Descriptors (fd.c)\<close>

text \<open>\<open>setup_fd\<close> with the Linux API (\<open>accept4\<close>, \<open>SOCK_CLOEXEC\<close>): the flags are set by the call that
  made the descriptor; only the limit is checked here.\<close>

definition setup_fd :: "int \<Rightarrow> int cm" where
  "setup_fd f =
    (if f = INVALID_SOCKET then retM INVALID_SOCKET
     else bindM (getM max_fds) (\<lambda>limit.
       if limit \<noteq> 0 \<and> f \<ge> limit then seqM (closesocket f) (retM INVALID_SOCKET)
       else retM f))"

definition s_socket :: "nat \<Rightarrow> int cm" where
  "s_socket domain = bindM (sys (Socket domain)) (\<lambda>a. setup_fd (a_ret a))"

definition s_accept :: "int \<Rightarrow> int cm" where
  "s_accept s = bindM (sys (Accept s)) (\<lambda>a. setup_fd (a_ret a))"

text \<open>A pair of descriptors, \<open>sv[0]\<close> and \<open>sv[1]\<close>; \<open>None\<close> is the return value -1.\<close>

definition setup_pair :: "ans \<Rightarrow> (int \<times> int) option cm" where
  "setup_pair a =
    (let f0 = a_fds a ! 0; f1 = a_fds a ! 1
     in if a_ret a < 0 then retM None
        else bindM (setup_fd f0) (\<lambda>r0.
          if r0 < 0 then seqM (closesocket f1) (retM None)
          else bindM (setup_fd f1) (\<lambda>r1.
            if r1 < 0 then seqM (closesocket f0) (retM None)
            else retM (Some (f0, f1)))))"

definition s_socketpair :: "(int \<times> int) option cm" where
  "s_socketpair = bindM (sys Socketpair) setup_pair"

definition s_pipe :: "(int \<times> int) option cm" where
  "s_pipe = bindM (sys Pipe) setup_pair"

text \<open>\<open>get_limits\<close>: the descriptor limit and the number of clients it allows, from
  \<open>sysconf(_SC_OPEN_MAX)\<close> (negative when there is no limit).\<close>

definition get_limits :: "int \<Rightarrow> int \<times> int" where
  "get_limits open_max =
    (let m0 = (if open_max < 0 then 0 else open_max);
         m = (if m0 \<noteq> 0 \<and> m0 < 16 then 16 else m0)
     in if m \<noteq> 0 then (m, if m \<ge> 256 then m * 125 div 256 else (m - 6) div 2) else (m, 0))"

section \<open>Waiting\<close>

text \<open>\<open>s_poll_wait\<close>: poll again while a signal interrupts it.\<close>

definition s_poll_wait :: "int \<Rightarrow> int \<Rightarrow> int cm" where
  "s_poll_wait sec msec = loopM (\<lambda>_.
     bindM (getM fds) (\<lambda>ps.
     bindM (sys (Poll (poll_used ps) (if sec < 0 then -1 else 1000 * sec + msec))) (\<lambda>a.
       if a_ret a < 0
       then retM (if a_errno a = EINTR then Inr () else Inl (a_ret a))
       else seqM (modM (\<lambda>c. c\<lparr>fds := store_revents ps (a_revents a)\<rparr>)) (retM (Inl (a_ret a)))))) ()"

definition poll_init :: "unit cm" where
  "poll_init = modM (\<lambda>c. c\<lparr>fds := s_poll_init (fds c)\<rparr>)"

definition poll_add :: "int \<Rightarrow> bool \<Rightarrow> bool \<Rightarrow> unit cm" where
  "poll_add f rd wr = modM (\<lambda>c. c\<lparr>fds := s_poll_add (fds c) f rd wr\<rparr>)"

text \<open>The wait the blocking reads and writes share: one descriptor, \<open>TIMEOUTbusy\<close>, and anything
  but one ready descriptor aborts the connection.\<close>

definition wait_one :: "int \<Rightarrow> bool \<Rightarrow> bool \<Rightarrow> unit cm" where
  "wait_one f rd wr =
    seqM poll_init (seqM (poll_add f rd wr)
      (bindM (getM (\<lambda>c. o_timeout_busy (opt c))) (\<lambda>t.
       bindM (s_poll_wait t 0) (\<lambda>r. if r = 1 then retM () else stopM (Longjmp 1)))))"

definition get_socket_error :: "int \<Rightarrow> int cm" where
  "get_socket_error f = bindM (sys (Sock_error f)) (\<lambda>a.
     let err = (if a_ret a \<noteq> 0 then a_errno a else a_val a)
     in retM (if err = ENOTSOCK then 0 else err))"

text \<open>\<open>set_socket_options\<close> for the socket kind \<open>kind\<close> (0 accept, 1 local, 2 remote): the options
  configured for it are set, in order; -1 when one fails for a reason other than not being
  supported.\<close>

definition set_socket_options :: "int \<Rightarrow> nat \<Rightarrow> int cm" where
  "set_socket_options s kind = bindM (getM sock_opts) (\<lambda>os.
     foldM (\<lambda>(name, vals) ret.
         if \<not> vals ! kind then retM ret
         else bindM (sys (Setsockopt s name)) (\<lambda>a.
           retM (if a_ret a \<noteq> 0 \<and> a_errno a \<noteq> EOPNOTSUPP then -1 else ret))) os 0)"

section \<open>Simulated blocking I/O\<close>

definition s_connect :: "sockaddr \<Rightarrow> int cm" where
  "s_connect addr =
    bindM (getM tmp_fd) (\<lambda>f.
    bindM (sys (Connect f addr)) (\<lambda>a.
      if a_ret a = 0 then retM 0
      else if a_errno a \<noteq> EINPROGRESS \<and> a_errno a \<noteq> EWOULDBLOCK then retM (-1)
      else seqM poll_init (seqM (poll_add f True True)
        (bindM (getM (\<lambda>c. o_timeout_connect (opt c))) (\<lambda>t.
         bindM (s_poll_wait t 0) (\<lambda>r.
           if r = -1 \<or> r = 0 then retM (-1)
           else bindM (get_socket_error f) (\<lambda>e.
             if e \<noteq> 0 then retM (-1)
             else bindM (getM (\<lambda>c. s_poll_canwrite (fds c) f)) (\<lambda>w.
               retM (if w then 0 else -1)))))))))"

definition s_write :: "int \<Rightarrow> byte list \<Rightarrow> unit cm" where
  "s_write f buf = loopM (\<lambda>rest.
     if rest = [] then retM (Inl ())
     else seqM (wait_one f False True)
       (bindM (sys (Write f rest)) (\<lambda>a.
          if a_ret a = -1 then stopM (Longjmp 1)
          else retM (Inr (drop (nat (a_ret a)) rest))))) buf"

text \<open>\<open>s_read\<close>: the bytes stored at \<open>ptr\<close>, of which there are \<open>len\<close> when it returns.\<close>

definition s_read :: "int \<Rightarrow> nat \<Rightarrow> byte list cm" where
  "s_read f len = loopM (\<lambda>got.
     if length got \<ge> len then retM (Inl got)
     else seqM (wait_one f True False)
       (bindM (sys (Read f (len - length got))) (\<lambda>a.
          if a_ret a = -1 \<or> a_ret a = 0 then stopM (Longjmp 1)
          else retM (Inr (got @ a_data a))))) []"

definition s_ssl_write :: "byte list \<Rightarrow> unit cm" where
  "s_ssl_write buf = loopM (\<lambda>rest.
     if rest = [] then retM (Inl ())
     else bindM (getM (\<lambda>c. fd (get_fd c (ssl_wfd c)))) (\<lambda>f.
       seqM (wait_one f False True)
       (bindM (ssl_sys (Ssl_write rest)) (\<lambda>a.
          if a_ret a = -1 then stopM (Longjmp 1)
          else retM (Inr (drop (nat (a_ret a)) rest)))))) buf"

definition s_ssl_read :: "nat \<Rightarrow> byte list cm" where
  "s_ssl_read len = loopM (\<lambda>got.
     if length got \<ge> len then retM (Inl got)
     else bindM (getM (\<lambda>c. fd (get_fd c (ssl_rfd c)))) (\<lambda>f.
       bindM (sys Ssl_pending) (\<lambda>p.
       seqM (whenM (a_ret p = 0) (wait_one f True False))
       (bindM (ssl_sys (Ssl_read (len - length got))) (\<lambda>a.
          if a_ret a = -1 \<or> a_ret a = 0 then stopM (Longjmp 1)
          else retM (Inr (got @ a_data a))))))) []"

section \<open>Lines\<close>

definition cstr :: "byte list \<Rightarrow> string" where
  "cstr bs = to_text (takeWhile (\<lambda>b. b \<noteq> 0) bs)"

text \<open>The loop the three line readers share: \<open>line\<close> is the allocated array, doubled when the
  next byte would not fit, \<open>ptr\<close> the length so far, \<open>rd\<close> reads one byte.
  \<open>skip_cr\<close> and \<open>stop_nl\<close> tell the line readers from \<open>ssl_getstring\<close>.\<close>

definition getline_put :: "bool \<Rightarrow> nat \<Rightarrow> byte list \<Rightarrow> byte \<Rightarrow> (nat \<times> byte list) + (nat \<times> byte list)" where
  "getline_put lines ptr line b =
    (let line2 = line[ptr := b]
     in if lines \<and> b = 13 then Inr (ptr, line2)
        else if (lines \<and> b = 10) \<or> b = 0 then Inl (ptr, line2)
        else Inr (ptr + 1, line2))"

definition getline_loop :: "byte list cm \<Rightarrow> bool \<Rightarrow> (nat \<times> byte list) cm" where
  "getline_loop rd lines = loopM (\<lambda>(ptr, line).
     if ptr > 65536 then stopM (Longjmp 1)
     else let line1 = (if length line < ptr + 1 then realloc_list 0 line (2 * length line) else line)
       in bindM rd (\<lambda>bs.
         if ptr \<ge> length line1 then stopM Overflow
         else retM (getline_put lines ptr line1 (hd bs)))) (0, replicate 32 0)"

definition fd_getline :: "int \<Rightarrow> string cm" where
  "fd_getline f = bindM (getline_loop (s_read f 1) True) (\<lambda>(ptr, line). retM (cstr (line[ptr := 0])))"

definition ssl_getline :: "string cm" where
  "ssl_getline = bindM (getline_loop (s_ssl_read 1) True) (\<lambda>(ptr, line). retM (cstr (line[ptr := 0])))"

definition ssl_getstring :: "string cm" where
  "ssl_getstring = bindM (getline_loop (s_ssl_read 1) False) (\<lambda>(ptr, line). retM (cstr line))"

text \<open>\<open>fd_printf\<close> formats a line and sends it like \<open>fd_putline\<close>; the formatting is written at
  the calls.\<close>

definition CRLF :: string where "CRLF = [CHR 13, CHR 10]"

definition fd_putline :: "int \<Rightarrow> string \<Rightarrow> unit cm" where
  "fd_putline f line = s_write f (raw (line @ CRLF))"

definition ssl_putline :: "string \<Rightarrow> unit cm" where
  "ssl_putline line =
    (let tmpline = line @ CRLF
     in if length tmpline > 2147483647 then stopM (Longjmp 1) else s_ssl_write (raw tmpline))"

section \<open>Network helpers\<close>

text \<open>\<open>make_sockets\<close>: a pair of connected TCP sockets on the loopback; \<open>None\<close> is the return
  value 1. The failures of the two \<open>bind\<close>s are only logged.\<close>

definition make_sockets :: "(int \<times> int) option cm" where
  "make_sockets =
    bindM (s_socket 2) (\<lambda>s.
    if s = INVALID_SOCKET then retM None
    else bindM (s_socket 2) (\<lambda>fd1.
    if fd1 = INVALID_SOCKET then seqM (closesocket s) (retM None)
    else let loopback = AF_INET [127, 0, 0, 1] [0, 0];
             fail = seqM (closesocket s) (seqM (closesocket fd1) (retM None))
      in bindM (sys (Bind s loopback)) (\<lambda>_.
         bindM (sys (Bind fd1 loopback)) (\<lambda>_.
         bindM (sys (Listen s)) (\<lambda>l.
         if a_ret l \<noteq> 0 then fail
         else bindM (sys (Getsockname s)) (\<lambda>g.
         if a_ret g \<noteq> 0 then fail
         else bindM (sys (Connect fd1 (a_addr g))) (\<lambda>k.
         if a_ret k \<noteq> 0 then fail
         else bindM (s_accept s) (\<lambda>fd0.
         if fd0 = INVALID_SOCKET then fail
         else seqM (closesocket s)
           (bindM (sys (Set_nonblock fd0 True)) (\<lambda>_.
            bindM (sys (Set_nonblock fd1 True)) (\<lambda>_.
            retM (Some (fd0, fd1)))))))))))))"

text \<open>\<open>original_dst\<close> with \<open>SO_ORIGINAL_DST\<close>: the IPv6 table first, then IPv4.\<close>

definition original_dst :: "int \<Rightarrow> sockaddr option cm" where
  "original_dst f =
    bindM (sys (Getsockopt_dst f True)) (\<lambda>a.
    if a_ret a = 0 then retM (Some (a_addr a))
    else bindM (sys (Getsockopt_dst f False)) (\<lambda>b.
    retM (if a_ret b = 0 then Some (a_addr b) else None)))"

section \<open>What the I/O functions leave alone\<close>

lemma closesocket_frames [frame_intros]:
  "keeps io_le (closesocket f)" "keeps hush (closesocket f)"
  unfolding closesocket_def by (auto intro!: io.rules hush.rules simp: quiet_def)

lemma io_le_fds: "io_le c (c\<lparr>fds := p\<rparr>)"
  by (simp add: io_le_def env_le_def)

lemma hush_fds: "hush c (c\<lparr>fds := p\<rparr>)"
  by (simp add: hush_def io_le_fds stream_def)

lemma poll_add_frames [frame_intros]:
  "keeps io_le poll_init" "keeps io_le (poll_add f r w)"
  "keeps hush poll_init" "keeps hush (poll_add f r w)"
  unfolding poll_init_def poll_add_def
  by (auto intro!: io.modM hush.modM simp: io_le_fds hush_fds)

lemma s_poll_wait_io [frame_intros]: "keeps io_le (s_poll_wait s t)"
  unfolding s_poll_wait_def by (auto intro!: io.rules io.modM frame_intros simp: io_le_fds)

lemma s_poll_wait_hush [frame_intros]: "keeps hush (s_poll_wait s t)"
  unfolding s_poll_wait_def
  by (auto intro!: hush.rules hush.modM frame_intros simp: hush_fds quiet_def)

lemma wait_one_io [frame_intros]: "keeps io_le (wait_one f r w)"
  unfolding wait_one_def by (auto intro!: io.rules frame_intros)

lemma wait_one_hush [frame_intros]: "keeps hush (wait_one f r w)"
  unfolding wait_one_def by (auto intro!: hush.rules frame_intros)

lemma s_write_io [frame_intros]: "keeps io_le (s_write f bs)"
  unfolding s_write_def by (auto intro!: io.rules frame_intros)

lemma s_read_io [frame_intros]: "keeps io_le (s_read f n)"
  unfolding s_read_def by (auto intro!: io.rules frame_intros)

lemma s_ssl_write_io [frame_intros]: "keeps io_le (s_ssl_write bs)"
  unfolding s_ssl_write_def by (auto intro!: io.rules frame_intros)

lemma s_ssl_read_io [frame_intros]: "keeps io_le (s_ssl_read n)"
  unfolding s_ssl_read_def by (auto intro!: io.rules frame_intros)

lemma get_socket_error_io [frame_intros]: "keeps io_le (get_socket_error f)"
  unfolding get_socket_error_def by (auto intro!: io.rules frame_intros simp: Let_def)

lemma set_socket_options_io [frame_intros]: "keeps io_le (set_socket_options f k)"
  unfolding set_socket_options_def by (auto intro!: io.rules frame_intros split: list.split)

lemma s_connect_io [frame_intros]: "keeps io_le (s_connect a)"
  unfolding s_connect_def by (auto intro!: io.rules frame_intros)

lemma getline_loop_io [frame_intros]: "keeps io_le rd \<Longrightarrow> keeps io_le (getline_loop rd b)"
  unfolding getline_loop_def by (auto intro!: io.rules frame_intros simp: Let_def)

lemma lines_io [frame_intros]:
  "keeps io_le (fd_getline f)" "keeps io_le ssl_getline" "keeps io_le ssl_getstring"
  "keeps io_le (fd_putline f l)" "keeps io_le (ssl_putline l)"
  unfolding fd_getline_def ssl_getline_def ssl_getstring_def fd_putline_def ssl_putline_def
  by (auto intro!: io.rules frame_intros simp: Let_def)

lemma fd_io [frame_intros]:
  "keeps io_le (setup_fd f)" "keeps io_le (s_socket d)" "keeps io_le (s_accept f)"
  "keeps io_le (setup_pair a)" "keeps io_le s_socketpair" "keeps io_le s_pipe"
  "keeps io_le make_sockets" "keeps io_le (original_dst f)"
  unfolding setup_fd_def s_socket_def s_accept_def setup_pair_def s_socketpair_def s_pipe_def
    make_sockets_def original_dst_def
  by (auto intro!: io.rules frame_intros simp: Let_def)

section \<open>Liveness\<close>


lemma live_small [frame_intros]:
  "live (closesocket f)" "live poll_init" "live (poll_add f r w)"
  unfolding closesocket_def poll_init_def poll_add_def by (auto intro!: live_rules)

lemma live_s_poll_wait [frame_intros]: "live (s_poll_wait s t)"
  unfolding s_poll_wait_def
  by (rule live_loopM)
    (auto intro!: live_rules mv.rules io_moves [OF io.modM] frame_intros simp: io_le_fds)

lemma live_wait_one [frame_intros]: "live (wait_one f r w)"
  unfolding wait_one_def by (auto intro!: live_rules frame_intros)

lemmas wait_one_moves = io_moves [OF wait_one_io]

lemma live_s_write [frame_intros]: "live (s_write f bs)"
  unfolding s_write_def
  by (rule live_loopM) (auto intro!: live_rules mv.rules wait_one_moves frame_intros)

lemma live_s_read [frame_intros]: "live (s_read f n)"
  unfolding s_read_def
  by (rule live_loopM) (auto intro!: live_rules mv.rules wait_one_moves frame_intros)

lemma live_s_ssl_write [frame_intros]: "live (s_ssl_write bs)"
  unfolding s_ssl_write_def
  by (rule live_loopM) (auto intro!: live_rules mv.rules wait_one_moves frame_intros)

lemma live_s_ssl_read [frame_intros]: "live (s_ssl_read n)"
  unfolding s_ssl_read_def
  by (rule live_loopM) (auto intro!: live_rules mv.rules wait_one_moves frame_intros)

lemma live_calls [frame_intros]:
  "live (get_socket_error f)" "live (set_socket_options f k)" "live (s_connect a)" "live (setup_fd f)" "live (s_socket d)"
  "live (s_accept f)" "live (setup_pair p)" "live s_socketpair" "live s_pipe" "live make_sockets"
  "live (original_dst f)"
  unfolding get_socket_error_def set_socket_options_def s_connect_def setup_fd_def s_socket_def s_accept_def
    setup_pair_def s_socketpair_def s_pipe_def make_sockets_def original_dst_def
  by (auto intro!: live_rules frame_intros simp: Let_def)


section \<open>What reads and writes transfer\<close>

text \<open>From \<open>c\<close> to \<open>c'\<close> exactly the bytes \<open>bs\<close> were moved, on the channel \<open>ch\<close>.\<close>

definition extends :: "cli \<Rightarrow> cli \<Rightarrow> chan \<Rightarrow> byte list \<Rightarrow> bool" where
  "extends c c' ch bs \<longleftrightarrow> os (env c') = os (env c) \<and>
     (\<forall>h. stream h c' = stream h c @ (if h = ch then bs else []))"

lemma extends_refl [simp]: "extends c c ch []"
  by (simp add: extends_def)

lemma extends_hush: "extends c c' ch bs \<Longrightarrow> hush c' c'' \<Longrightarrow> extends c c'' ch bs"
  by (simp add: extends_def hush_stream hush_os)

lemma extends_trans: "extends a b ch bs \<Longrightarrow> extends b c ch cs \<Longrightarrow> extends a c ch (bs @ cs)"
  by (simp add: extends_def)

lemma wp_hush:
  assumes "extends c c1 ch bs" "keeps hush m"
    and "\<And>a c2. extends c c2 ch bs \<Longrightarrow> Q a c2" "\<And>k c2. extends c c2 ch bs \<Longrightarrow> E k c2"
  shows "wp m Q E c1"
  using assms(2) by (rule wp_keeps) (auto intro: assms(3,4) extends_hush [OF assms(1)])

lemma wp_transfer:
  assumes "extends c c1 ch bs" "os_ok (os (env c))" "channel q = Some ch"
    and "\<And>a c2. extends c c2 ch (bs @ payload q a) \<Longrightarrow> ans_ok q a \<Longrightarrow> Q a c2"
    and "\<And>c2. extends c c2 ch bs \<Longrightarrow> E Blocked c2"
  shows "wp (sys q) Q E c1" "wp (ssl_sys q) Q E c1"
proof -
  let ?a = "os (env c1) (now (env c1)) q"
  have "ans_ok q ?a" using assms(1,2) by (auto simp: extends_def os_okD)
  moreover have e: "extends c (env_step q c1) ch (bs @ payload q ?a)"
    using assms(1,3) by (simp add: extends_def)
  moreover have "extends c ((env_step q c1)\<lparr>ssl_sent := s, ssl_rcvd := r, reneg_state := g\<rparr>) ch
      (bs @ payload q ?a)" for s r g
    using e by (simp add: extends_def stream_def)
  ultimately show "wp (sys q) Q E c1" "wp (ssl_sys q) Q E c1"
    using assms(1,4,5) by (auto simp: ssl_sys_def wp_simps wp_sys_step simp del: wp_sys)
qed

text \<open>\<open>sends c ch buf m\<close>: the computation sends the whole of \<open>buf\<close>, or stops with a prefix sent.\<close>

definition sends :: "chan \<Rightarrow> byte list \<Rightarrow> unit cm \<Rightarrow> cli \<Rightarrow> bool" where
  "sends ch buf m c \<longleftrightarrow> wp m (\<lambda>_ c'. extends c c' ch buf)
     (\<lambda>_ c'. \<exists>n. extends c c' ch (take n buf)) c"

lemma sends_loop:
  assumes body: "\<And>rest n c1. rest = drop n buf \<Longrightarrow> extends c c1 ch (take n buf) \<Longrightarrow>
      wp (body rest) (\<lambda>r c2. \<exists>m. r = Inr (drop m rest) \<and> extends c c2 ch (take n buf @ take m rest))
         (\<lambda>_ c2. extends c c2 ch (take n buf)) c1"
  shows "sends ch buf (loopM (\<lambda>rest. if rest = [] then retM (Inl ()) else body rest) buf) c"
  unfolding sends_def
proof (rule wp_loopM [where I = "\<lambda>rest c1. \<exists>n. rest = drop n buf \<and> extends c c1 ch (take n buf)"],
    goal_cases)
  case 1
  then show ?case by (auto intro!: exI [of _ 0])
next
  case (2 rest c1)
  then obtain n where n: "rest = drop n buf" "extends c c1 ch (take n buf)" by auto
  show ?case
  proof (cases "rest = []")
    case True
    with n show ?thesis by (simp add: wp_simps)
  next
    case False
    from body [OF n] show ?thesis
      unfolding if_not_P [OF False]
    proof (rule wp_mono)
      fix r c2
      assume "\<exists>m. r = Inr (drop m rest) \<and> extends c c2 ch (take n buf @ take m rest)"
      then obtain m where "r = Inr (drop m rest)" "extends c c2 ch (take n buf @ take m rest)"
        by blast
      then have "r = Inr (drop (n + m) buf)" "extends c c2 ch (take (n + m) buf)"
        using take_add [of n m buf] by (simp_all add: n(1) add.commute)
      then show "case r of Inl b \<Rightarrow> extends c c2 ch buf
          | Inr a' \<Rightarrow> \<exists>n. a' = drop n buf \<and> extends c c2 ch (take n buf)"
        by auto
    qed (use n in auto)
  qed
qed auto

lemma s_write_sends:
  assumes "os_ok (os (env c))"
  shows "sends (Out f) buf (s_write f buf) c"
  unfolding s_write_def
proof (rule sends_loop)
  fix rest n c1
  assume "rest = drop n buf" and e: "extends c c1 (Out f) (take n buf)"
  show "wp (seqM (wait_one f False True)
       (bindM (sys (Write f rest)) (\<lambda>a.
          if a_ret a = -1 then stopM (Longjmp 1)
          else retM (Inr (drop (nat (a_ret a)) rest)))))
     (\<lambda>r c2. \<exists>m. r = Inr (drop m rest) \<and> extends c c2 (Out f) (take n buf @ take m rest))
     (\<lambda>_ c2. extends c c2 (Out f) (take n buf)) c1"
    unfolding wp_seqM wp_bindM wp_if wp_stopM wp_retM
    by (rule wp_hush [OF e wait_one_hush], erule wp_transfer [OF _ assms]) auto
qed

lemma s_ssl_write_sends:
  assumes "os_ok (os (env c))"
  shows "sends Tls_out buf (s_ssl_write buf) c"
  unfolding s_ssl_write_def
proof (rule sends_loop)
  fix rest n c1
  assume "rest = drop n buf" and e: "extends c c1 Tls_out (take n buf)"
  show "wp (bindM (getM (\<lambda>c. fd (get_fd c (ssl_wfd c)))) (\<lambda>f.
       seqM (wait_one f False True)
       (bindM (ssl_sys (Ssl_write rest)) (\<lambda>a.
          if a_ret a = -1 then stopM (Longjmp 1)
          else retM (Inr (drop (nat (a_ret a)) rest))))))
     (\<lambda>r c2. \<exists>m. r = Inr (drop m rest) \<and> extends c c2 Tls_out (take n buf @ take m rest))
     (\<lambda>_ c2. extends c c2 Tls_out (take n buf)) c1"
    unfolding wp_seqM wp_bindM wp_getM wp_if wp_stopM wp_retM
    by (rule wp_hush [OF e wait_one_hush], erule wp_transfer [OF _ assms]) auto
qed

text \<open>\<open>receives ch n m\<close>: the computation returns exactly the \<open>n\<close> bytes it took from \<open>ch\<close>.\<close>

definition receives :: "chan \<Rightarrow> nat \<Rightarrow> byte list cm \<Rightarrow> cli \<Rightarrow> bool" where
  "receives ch n m c \<longleftrightarrow> wp m (\<lambda>bs c'. length bs = n \<and> extends c c' ch bs)
     (\<lambda>_ c'. \<exists>bs. length bs \<le> n \<and> extends c c' ch bs) c"

lemma receives_loop:
  assumes body: "\<And>got c1. length got < len \<Longrightarrow> extends c c1 ch got \<Longrightarrow>
      wp (body got) (\<lambda>r c2. \<exists>bs. r = Inr (got @ bs) \<and> length bs \<le> len - length got \<and>
            extends c c2 ch (got @ bs))
         (\<lambda>_ c2. \<exists>bs. length bs \<le> len \<and> extends c c2 ch bs) c1"
  shows "receives ch len (loopM (\<lambda>got. if len \<le> length got then retM (Inl got) else body got) []) c"
  unfolding receives_def
proof (rule wp_loopM [where I = "\<lambda>got c1. length got \<le> len \<and> extends c c1 ch got"], goal_cases)
  case (2 got c1)
  show ?case
  proof (cases "len \<le> length got")
    case True
    with 2 show ?thesis by (simp add: wp_simps)
  next
    case False
    with 2 body [of got c1] show ?thesis
      unfolding if_not_P [OF False] by (auto elim!: wp_mono)
  qed
qed auto

lemma s_read_receives:
  assumes "os_ok (os (env c))"
  shows "receives (In f) len (s_read f len) c"
  unfolding s_read_def
proof (rule receives_loop)
  fix got c1
  assume l: "length got < len" and e: "extends c c1 (In f) got"
  show "wp (seqM (wait_one f True False)
       (bindM (sys (Read f (len - length got))) (\<lambda>a.
          if a_ret a = -1 \<or> a_ret a = 0 then stopM (Longjmp 1)
          else retM (Inr (got @ a_data a)))))
     (\<lambda>r c2. \<exists>bs. r = Inr (got @ bs) \<and> length bs \<le> len - length got \<and> extends c c2 (In f) (got @ bs))
     (\<lambda>_ c2. \<exists>bs. length bs \<le> len \<and> extends c c2 (In f) bs) c1"
    unfolding wp_seqM wp_bindM wp_if wp_stopM wp_retM
    by (rule wp_hush [OF e wait_one_hush], erule wp_transfer [OF _ assms])
      (use l in \<open>fastforce intro: less_imp_le\<close>)+
qed


lemma s_ssl_read_receives:
  assumes "os_ok (os (env c))"
  shows "receives Tls_in len (s_ssl_read len) c"
  unfolding s_ssl_read_def
proof (rule receives_loop)
  fix got c1
  assume l: "length got < len" and e: "extends c c1 Tls_in got"
  have wait: "keeps hush (whenM b (wait_one f True False))" for b f
    by (intro hush.whenM wait_one_hush)
  have pend: "keeps hush (sys Ssl_pending)"
    by (intro hush.sys) (simp add: quiet_def)
  show "wp (bindM (getM (\<lambda>c. fd (get_fd c (ssl_rfd c)))) (\<lambda>f.
       bindM (sys Ssl_pending) (\<lambda>p.
       seqM (whenM (a_ret p = 0) (wait_one f True False))
       (bindM (ssl_sys (Ssl_read (len - length got))) (\<lambda>a.
          if a_ret a = -1 \<or> a_ret a = 0 then stopM (Longjmp 1)
          else retM (Inr (got @ a_data a)))))))
     (\<lambda>r c2. \<exists>bs. r = Inr (got @ bs) \<and> length bs \<le> len - length got \<and> extends c c2 Tls_in (got @ bs))
     (\<lambda>_ c2. \<exists>bs. length bs \<le> len \<and> extends c c2 Tls_in bs) c1"
    unfolding wp_seqM wp_bindM wp_getM wp_if wp_stopM wp_retM
    by (rule wp_hush [OF e pend], erule wp_hush [OF _ wait], erule wp_transfer [OF _ assms])
      (use l in \<open>fastforce intro: less_imp_le\<close>)+
qed


section \<open>Lines\<close>

text \<open>The two ways a blocking read or write stops: it aborts the connection, or the observation
  ends.\<close>

definition aborts :: "stop set" where "aborts = {Longjmp 1, Blocked}"

lemma in_aborts [simp]: "Longjmp 1 \<in> aborts" "Longjmp (Suc 0) \<in> aborts" "Blocked \<in> aborts"
  "Overflow \<notin> aborts" "Null_deref \<notin> aborts" "Fatal \<notin> aborts"
  by (auto simp: aborts_def)

lemma io_aborts [frame_intros]:
  "stops aborts (s_poll_wait s t)" "stops aborts (wait_one f r w)" "stops aborts (s_write f bs)"
  "stops aborts (s_read f n)" "stops aborts (s_ssl_write bs)" "stops aborts (s_ssl_read n)"
  unfolding s_poll_wait_def wait_one_def s_write_def s_read_def s_ssl_write_def s_ssl_read_def
    poll_init_def poll_add_def
  by (auto intro!: stops_rules)

definition ender :: "bool \<Rightarrow> byte \<Rightarrow> bool" where
  "ender lines b \<longleftrightarrow> b = 0 \<or> lines \<and> b = 10"

definition kept :: "bool \<Rightarrow> byte list \<Rightarrow> byte list" where
  "kept lines bs = (if lines then filter (\<lambda>b. b \<noteq> 13) bs else bs)"

text \<open>The loop's invariant after the bytes \<open>bs\<close>, and what holds when it returns.\<close>

definition getting :: "cli \<Rightarrow> chan \<Rightarrow> bool \<Rightarrow> byte list \<Rightarrow> nat \<times> byte list \<Rightarrow> cli \<Rightarrow> bool" where
  "getting c ch lines bs = (\<lambda>(ptr, line) c1. extends c c1 ch bs \<and> (\<forall>x \<in> set bs. \<not> ender lines x) \<and>
     ptr \<le> 65537 \<and> ptr \<le> length line \<and> 32 \<le> length line \<and> take ptr line = kept lines bs)"

definition got_line :: "cli \<Rightarrow> chan \<Rightarrow> bool \<Rightarrow> nat \<times> byte list \<Rightarrow> cli \<Rightarrow> bool" where
  "got_line c ch lines = (\<lambda>(ptr, line) c'. \<exists>bs b. extends c c' ch (bs @ [b]) \<and> ender lines b \<and>
     (\<forall>x \<in> set bs. \<not> ender lines x) \<and> ptr \<le> 65536 \<and> ptr < length line \<and>
     take ptr line = kept lines bs \<and> line ! ptr = b)"

lemma getline_put_step:
  assumes "getting c ch lines bs (ptr, line) c1" "extends c1 c2 ch [b]" "ptr \<le> 65536"
    "ptr < length line"
  shows "case getline_put lines ptr line b of Inl x \<Rightarrow> got_line c ch lines x c2
    | Inr x \<Rightarrow> getting c ch lines (bs @ [b]) x c2"
proof -
  have e: "extends c c2 ch (bs @ [b])"
    using assms(1,2) extends_trans by (fastforce simp: getting_def)
  have t: "take (ptr + 1) (line[ptr := b]) = take ptr line @ [b]"
    using assms(4) by (simp add: take_Suc_conv_app_nth)
  consider "lines" "b = 13" | "ender lines b" "\<not> (lines \<and> b = 13)"
    | "\<not> ender lines b" "\<not> (lines \<and> b = 13)"
    by blast
  then show ?thesis
  proof cases
    case 1
    then show ?thesis using assms e
      by (auto simp: getline_put_def getting_def kept_def ender_def Let_def)
  next
    case 2
    then show ?thesis using assms e
      by (auto simp: getline_put_def getting_def got_line_def ender_def Let_def)
  next
    case 3
    then show ?thesis using assms e t
      by (auto simp: getline_put_def getting_def kept_def ender_def Let_def)
  qed
qed

lemma getting_realloc:
  assumes "getting c ch lines bs (ptr, line) c1"
  defines "line1 \<equiv> if length line < ptr + 1 then realloc_list 0 line (2 * length line) else line"
  shows "getting c ch lines bs (ptr, line1) c1" "ptr < length line1"
  using assms by (auto simp: getting_def take_realloc_list)

lemma getline_loop_reads:
  assumes rd: "\<And>c1. os (env c1) = os (env c) \<Longrightarrow> receives ch 1 rd c1" and ab: "stops aborts rd"
  shows "wp (getline_loop rd lines) (got_line c ch lines) (\<lambda>k c'. k \<in> aborts) c"
  unfolding getline_loop_def
proof (rule wp_loopM [where I = "\<lambda>a c1. \<exists>bs. getting c ch lines bs a c1"], goal_cases)
  case 1
  then show ?case by (auto simp: getting_def kept_def intro!: exI [of _ "[]"])
next
  case (2 a c1)
  obtain ptr line where a: "a = (ptr, line)" by (cases a)
  with 2 obtain bs where g: "getting c ch lines bs (ptr, line) c1" by auto
  let ?line = "if length line < ptr + 1 then realloc_list 0 line (2 * length line) else line"
  note g1 = getting_realloc [OF g]
  have "os (env c1) = os (env c)" using g by (simp add: getting_def extends_def)
  then have "wp rd (\<lambda>x c2. length x = 1 \<and> extends c1 c2 ch x)
      (\<lambda>_ c2. \<exists>x. length x \<le> 1 \<and> extends c1 c2 ch x) c1"
    using rd by (simp add: receives_def)
  from wp_stops [OF ab this]
  have w: "wp rd (\<lambda>x c2. \<exists>b. x = [b] \<and> extends c1 c2 ch [b]) (\<lambda>k c2. k \<in> aborts) c1"
    by (rule wp_mono) (auto simp: length_Suc_conv)
  show ?case
  proof (cases "ptr > 65536")
    case True
    then show ?thesis by (simp add: a wp_simps)
  next
    case False
    with w g1 getline_put_step [OF g1(1) _ _ g1(2)] show ?thesis
      unfolding a prod.case Let_def
      by (fastforce simp: wp_simps elim!: wp_mono split: sum.splits)
  qed
qed auto

text \<open>What the line readers return: all of one line, without its carriage returns, and
  nothing after it is consumed.\<close>

definition reads_line :: "cli \<Rightarrow> chan \<Rightarrow> string \<Rightarrow> cli \<Rightarrow> bool" where
  "reads_line c ch s c' \<longleftrightarrow> (\<exists>bs b. extends c c' ch (bs @ [b]) \<and> b \<in> {0, 10} \<and> 0 \<notin> set bs \<and>
     10 \<notin> set bs \<and> s = to_text (filter (\<lambda>b. b \<noteq> 13) bs) \<and> length s \<le> 65536)"

lemma cstr_got_line:
  assumes "got_line c ch True (ptr, line) c'"
  shows "reads_line c ch (cstr (line[ptr := 0])) c'"
proof -
  obtain bs b where g: "extends c c' ch (bs @ [b])" "ender True b" "\<forall>x \<in> set bs. \<not> ender True x"
    "ptr \<le> 65536" "ptr < length line" "take ptr line = kept True bs" "line ! ptr = b"
    using assms by (auto simp: got_line_def)
  have "line[ptr := 0] = kept True bs @ 0 # drop (Suc ptr) line"
    using g(5,6) by (simp add: upd_conv_take_nth_drop)
  moreover have "\<forall>x \<in> set (kept True bs). x \<noteq> 0"
    using g(3) by (auto simp: kept_def ender_def)
  ultimately have "takeWhile (\<lambda>b. b \<noteq> 0) (line[ptr := 0]) = kept True bs"
    by (simp add: takeWhile_tail)
  moreover have "length (kept True bs) \<le> 65536"
    using g(4,5) by (simp flip: g(6))
  ultimately show ?thesis
    using g unfolding reads_line_def
    by (intro exI [of _ bs] exI [of _ b]) (auto simp: cstr_def kept_def ender_def)
qed


lemma os_ok_cong: "os_ok (os (env c)) \<Longrightarrow> os (env c1) = os (env c) \<Longrightarrow> os_ok (os (env c1))"
  by simp

lemma fd_getline_reads:
  assumes "os_ok (os (env c))"
  shows "wp (fd_getline f) (reads_line c (In f)) (\<lambda>k _. k \<in> aborts) c"
  unfolding fd_getline_def wp_bindM
  by (rule wp_mono [OF getline_loop_reads [where ch = "In f"]])
    (auto simp: wp_simps assms intro!: s_read_receives frame_intros cstr_got_line)

lemma ssl_getline_reads:
  assumes "os_ok (os (env c))"
  shows "wp ssl_getline (reads_line c Tls_in) (\<lambda>k _. k \<in> aborts) c"
  unfolding ssl_getline_def wp_bindM
  by (rule wp_mono [OF getline_loop_reads [where ch = Tls_in]])
    (auto simp: wp_simps assms intro!: s_ssl_read_receives frame_intros cstr_got_line)

lemma ssl_getstring_reads:
  assumes "os_ok (os (env c))"
  shows "wp ssl_getstring (\<lambda>s c'. \<exists>bs. extends c c' Tls_in (bs @ [0]) \<and> 0 \<notin> set bs \<and>
      s = to_text bs \<and> length s \<le> 65536) (\<lambda>k _. k \<in> aborts) c"
  unfolding ssl_getstring_def wp_bindM
proof (rule wp_mono [OF getline_loop_reads [where ch = Tls_in]])
  fix a c'
  assume "got_line c Tls_in False a c'"
  then obtain ptr line bs where g: "a = (ptr, line)" "extends c c' Tls_in (bs @ [0])"
    "\<forall>x \<in> set bs. x \<noteq> 0" "ptr \<le> 65536" "ptr < length line" "take ptr line = bs" "line ! ptr = 0"
    by (cases a) (auto simp: got_line_def ender_def kept_def)
  obtain rest where "line = bs @ 0 # rest"
    using g(6,7) id_take_nth_drop [OF g(5)] by auto
  then have "takeWhile (\<lambda>b. b \<noteq> 0) line = bs"
    using g(3) by (simp add: takeWhile_tail)
  moreover have "length bs \<le> 65536" using g(4-6) by auto
  ultimately show "wp (case a of (ptr, line) \<Rightarrow> retM (cstr line))
      (\<lambda>s c'. \<exists>bs. extends c c' Tls_in (bs @ [0]) \<and> 0 \<notin> set bs \<and> s = to_text bs \<and> length s \<le> 65536)
      (\<lambda>k _. k \<in> aborts) c'"
    using g by (auto simp: wp_simps cstr_def intro!: exI [of _ bs])
qed (auto simp: assms intro!: s_ssl_read_receives frame_intros)

lemma fd_putline_sends:
  "os_ok (os (env c)) \<Longrightarrow> sends (Out f) (raw (line @ CRLF)) (fd_putline f line) c"
  unfolding fd_putline_def by (rule s_write_sends)

section \<open>Descriptors are not leaked\<close>

lemma holds_fds: "holds c (c\<lparr>fds := p\<rparr>)"
  by (simp add: holds_def held_def fd_state_def)

lemma wait_holds [frame_intros]:
  "keeps holds poll_init" "keeps holds (poll_add f r w)" "keeps holds (s_poll_wait s t)"
  "keeps holds (wait_one f r w)"
  unfolding wait_one_def s_poll_wait_def poll_init_def poll_add_def
  by (auto intro!: holds.rules holds.modM simp: holds_fds fd_neutral_def)

lemma io_holds [frame_intros]:
  "keeps holds (s_write f bs)" "keeps holds (s_read f n)" "keeps holds (s_ssl_write bs)"
  "keeps holds (s_ssl_read n)" "keeps holds (get_socket_error f)" "keeps holds (s_connect a)"
  "keeps holds (set_socket_options f k)" "keeps holds (original_dst f)"
  unfolding s_write_def s_read_def s_ssl_write_def s_ssl_read_def get_socket_error_def
    s_connect_def set_socket_options_def original_dst_def
  by (auto intro!: holds.rules frame_intros simp: fd_neutral_def Let_def split: list.split)

lemma wp_holds:
  assumes "keeps holds m" "\<And>a c'. (\<And>f. held f c' = held f c) \<Longrightarrow> Q a c'"
  shows "wp m Q (\<lambda>_ _. True) c"
  using assms(1) by (rule wp_keeps) (auto simp: holds_def assms(2))

text \<open>A call that returns the descriptors \<open>g a\<close> holds exactly those in addition.\<close>

definition yields :: "('a \<Rightarrow> int list) \<Rightarrow> 'a cm \<Rightarrow> bool" where
  "yields g m \<longleftrightarrow> (\<forall>c. os_ok (os (env c)) \<longrightarrow>
     wp m (\<lambda>a c'. \<forall>f. held f c' = held f c + int (count_list (g a) f)) (\<lambda>_ _. True) c)"

definition one_fd :: "int \<Rightarrow> int list" where
  "one_fd f = (if f = INVALID_SOCKET then [] else [f])"

definition two_fds :: "(int \<times> int) option \<Rightarrow> int list" where
  "two_fds p = (case p of None \<Rightarrow> [] | Some (a, b) \<Rightarrow> [a, b])"

lemma wp_closesocket [wp_simps]:
  "wp (closesocket f) Q E c = wp (sys (Close f)) (\<lambda>_. Q ()) E c"
  by (simp add: closesocket_def wp_simps)

lemmas wp_eqs = wp_bindM wp_if wp_retM wp_seqM wp_getM wp_modM wp_whenM wp_stopM wp_closesocket
  wp_sys_step

lemma one_fd_yields: "yields one_fd (s_socket d)" "yields one_fd (s_accept s)"
  unfolding s_socket_def s_accept_def setup_fd_def yields_def
  by (auto simp: wp_eqs one_fd_def INVALID_SOCKET_def)

lemma setup_pair_wp:
  assumes "a_ret a < 0 \<or> 0 \<le> a_fds a ! 0 \<and> 0 \<le> a_fds a ! 1"
    and "\<And>f. held f c1 = held f c + (if a_ret a < 0 then 0 else int (count_list [a_fds a ! 0, a_fds a ! 1] f))"
  shows "wp (setup_pair a) (\<lambda>p c'. \<forall>f. held f c' = held f c + int (count_list (two_fds p) f))
    (\<lambda>_ _. True) c1"
  using assms unfolding setup_pair_def setup_fd_def Let_def
  by (auto simp: wp_eqs two_fds_def INVALID_SOCKET_def)

lemma two_fds_yields: "yields two_fds s_socketpair" "yields two_fds s_pipe"
proof -
  have ok: "a_ret (f n q) < 0 \<or> 0 \<le> a_fds (f n q) ! 0 \<and> 0 \<le> a_fds (f n q) ! 1"
    if "os_ok f" "q = Socketpair \<or> q = Pipe" for f n q
    using that os_okD [of f q n] by auto
  show "yields two_fds s_socketpair" "yields two_fds s_pipe"
    unfolding s_socketpair_def s_pipe_def yields_def wp_bindM wp_sys_step
    by (simp_all add: setup_pair_wp [OF ok])
qed

text \<open>Using such a call inside a computation.\<close>

lemma wp_yields:
  assumes "yields g m" "keeps io_le m" "os_ok (os (env c1))"
    and "\<And>a c2. (\<And>f. held f c2 = held f c1 + int (count_list (g a) f)) \<Longrightarrow> os_ok (os (env c2)) \<Longrightarrow> Q a c2"
  shows "wp m Q (\<lambda>_ _. True) c1"
proof -
  have "wp m (\<lambda>a c'. (\<forall>f. held f c' = held f c1 + int (count_list (g a) f)) \<and> io_le c1 c')
      (\<lambda>k c'. True \<and> io_le c1 c') c1"
    using assms(1-3) by (intro wp_conj) (auto simp: yields_def keeps_def)
  then show ?thesis
    by (rule wp_mono) (auto intro!: assms(4) simp: io_le_def env_le_def assms(3))
qed

lemma make_sockets_yields: "yields two_fds make_sockets"
  unfolding yields_def
proof (intro allI impI)
  fix c :: cli
  assume ok: "os_ok (os (env c))"
  show "wp make_sockets (\<lambda>p c'. \<forall>f. held f c' = held f c + int (count_list (two_fds p) f)) (\<lambda>_ _. True) c"
    unfolding make_sockets_def wp_bindM
    apply (rule wp_yields [OF one_fd_yields(1) fd_io(2) ok])
    subgoal for s c1
      apply (cases "s = INVALID_SOCKET")
       apply (simp add: wp_eqs two_fds_def one_fd_def)
      apply (simp add: wp_bindM)
      apply (rule wp_yields [OF one_fd_yields(1) fd_io(2)], assumption)
      subgoal for f1 c2
        apply (simp add: wp_eqs two_fds_def one_fd_def Let_def del: wp_sys)
        apply (auto intro!: wp_yields [OF one_fd_yields(2) fd_io(3)] simp: wp_eqs two_fds_def one_fd_def)
        done
      done
    done
qed

text \<open>The limits leave two descriptors to every client, and a handful for the process.\<close>

lemma get_limits_bounds:
  assumes "get_limits open_max = (m, k)" "m \<noteq> 0"
  shows "16 \<le> m" "5 \<le> k" "2 * k + 6 \<le> m"
  using assms by (auto simp: get_limits_def Let_def split: if_splits)

end
