(* ===== verification/Transfer_Loop.thy ===== *)
theory Transfer_Loop
  imports Netio
begin

text \<open>
  \<open>transfer()\<close> of client.c: the loop that moves data between the plain descriptors and the TLS
  layer through two fixed buffers, one section of the C function per definition. The buffers are
  the arrays of the code, updated with \<open>memmove\<close> and \<open>memset\<close>; writing past one is the outcome
  \<open>Overflow\<close>. The theorems show that this never happens, that both directions deliver the
  bytes they take in, unchanged and in order, and that an idle loop is cut off.
\<close>

section \<open>Buffers\<close>

text \<open>A buffer is an array and the number of bytes in use, which are its prefix.
  \<open>buff_add\<close> is a read into \<open>buff + ptr\<close>, \<open>buff_drop\<close> removes \<open>n\<close> bytes from the front.\<close>

type_synonym buffer = "byte list \<times> nat"

definition buff_content :: "buffer \<Rightarrow> byte list" where
  "buff_content b = take (snd b) (fst b)"

definition buff_wf :: "buffer \<Rightarrow> bool" where
  "buff_wf b \<longleftrightarrow> length (fst b) = BUFFSIZE \<and> snd b \<le> BUFFSIZE"

definition buff_add :: "buffer \<Rightarrow> byte list \<Rightarrow> buffer" where
  "buff_add b bs = (memcpy_at (fst b) (snd b) bs, snd b + length bs)"

definition buff_drop :: "buffer \<Rightarrow> nat \<Rightarrow> buffer" where
  "buff_drop b n =
    (let buf = memmove (fst b) 0 n (snd b - n); ptr = snd b - n
     in (memset buf ptr 0 n, ptr))"

section \<open>The local variables\<close>

record xfer =
  watchdog :: nat
  sock_open_rd :: bool
  sock_open_wr :: bool
  shutdown_wants_read :: bool
  shutdown_wants_write :: bool
  read_wants_read :: bool
  read_wants_write :: bool
  write_wants_read :: bool
  write_wants_write :: bool
  sock_can_rd :: bool
  sock_can_wr :: bool
  ssl_can_rd :: bool
  ssl_can_wr :: bool

definition xfer_start :: xfer where
  "xfer_start = \<lparr>watchdog = 0, sock_open_rd = True, sock_open_wr = True,
     shutdown_wants_read = False, shutdown_wants_write = False,
     read_wants_read = False, read_wants_write = False,
     write_wants_read = False, write_wants_write = False,
     sock_can_rd = False, sock_can_wr = False, ssl_can_rd = False, ssl_can_wr = False\<rparr>"

definition SHUT_RD :: nat where "SHUT_RD = 0"
definition SHUT_WR :: nat where "SHUT_WR = 1"

definition set_shutdown :: "bool \<Rightarrow> bool \<Rightarrow> unit cm" where
  "set_shutdown s r = modM (\<lambda>c. c\<lparr>ssl_sent := s, ssl_rcvd := r\<rparr>)"

text \<open>The descriptors behind \<open>c->sock_rfd->fd\<close> and its kin.\<close>

definition sock_rd :: "cli \<Rightarrow> int" where "sock_rd c = fd (get_fd c (sock_rfd c))"
definition sock_wr :: "cli \<Rightarrow> int" where "sock_wr c = fd (get_fd c (sock_wfd c))"
definition ssl_rd :: "cli \<Rightarrow> int" where "ssl_rd c = fd (get_fd c (ssl_rfd c))"
definition ssl_wr :: "cli \<Rightarrow> int" where "ssl_wr c = fd (get_fd c (ssl_wfd c))"

section \<open>parse_socket_error\<close>

text \<open>False on close, True on a non-critical error; any other error aborts.\<close>

definition parse_socket_error :: "bool cm" where
  "parse_socket_error = bindM (getM (\<lambda>c. errno (env c))) (\<lambda>e.
     if e = 0 \<or> e = EPIPE \<or> e = ECONNABORTED then retM False
     else if e = EINTR then retM True
     else if e = EWOULDBLOCK then bindM (sys Sleep) (\<lambda>_. retM True)
     else stopM (Longjmp 1))"

section \<open>The sections of the loop\<close>

text \<open>Initialise, and later update, the awaited conditions.\<close>

definition update_wants :: "xfer \<Rightarrow> xfer cm" where
  "update_wants v = getM (\<lambda>c.
     let v1 = v\<lparr>read_wants_read := read_wants_read v \<or>
                  (\<not> ssl_rcvd c \<and> ssl_ptr c < BUFFSIZE \<and> \<not> read_wants_write v)\<rparr>
     in v1\<lparr>write_wants_write := write_wants_write v1 \<or>
             (\<not> ssl_sent c \<and> sock_ptr c \<noteq> 0 \<and> \<not> write_wants_read v1)\<rparr>)"

text \<open>The requests put into \<open>c->fds\<close>, in order.\<close>

definition poll_requests :: "xfer \<Rightarrow> cli \<Rightarrow> (int \<times> bool \<times> bool) list" where
  "poll_requests v c =
    (if sock_open_rd v then [(sock_rd c, sock_ptr c < BUFFSIZE, False)] else []) @
    (if sock_open_wr v then [(sock_wr c, False, 0 < ssl_ptr c)] else []) @
    (if \<not> (ssl_sent c \<and> ssl_rcvd c) then
       [(ssl_rd c, read_wants_read v \<or> write_wants_read v \<or> shutdown_wants_read v, False),
        (ssl_wr c, False, read_wants_write v \<or> write_wants_write v \<or> shutdown_wants_write v)]
     else [])"

definition setup_fds :: "xfer \<Rightarrow> unit cm" where
  "setup_fds v = seqM poll_init
     (modM (\<lambda>c. c\<lparr>fds := foldl (\<lambda>s (f, r, w). s_poll_add s f r w) (fds c) (poll_requests v c)\<rparr>))"

text \<open>Wait for an event; \<open>False\<close> is the return on \<open>TIMEOUTclose\<close>.\<close>

definition busy :: "xfer \<Rightarrow> cli \<Rightarrow> bool" where
  "busy v c \<longleftrightarrow> (sock_open_rd v \<and> \<not> ssl_rcvd c) \<or> ssl_ptr c \<noteq> 0 \<or> sock_ptr c \<noteq> 0"

definition await_event :: "xfer \<Rightarrow> bool cm" where
  "await_event v =
    bindM (getM (\<lambda>c. if busy v c then o_timeout_idle (opt c) else o_timeout_close (opt c))) (\<lambda>t.
    bindM (s_poll_wait t 0) (\<lambda>err.
      if err = -1 then stopM (Longjmp 1)
      else if err = 0 then bindM (getM (busy v)) (\<lambda>b. if b then stopM (Longjmp 1) else retM False)
      else retM True))"

definition retrieve :: "xfer \<Rightarrow> xfer cm" where
  "retrieve v = getM (\<lambda>c. v\<lparr>
     sock_can_rd := s_poll_canread (fds c) (sock_rd c),
     sock_can_wr := s_poll_canwrite (fds c) (sock_wr c),
     ssl_can_rd := s_poll_canread (fds c) (ssl_rd c),
     ssl_can_wr := s_poll_canwrite (fds c) (ssl_wr c)\<rparr>)"

text \<open>Exceptions are only reported: asking for the pending error clears it.\<close>

definition report_error :: "bool \<Rightarrow> int \<Rightarrow> unit cm" where
  "report_error b f = bindM (getM (\<lambda>c. b \<and> s_poll_err (fds c) f)) (\<lambda>e.
     whenM e (bindM (get_socket_error f) (\<lambda>_. retM ())))"

definition exceptions :: "xfer \<Rightarrow> unit cm" where
  "exceptions v =
    bindM (getM sock_rd) (\<lambda>srd. bindM (getM sock_wr) (\<lambda>swr.
    bindM (getM ssl_rd) (\<lambda>trd. bindM (getM ssl_wr) (\<lambda>twr.
      seqM (if srd = swr then report_error (sock_can_rd v \<or> sock_can_wr v) srd
            else seqM (report_error (sock_can_rd v) srd) (report_error (sock_can_wr v) swr))
        (if trd = twr then report_error (ssl_can_rd v \<or> ssl_can_wr v) trd
         else seqM (report_error (ssl_can_rd v) trd)
                (report_error (trd \<noteq> twr \<and> ssl_can_wr v) twr))))))"

definition hangups :: "xfer \<Rightarrow> xfer cm" where
  "hangups v =
    (if sock_can_rd v \<or> sock_can_wr v \<or> ssl_can_rd v \<or> ssl_can_wr v then retM v
     else bindM (getM (\<lambda>c. s_poll_hup (fds c) (sock_rd c) \<or> s_poll_hup (fds c) (sock_wr c))) (\<lambda>sh.
       if sh then bindM (getM ssl_ptr) (\<lambda>n.
           if n \<noteq> 0 then stopM (Longjmp 1)
           else retM (v\<lparr>sock_open_rd := False, sock_open_wr := False\<rparr>))
       else bindM (getM (\<lambda>c. s_poll_hup (fds c) (ssl_rd c) \<or> s_poll_hup (fds c) (ssl_wr c))) (\<lambda>th.
         if th then bindM (getM sock_ptr) (\<lambda>n.
             if n \<noteq> 0 then stopM (Longjmp 1)
             else seqM (set_shutdown True True) (retM v))
         else retM v)))"

definition check_renegotiation :: "unit cm" where
  "check_renegotiation =
    bindM (getM (\<lambda>c. reneg_state c = RENEG_DETECTED \<and> \<not> o_renegotiation (opt c))) (\<lambda>b.
      if b then stopM (Longjmp 1) else retM ())"

definition send_close_notify :: "xfer \<Rightarrow> xfer cm" where
  "send_close_notify v =
    (if \<not> (shutdown_wants_read v \<or> shutdown_wants_write v) then retM v
     else bindM (ssl_sys Ssl_shutdown) (\<lambda>a.
       let err = (if a_ret a < 0 then a_ssl a else SSL_NONE);
           done = v\<lparr>shutdown_wants_read := False, shutdown_wants_write := False\<rparr>
       in case err of
            SSL_NONE \<Rightarrow> retM done
          | SSL_SYSCALL \<Rightarrow> bindM parse_socket_error (\<lambda>retry.
              if retry then retM v else seqM (set_shutdown True True) (retM done))
          | SSL_WANT_WRITE \<Rightarrow>
              retM (v\<lparr>shutdown_wants_read := False, shutdown_wants_write := True\<rparr>)
          | SSL_WANT_READ \<Rightarrow>
              retM (v\<lparr>shutdown_wants_read := True, shutdown_wants_write := False\<rparr>)
          | _ \<Rightarrow> stopM (Longjmp 1)))"

definition write_socket :: "xfer \<Rightarrow> xfer cm" where
  "write_socket v =
    (if \<not> (sock_open_wr v \<and> sock_can_wr v) then retM v
     else bindM (getM sock_wr) (\<lambda>f. bindM (getM (\<lambda>c. take (ssl_ptr c) (ssl_buff c))) (\<lambda>data.
       bindM (sys (Write f data)) (\<lambda>a.
         if a_ret a = -1 then bindM parse_socket_error (\<lambda>retry.
             retM (if retry then v else v\<lparr>sock_open_rd := False, sock_open_wr := False\<rparr>))
         else if a_ret a = 0 then retM v
         else bindM (getM ssl_ptr) (\<lambda>ptr.
           let num = nat (a_ret a)
           in if ptr < num then stopM Overflow
              else seqM (modM (\<lambda>c. let b = buff_drop (ssl_buff c, ssl_ptr c) num
                     in c\<lparr>ssl_buff := fst b, ssl_ptr := snd b,
                          sock_bytes := sock_bytes c + of_nat num\<rparr>))
                   (retM (v\<lparr>watchdog := 0\<rparr>)))))))"

definition read_socket :: "xfer \<Rightarrow> xfer cm" where
  "read_socket v =
    (if \<not> (sock_open_rd v \<and> sock_can_rd v) then retM v
     else bindM (getM sock_ptr) (\<lambda>ptr.
       if BUFFSIZE < ptr then stopM Overflow
       else bindM (getM sock_rd) (\<lambda>f.
         bindM (sys (Read f (BUFFSIZE - ptr))) (\<lambda>a.
           if a_ret a = -1 then bindM parse_socket_error (\<lambda>retry.
               retM (if retry then v else v\<lparr>sock_open_rd := False, sock_open_wr := False\<rparr>))
           else if a_ret a = 0 then retM (v\<lparr>sock_open_rd := False\<rparr>)
           else bindM (getM (\<lambda>c. length (sock_buff c))) (\<lambda>len.
             if len < ptr + length (a_data a) then stopM Overflow
             else seqM (modM (\<lambda>c. let b = buff_add (sock_buff c, ptr) (a_data a)
                     in c\<lparr>sock_buff := fst b, sock_ptr := snd b\<rparr>))
                   (retM (v\<lparr>watchdog := 0\<rparr>)))))))"

text \<open>What both TLS calls do when the connection is gone: \<open>SSL_ERROR_SYSCALL\<close> with \<open>pending\<close>
  telling whether data would be lost, and \<open>SSL_ERROR_ZERO_RETURN\<close>.\<close>

definition tls_gone :: "ans \<Rightarrow> (cli \<Rightarrow> bool) \<Rightarrow> unit cm" where
  "tls_gone a pending =
    bindM (if a_ret a \<noteq> 0 then parse_socket_error else retM False) (\<lambda>retry.
      if retry then retM ()
      else bindM (getM pending) (\<lambda>p.
        if p then stopM (Longjmp 1) else set_shutdown True True))"

definition tls_zero_return :: "unit cm" where
  "tls_zero_return = bindM (sys Ssl_version) (\<lambda>a.
     whenM (a_val a = 2) (set_shutdown True True))"

definition write_tls :: "xfer \<Rightarrow> xfer cm" where
  "write_tls v0 =
    (if \<not> ((write_wants_read v0 \<and> ssl_can_rd v0) \<or> (write_wants_write v0 \<and> ssl_can_wr v0))
     then retM v0
     else let v = v0\<lparr>write_wants_read := False, write_wants_write := False\<rparr>
       in bindM (getM (\<lambda>c. take (sock_ptr c) (sock_buff c))) (\<lambda>data.
          bindM (ssl_sys (Ssl_write data)) (\<lambda>a.
            case a_ssl a of
              SSL_NONE \<Rightarrow>
                if a_ret a = 0 then retM v
                else bindM (getM sock_ptr) (\<lambda>ptr.
                  let num = nat (a_ret a)
                  in if ptr < num then stopM Overflow
                     else seqM (modM (\<lambda>c. let b = buff_drop (sock_buff c, sock_ptr c) num
                            in c\<lparr>sock_buff := fst b, sock_ptr := snd b,
                                 ssl_bytes := ssl_bytes c + of_nat num\<rparr>))
                          (retM (v\<lparr>watchdog := 0\<rparr>)))
            | SSL_WANT_WRITE \<Rightarrow> retM (v\<lparr>write_wants_write := True\<rparr>)
            | SSL_WANT_READ \<Rightarrow> retM (v\<lparr>write_wants_read := True\<rparr>)
            | SSL_WANT_X509 \<Rightarrow> retM v
            | SSL_SYSCALL \<Rightarrow> seqM (tls_gone a (\<lambda>c. sock_ptr c \<noteq> 0)) (retM v)
            | SSL_ZERO_RETURN \<Rightarrow> seqM tls_zero_return (retM v)
            | _ \<Rightarrow> stopM (Longjmp 1))))"

definition tls_readable :: "xfer \<Rightarrow> bool cm" where
  "tls_readable v =
    bindM (if read_wants_read v
           then if ssl_can_rd v then retM True
                else bindM (sys Ssl_pending) (\<lambda>a. retM (a_ret a \<noteq> 0))
           else retM False) (\<lambda>b. retM (b \<or> (read_wants_write v \<and> ssl_can_wr v)))"

definition tls_receive :: "xfer \<Rightarrow> xfer cm" where
  "tls_receive v0 =
    (let v = v0\<lparr>read_wants_read := False, read_wants_write := False\<rparr>
     in bindM (getM ssl_ptr) (\<lambda>ptr.
        if BUFFSIZE < ptr then stopM Overflow
        else bindM (ssl_sys (Ssl_read (BUFFSIZE - ptr))) (\<lambda>a.
          case a_ssl a of
            SSL_NONE \<Rightarrow>
              if a_ret a = 0 then retM v
              else bindM (getM (\<lambda>c. length (ssl_buff c))) (\<lambda>len.
                if len < ptr + length (a_data a) then stopM Overflow
                else seqM (modM (\<lambda>c. let b = buff_add (ssl_buff c, ptr) (a_data a)
                        in c\<lparr>ssl_buff := fst b, ssl_ptr := snd b\<rparr>))
                      (retM (v\<lparr>watchdog := 0\<rparr>)))
          | SSL_WANT_WRITE \<Rightarrow> retM (v\<lparr>read_wants_write := True\<rparr>)
          | SSL_WANT_READ \<Rightarrow> retM (v\<lparr>read_wants_read := True\<rparr>)
          | SSL_WANT_X509 \<Rightarrow> retM v
          | SSL_SYSCALL \<Rightarrow>
              seqM (tls_gone a (\<lambda>c. sock_ptr c \<noteq> 0 \<or> write_wants_write v)) (retM v)
          | SSL_ZERO_RETURN \<Rightarrow> seqM tls_zero_return (retM v)
          | _ \<Rightarrow> stopM (Longjmp 1))))"

definition read_tls :: "xfer \<Rightarrow> xfer cm" where
  "read_tls v = bindM (tls_readable v) (\<lambda>go. if go then tls_receive v else retM v)"

text \<open>\<open>ioctlsocket(fd, FIONREAD, &bytes) || !bytes\<close>\<close>

definition drained :: "int \<Rightarrow> bool cm" where
  "drained f = bindM (sys (Fionread f)) (\<lambda>a. retM (a_ret a \<noteq> 0 \<or> a_val a = 0))"

text \<open>\<open>g && drained(f)\<close>\<close>

definition hung :: "(cli \<Rightarrow> bool) \<Rightarrow> (cli \<Rightarrow> int) \<Rightarrow> bool cm" where
  "hung g f = bindM (getM g) (\<lambda>b. if b then bindM (getM f) drained else retM False)"

definition check_hangup :: "xfer \<Rightarrow> xfer cm" where
  "check_hangup v0 =
    bindM (hung (\<lambda>c. sock_open_rd v0 \<and> s_poll_rdhup (fds c) (sock_rd c)) sock_rd) (\<lambda>h.
    let v1 = (if h then v0\<lparr>sock_open_rd := False\<rparr> else v0) in
    bindM (getM (\<lambda>c. sock_open_wr v1 \<and> s_poll_hup (fds c) (sock_wr c))) (\<lambda>w.
    bindM (getM ssl_ptr) (\<lambda>n.
    if w \<and> n \<noteq> 0 then stopM (Longjmp 1)
    else let v2 = (if w then v1\<lparr>sock_open_wr := False\<rparr> else v1) in
    bindM (hung (\<lambda>c. \<not> ssl_rcvd c \<and> s_poll_rdhup (fds c) (ssl_rd c)) ssl_rd) (\<lambda>h2.
    seqM (whenM h2 (modM (\<lambda>c. c\<lparr>ssl_rcvd := True\<rparr>)))
    (bindM (getM (\<lambda>c. \<not> ssl_sent c \<and> s_poll_hup (fds c) (ssl_wr c))) (\<lambda>w2.
    bindM (getM sock_ptr) (\<lambda>m.
    if w2 \<and> (m \<noteq> 0 \<or> write_wants_write v2) then stopM (Longjmp 1)
    else seqM (whenM w2 (modM (\<lambda>c. c\<lparr>ssl_sent := True\<rparr>))) (retM v2))))))))"

definition close_socket_side :: "xfer \<Rightarrow> xfer cm" where
  "close_socket_side v0 =
    bindM (getM (\<lambda>c. sock_open_wr v0 \<and> ssl_rcvd c \<and> ssl_ptr c = 0)) (\<lambda>b.
    if \<not> b then retM v0
    else let v = v0\<lparr>sock_open_wr := False\<rparr> in
      bindM (getM (\<lambda>c. get_fd c (sock_wfd c))) (\<lambda>w.
        if \<not> is_socket w then retM (v\<lparr>sock_open_rd := False\<rparr>)
        else bindM (sys (Shutdown (fd w) SHUT_WR)) (\<lambda>a.
          retM (if a_ret a = 0 then v else v\<lparr>sock_open_rd := False\<rparr>))))"

definition close_tls_side :: "xfer \<Rightarrow> xfer cm" where
  "close_tls_side v =
    bindM (getM (\<lambda>c. \<not> ssl_sent c \<and> \<not> sock_open_rd v \<and> sock_ptr c = 0 \<and> \<not> write_wants_write v)) (\<lambda>b.
    if \<not> b then retM v
    else bindM (sys Ssl_version) (\<lambda>a.
      if a_val a \<noteq> 2 then retM (v\<lparr>shutdown_wants_write := True\<rparr>)
      else bindM (getM (\<lambda>c. get_fd c (ssl_rfd c))) (\<lambda>r.
           bindM (getM (\<lambda>c. get_fd c (ssl_wfd c))) (\<lambda>w.
           seqM (whenM (is_socket r) (bindM (sys (Shutdown (fd r) SHUT_RD)) (\<lambda>_. retM ())))
           (seqM (whenM (is_socket w) (bindM (sys (Shutdown (fd w) SHUT_WR)) (\<lambda>_. retM ())))
           (seqM (set_shutdown True True) (retM v)))))))"

definition check_shutdown :: "xfer \<Rightarrow> xfer cm" where
  "check_shutdown v = bindM (close_socket_side v) close_tls_side"

definition check_watchdog :: "xfer \<Rightarrow> xfer cm" where
  "check_watchdog v =
    (let v1 = v\<lparr>watchdog := watchdog v + 1\<rparr>
     in if 100 < watchdog v1 then stopM (Longjmp 1) else retM v1)"

section \<open>The loop\<close>

text \<open>The sections after the wait, in order.\<close>

definition transfer_moves :: "xfer \<Rightarrow> xfer cm" where
  "transfer_moves v0 =
    bindM (retrieve v0) (\<lambda>v1.
    seqM (exceptions v1)
    (bindM (hangups v1) (\<lambda>v2.
    seqM check_renegotiation
    (bindM (send_close_notify v2) (\<lambda>v3.
    bindM (write_socket v3) (\<lambda>v4.
    bindM (read_socket v4) (\<lambda>v5.
    bindM (update_wants v5) (\<lambda>v6.
    bindM (write_tls v6) (\<lambda>v7.
    bindM (read_tls v7) (\<lambda>v8.
    bindM (check_hangup v8) check_shutdown))))))))))"

definition transfer_work :: "xfer \<Rightarrow> xfer cm" where
  "transfer_work v = bindM (transfer_moves v) check_watchdog"

definition transfer_round :: "xfer \<Rightarrow> (unit + xfer) cm" where
  "transfer_round v0 =
    bindM (update_wants v0) (\<lambda>v.
    seqM (setup_fds v)
    (bindM (await_event v) (\<lambda>go.
    if \<not> go then retM (Inl ())
    else bindM (transfer_work v) (\<lambda>w.
      bindM (getM ssl_sent) (\<lambda>sent.
        retM (if sock_open_wr w \<or> \<not> sent \<or> shutdown_wants_read w \<or> shutdown_wants_write w
              then Inr w else Inl ()))))))"

definition transfer :: "unit cm" where
  "transfer = seqM (modM (\<lambda>c. c\<lparr>sock_ptr := 0, ssl_ptr := 0\<rparr>)) (loopM transfer_round xfer_start)"

section \<open>Buffers are queues\<close>

text \<open>What the buffers promise: a queue of bytes with bounded room.\<close>

locale byte_queue =
  fixes content :: "'b \<Rightarrow> byte list"
    and wf :: "'b \<Rightarrow> bool"
    and room :: nat
    and put :: "'b \<Rightarrow> byte list \<Rightarrow> 'b"
    and drop_front :: "'b \<Rightarrow> nat \<Rightarrow> 'b"
  assumes fits: "wf b \<Longrightarrow> length (content b) \<le> room"
    and put_wf: "wf b \<Longrightarrow> length (content b) + length bs \<le> room \<Longrightarrow> wf (put b bs)"
    and put_content: "wf b \<Longrightarrow> length (content b) + length bs \<le> room \<Longrightarrow>
      content (put b bs) = content b @ bs"
    and drop_wf: "wf b \<Longrightarrow> n \<le> length (content b) \<Longrightarrow> wf (drop_front b n)"
    and drop_content: "wf b \<Longrightarrow> n \<le> length (content b) \<Longrightarrow>
      content (drop_front b n) = drop n (content b)"
begin

text \<open>Passing bytes through the queue keeps \<open>what was in it @ what came in = what went out @ what
  is in it\<close>.\<close>

lemma put_balance:
  assumes "wf b" "length (content b) + length bs \<le> room" "before @ ins = outs @ content b"
  shows "before @ (ins @ bs) = outs @ content (put b bs)"
  using assms by (simp add: put_content flip: append_assoc)

lemma drop_balance:
  assumes "wf b" "n \<le> length (content b)" "before @ ins = outs @ content b"
  shows "before @ ins = (outs @ take n (content b)) @ content (drop_front b n)"
  using assms by (simp add: drop_content)

end

lemma buff_content_length: "buff_wf b \<Longrightarrow> length (buff_content b) = snd b"
  by (simp add: buff_wf_def buff_content_def)

interpretation buff: byte_queue buff_content buff_wf BUFFSIZE buff_add buff_drop
proof unfold_locales
  fix b :: buffer and bs :: "byte list" and n
  assume wf: "buff_wf b"
  show "length (buff_content b) \<le> BUFFSIZE"
    using wf by (simp add: buff_content_length) (simp add: buff_wf_def)
  {
    assume "length (buff_content b) + length bs \<le> BUFFSIZE"
    then show "buff_wf (buff_add b bs)" "buff_content (buff_add b bs) = buff_content b @ bs"
      using wf by (auto simp: buff_wf_def buff_add_def buff_content_def take_memcpy_at)
  }
  {
    assume "n \<le> length (buff_content b)"
    then have n: "n \<le> snd b" "snd b \<le> length (fst b)"
      using wf by (auto simp: buff_wf_def buff_content_def)
    then have "length (memmove (fst b) 0 n (snd b - n)) = length (fst b)" by simp
    with n show "buff_wf (buff_drop b n)"
      using wf by (auto simp: buff_wf_def buff_drop_def Let_def intro!: length_memset)
    show "buff_content (buff_drop b n) = drop n (buff_content b)"
      using n by (simp add: buff_content_def buff_drop_def Let_def take_memmove_front drop_take)
  }
qed

section \<open>Relaying\<close>

definition sock_queue :: "cli \<Rightarrow> buffer" where "sock_queue c = (sock_buff c, sock_ptr c)"
definition ssl_queue :: "cli \<Rightarrow> buffer" where "ssl_queue c = (ssl_buff c, ssl_ptr c)"

definition bwf :: "cli \<Rightarrow> bool" where
  "bwf c \<longleftrightarrow> os_ok (os (env c)) \<and> buff_wf (sock_queue c) \<and> buff_wf (ssl_queue c)"

text \<open>The part of the connection's state the loop never touches.\<close>

definition xfer_rest :: "cli \<Rightarrow> cli" where
  "xfer_rest c = c\<lparr>env := undefined, fds := undefined, ssl_sent := undefined, ssl_rcvd := undefined,
     reneg_state := undefined, sock_buff := undefined, ssl_buff := undefined, sock_ptr := undefined,
     ssl_ptr := undefined, sock_bytes := undefined, ssl_bytes := undefined\<rparr>"

text \<open>One direction between two moments: \<open>ins\<close> and \<open>outs\<close> are the bytes taken in and passed on so
  far, \<open>cnt\<close> the counter and \<open>q\<close> the bytes buffered. What was buffered before with what came
  in is what went out with what is buffered after, and the counter counts what went out.\<close>

definition passed :: "byte list \<Rightarrow> byte list \<Rightarrow> byte list \<Rightarrow> byte list \<Rightarrow> 64 word \<Rightarrow> 64 word \<Rightarrow>
    byte list \<Rightarrow> byte list \<Rightarrow> bool" where
  "passed ins ins' outs outs' cnt cnt' q q' \<longleftrightarrow>
    (\<exists>X Y. ins' = ins @ X \<and> outs' = outs @ Y \<and> cnt' = cnt + of_nat (length Y) \<and> q @ X = Y @ q')"

lemma passed_refl: "passed i i z z n n q q"
  by (simp add: passed_def)

lemma passed_trans:
  assumes "passed i i' z z' n n' q q'" "passed i' i'' z' z'' n' n'' q' q''"
  shows "passed i i'' z z'' n n'' q q''"
proof -
  obtain X Y where 1: "i' = i @ X" "z' = z @ Y" "n' = n + of_nat (length Y)" "q @ X = Y @ q'"
    using assms(1) by (auto simp: passed_def)
  obtain X2 Y2 where 2: "i'' = i' @ X2" "z'' = z' @ Y2" "n'' = n' + of_nat (length Y2)"
    "q' @ X2 = Y2 @ q''"
    using assms(2) by (auto simp: passed_def)
  have "q @ (X @ X2) = (Y @ Y2) @ q''" using 1(4) 2(4) by (metis append.assoc)
  with 1 2 show ?thesis
    unfolding passed_def by (intro exI [of _ "X @ X2"] exI [of _ "Y @ Y2"]) simp
qed

lemma passed_in: "passed i (i @ X) z z n n q (q @ X)"
  by (simp add: passed_def)

lemma passed_out: "n' = n + of_nat (length Y) \<Longrightarrow> q = Y @ q' \<Longrightarrow> passed i i z (z @ Y) n n' q q'"
  by (simp add: passed_def)

definition relayed :: "cli \<Rightarrow> cli \<Rightarrow> bool" where
  "relayed c c' \<longleftrightarrow>
    passed (stream (In (sock_rd c)) c) (stream (In (sock_rd c)) c') (stream Tls_out c) (stream Tls_out c')
      (ssl_bytes c) (ssl_bytes c') (buff_content (sock_queue c)) (buff_content (sock_queue c')) \<and>
    passed (stream Tls_in c) (stream Tls_in c') (stream (Out (sock_wr c)) c) (stream (Out (sock_wr c)) c')
      (sock_bytes c) (sock_bytes c') (buff_content (ssl_queue c)) (buff_content (ssl_queue c'))"

definition relay :: "cli \<Rightarrow> cli \<Rightarrow> bool" where
  "relay c c' \<longleftrightarrow> env_le (env c) (env c') \<and> xfer_rest c' = xfer_rest c \<and>
     (bwf c \<longrightarrow> bwf c' \<and> relayed c c')"

lemma xfer_rest_fields:
  assumes "xfer_rest c' = xfer_rest c"
  shows "sock_rd c' = sock_rd c" "sock_wr c' = sock_wr c" "ssl_rd c' = ssl_rd c" "ssl_wr c' = ssl_wr c"
    "opt c' = opt c" "local_rfd c' = local_rfd c" "local_wfd c' = local_wfd c"
    "remote_fd c' = remote_fd c"
proof -
  have f: "get_fd c' s = get_fd c s" for s
    using assms by (cases c; cases c'; cases s; simp add: xfer_rest_def)
  have "sock_rfd c' = sock_rfd c" "sock_wfd c' = sock_wfd c" "ssl_rfd c' = ssl_rfd c"
    "ssl_wfd c' = ssl_wfd c"
    using assms by (cases c; cases c'; simp add: xfer_rest_def)+
  with f show "sock_rd c' = sock_rd c" "sock_wr c' = sock_wr c" "ssl_rd c' = ssl_rd c"
    "ssl_wr c' = ssl_wr c"
    by (simp_all add: sock_rd_def sock_wr_def ssl_rd_def ssl_wr_def)
  show "opt c' = opt c" "local_rfd c' = local_rfd c" "local_wfd c' = local_wfd c"
    "remote_fd c' = remote_fd c"
    using assms by (cases c; cases c'; simp add: xfer_rest_def)+
qed

lemma xfer_rest_updates [simp]:
  "xfer_rest (c\<lparr>fds := p\<rparr>) = xfer_rest c" "xfer_rest (c\<lparr>env := e\<rparr>) = xfer_rest c"
  "xfer_rest (c\<lparr>ssl_sent := s, ssl_rcvd := r, reneg_state := g\<rparr>) = xfer_rest c"
  "xfer_rest (c\<lparr>ssl_sent := s, ssl_rcvd := r\<rparr>) = xfer_rest c"
  "xfer_rest (c\<lparr>ssl_sent := s\<rparr>) = xfer_rest c" "xfer_rest (c\<lparr>ssl_rcvd := r\<rparr>) = xfer_rest c"
  "xfer_rest (c\<lparr>sock_buff := sb, sock_ptr := p'\<rparr>) = xfer_rest c"
  "xfer_rest (c\<lparr>ssl_buff := sb, ssl_ptr := p'\<rparr>) = xfer_rest c"
  "xfer_rest (c\<lparr>sock_buff := sb, sock_ptr := p', ssl_bytes := y\<rparr>) = xfer_rest c"
  "xfer_rest (c\<lparr>ssl_buff := sb, ssl_ptr := p', sock_bytes := y\<rparr>) = xfer_rest c"
  by (simp_all add: xfer_rest_def)

lemma relayed_trans:
  assumes "relayed a b" "relayed b c" "sock_rd b = sock_rd a" "sock_wr b = sock_wr a"
  shows "relayed a c"
  using assms passed_trans unfolding relayed_def by (simp, blast)

lemma queue_env_step [simp]:
  "sock_queue (env_step q c) = sock_queue c" "ssl_queue (env_step q c) = ssl_queue c"
  "sock_bytes (env_step q c) = sock_bytes c" "ssl_bytes (env_step q c) = ssl_bytes c"
  "xfer_rest (env_step q c) = xfer_rest c"
  by (simp_all add: env_step_def sock_queue_def ssl_queue_def)

lemma env_le_env_step: "now (env c) < horizon (env c) \<Longrightarrow> env_le (env c) (env (env_step q c))"
  by (simp add: env_le_def env_step_def)

text \<open>A change that moves nothing and leaves the buffers alone.\<close>

lemma relay_quiet:
  assumes "env_le (env c) (env c')" "xfer_rest c' = xfer_rest c" "\<And>ch. stream ch c' = stream ch c"
    "sock_queue c' = sock_queue c" "ssl_queue c' = ssl_queue c" "sock_bytes c' = sock_bytes c"
    "ssl_bytes c' = ssl_bytes c"
  shows "relay c c'"
  using assms by (auto simp: relay_def bwf_def env_le_def relayed_def passed_refl)

interpretation relay: frame_rel relay quiet
proof unfold_locales
  fix a b c
  assume "relay a b" "relay b c"
  then show "relay a c"
    using relayed_trans [of a b c]
    by (auto simp: relay_def intro: env_le_trans dest: xfer_rest_fields)
next
  fix q and c :: cli
  assume "quiet q" "now (env c) < horizon (env c)"
  then show "relay c (env_step q c)"
    by (intro relay_quiet) (simp_all add: quiet_def env_le_env_step)
qed (auto intro!: relay_quiet simp: env_le_def stream_def sock_queue_def ssl_queue_def)


lemma relay_fds: "relay c (c\<lparr>fds := p\<rparr>)"
  by (rule relay_quiet) (simp_all add: env_le_def stream_def sock_queue_def ssl_queue_def)

lemma relay_flags:
  "relay c (c\<lparr>ssl_sent := s, ssl_rcvd := r\<rparr>)" "relay c (c\<lparr>ssl_sent := s\<rparr>)" "relay c (c\<lparr>ssl_rcvd := r\<rparr>)"
  by (rule relay_quiet; simp add: env_le_def stream_def sock_queue_def ssl_queue_def)+

lemma io_queues:
  assumes "io_le c c'"
  shows "xfer_rest c' = xfer_rest c" "sock_queue c' = sock_queue c" "ssl_queue c' = ssl_queue c"
    "sock_bytes c' = sock_bytes c" "ssl_bytes c' = ssl_bytes c"
proof -
  have "xfer_rest (rest_of x) = xfer_rest x" for x
    by (simp add: xfer_rest_def rest_of_def)
  then show "xfer_rest c' = xfer_rest c"
    using assms unfolding io_le_def by metis
qed (simp_all add: sock_queue_def ssl_queue_def io_le_fields [OF assms])

lemma hush_relay: "keeps hush m \<Longrightarrow> keeps relay m"
proof (erule keeps_mono)
  fix c c'
  assume h: "hush c c'"
  then have io: "io_le c c'" by (rule hush_io)
  show "relay c c'"
    using io unfolding io_le_def
    by (intro relay_quiet) (simp_all add: io_queues [OF io] hush_stream [OF h])
qed

section \<open>The quiet sections\<close>

definition tame :: "stop set" where "tame = - {Overflow}"

lemma in_tame [simp]: "k \<in> tame \<longleftrightarrow> k \<noteq> Overflow"
  by (simp add: tame_def)

lemma aborts_tame: "stops aborts m \<Longrightarrow> stops tame m"
  by (rule stops_mono) (auto simp: aborts_def)

lemmas relay_intros = relay.rules relay.modM hush_relay [OF s_poll_wait_hush] relay_fds relay_flags
  stops_rules io_aborts [THEN aborts_tame]

lemma get_socket_error_hush [frame_intros]: "keeps hush (get_socket_error f)"
  unfolding get_socket_error_def by (auto intro!: hush.rules simp: quiet_def Let_def)

lemma set_shutdown_relay [frame_intros]: "keeps relay (set_shutdown s r)" "stops tame (set_shutdown s r)"
  unfolding set_shutdown_def by (auto intro!: relay_intros)

lemma parse_socket_error_relay [frame_intros]:
  "keeps relay parse_socket_error" "stops tame parse_socket_error"
  unfolding parse_socket_error_def by (auto intro!: relay_intros frame_intros simp: quiet_def)

lemma quiet_sections [frame_intros]:
  "keeps relay (update_wants v)" "stops tame (update_wants v)"
  "keeps relay (setup_fds v)" "stops tame (setup_fds v)"
  "keeps relay (await_event v)" "stops tame (await_event v)"
  "keeps relay (retrieve v)" "stops tame (retrieve v)"
  "keeps relay (exceptions v)" "stops tame (exceptions v)"
  "keeps relay (hangups v)" "stops tame (hangups v)"
  "keeps relay check_renegotiation" "stops tame check_renegotiation"
  "keeps relay (send_close_notify v)" "stops tame (send_close_notify v)"
  "keeps relay (tls_readable v)" "stops tame (tls_readable v)"
  "keeps relay (tls_gone a p)" "stops tame (tls_gone a p)"
  "keeps relay tls_zero_return" "stops tame tls_zero_return"
  "keeps relay (check_hangup v)" "stops tame (check_hangup v)"
  "keeps relay (check_shutdown v)" "stops tame (check_shutdown v)"
  "keeps relay (check_watchdog v)" "stops tame (check_watchdog v)"
  unfolding update_wants_def setup_fds_def await_event_def retrieve_def exceptions_def report_error_def
    hangups_def check_renegotiation_def send_close_notify_def tls_readable_def tls_gone_def
    tls_zero_return_def check_hangup_def check_shutdown_def close_socket_side_def close_tls_side_def check_watchdog_def hung_def drained_def
    get_socket_error_def poll_init_def
  by (auto intro!: relay_intros frame_intros simp: quiet_def Let_def split: ssl_error.split)

section \<open>The sections that move data\<close>

text \<open>\<open>sound m\<close>: the computation relays, and from intact buffers it never writes past one.\<close>

definition sound :: "'a cm \<Rightarrow> bool" where
  "sound m \<longleftrightarrow> (\<forall>c. wp m (\<lambda>_. relay c) (\<lambda>k c'. relay c c' \<and> (bwf c \<longrightarrow> k \<noteq> Overflow)) c)"

lemma relay_bwf: "relay c c' \<Longrightarrow> bwf c \<Longrightarrow> bwf c'"
  by (simp add: relay_def)

lemma wp_sound:
  assumes "sound m" "relay c c1"
    and "\<And>a c'. relay c c' \<Longrightarrow> Q a c'" "\<And>k c'. relay c c' \<Longrightarrow> (bwf c \<Longrightarrow> k \<noteq> Overflow) \<Longrightarrow> E k c'"
  shows "wp m Q E c1"
proof -
  have "wp m (\<lambda>_. relay c1) (\<lambda>k c'. relay c1 c' \<and> (bwf c1 \<longrightarrow> k \<noteq> Overflow)) c1"
    using assms(1) by (simp add: sound_def)
  then show ?thesis
    by (rule wp_mono) (auto intro: assms relay.trans [OF assms(2)] dest: relay_bwf [OF assms(2)])
qed

lemma sound_tame: "keeps relay m \<Longrightarrow> stops tame m \<Longrightarrow> sound m"
  unfolding sound_def
proof
  fix c
  assume "keeps relay m" "stops tame m"
  then have "wp m (\<lambda>_. relay c) (\<lambda>k c'. k \<in> tame \<and> relay c c') c"
    by (intro wp_stops) (simp_all add: keeps_def)
  then show "wp m (\<lambda>_. relay c) (\<lambda>k c'. relay c c' \<and> (bwf c \<longrightarrow> k \<noteq> Overflow)) c"
    by (rule wp_mono) auto
qed

lemma sound_bindM: "sound m \<Longrightarrow> (\<And>a. sound (f a)) \<Longrightarrow> sound (bindM m f)"
  unfolding sound_def [of "bindM m f"] wp_bindM
  by (auto intro!: wp_sound [of m] wp_sound [of "f _"] intro: relay.refl)

lemma sound_seqM: "sound m \<Longrightarrow> sound m' \<Longrightarrow> sound (seqM m m')"
  by (simp add: seqM_def sound_bindM)

lemma sound_basic: "sound (retM a)" "sound (getM f)" "k \<noteq> Overflow \<Longrightarrow> sound (stopM k)"
  by (auto intro!: sound_tame relay_intros)

lemma sound_if: "(b \<Longrightarrow> sound m) \<Longrightarrow> (\<not> b \<Longrightarrow> sound m') \<Longrightarrow> sound (if b then m else m')"
  by simp

lemma sound_loopM: "(\<And>a. sound (body a)) \<Longrightarrow> sound (loopM body a)"
  unfolding sound_def [of "loopM body a"]
proof
  fix c
  assume b: "\<And>a. sound (body a)"
  show "wp (loopM body a) (\<lambda>_. relay c) (\<lambda>k c'. relay c c' \<and> (bwf c \<longrightarrow> k \<noteq> Overflow)) c"
    by (rule wp_loopM [where I = "\<lambda>_. relay c"])
      (auto intro: relay.refl wp_sound [OF b] split: sum.split)
qed

lemma relay_failed:
  assumes "now (env c) < horizon (env c)"
    "channel q \<noteq> None \<Longrightarrow> os_ok (os (env c)) \<Longrightarrow> payload q (os (env c) (now (env c)) q) = []"
  shows "relay c (env_step q c)"
proof (cases "os_ok (os (env c))")
  case True
  then show ?thesis using assms by (intro relay_quiet) (auto simp: env_le_env_step)
next
  case False
  then show ?thesis using assms by (simp add: relay_def bwf_def env_le_env_step)
qed

lemma relay_write:
  assumes "now (env c) < horizon (env c)"
  defines "q \<equiv> Write (sock_wr c) (take (ssl_ptr c) (ssl_buff c))"
  defines "n \<equiv> nat (a_ret (os (env c) (now (env c)) q))"
  assumes n: "n \<le> ssl_ptr c"
  shows "relay c ((env_step q c)\<lparr>ssl_buff := fst (buff_drop (ssl_buff c, ssl_ptr c) n),
      ssl_ptr := snd (buff_drop (ssl_buff c, ssl_ptr c) n), sock_bytes := sock_bytes c + of_nat n\<rparr>)"
    (is "relay c ?c")
proof -
  have env: "env_le (env c) (env ?c)" using assms(1) env_le_env_step [of c q] by simp
  have str: "stream ch ?c = stream ch (env_step q c)" for ch by (rule stream_cong) simp
  have que: "ssl_queue ?c = buff_drop (ssl_queue c) n" "sock_queue ?c = sock_queue c"
    by (simp_all add: ssl_queue_def sock_queue_def env_step_def)
  have "bwf ?c \<and> relayed c ?c" if wf: "bwf c"
  proof -
    have b: "buff_wf (ssl_queue c)" using wf by (simp add: bwf_def)
    have len: "n \<le> length (buff_content (ssl_queue c))"
      using b n by (simp add: buff_content_length) (simp add: ssl_queue_def)
    have pay: "payload q (os (env c) (now (env c)) q) = take n (buff_content (ssl_queue c))"
      by (simp add: q_def n_def ssl_queue_def buff_content_def)
    have "bwf ?c"
      using wf buff.drop_wf [OF b len] by (simp add: bwf_def que)
    moreover have "relayed c ?c"
      using len unfolding relayed_def str que
      by (auto simp: q_def [symmetric] pay buff.drop_content [OF b len] env_step_def [symmetric]
         passed_refl intro!: passed_out) (auto simp: q_def passed_refl)
    ultimately show ?thesis by simp
  qed
  with env show ?thesis by (simp add: relay_def)
qed


lemma relay_read:
  assumes "now (env c) < horizon (env c)"
  defines "q \<equiv> Read (sock_rd c) (BUFFSIZE - sock_ptr c)"
  defines "bs \<equiv> a_data (os (env c) (now (env c)) q)"
  assumes n: "sock_ptr c + length bs \<le> length (sock_buff c)"
  shows "relay c ((env_step q c)\<lparr>sock_buff := fst (buff_add (sock_buff c, sock_ptr c) bs),
      sock_ptr := snd (buff_add (sock_buff c, sock_ptr c) bs)\<rparr>)"
    (is "relay c ?c")
proof -
  have env: "env_le (env c) (env ?c)" using assms(1) env_le_env_step [of c q] by simp
  have str: "stream ch ?c = stream ch (env_step q c)" for ch by (rule stream_cong) simp
  have que: "sock_queue ?c = buff_add (sock_queue c) bs" "ssl_queue ?c = ssl_queue c"
    by (simp_all add: ssl_queue_def sock_queue_def env_step_def)
  have "bwf ?c \<and> relayed c ?c" if wf: "bwf c"
  proof -
    have b: "buff_wf (sock_queue c)" using wf by (simp add: bwf_def)
    have len: "length (buff_content (sock_queue c)) + length bs \<le> BUFFSIZE"
      using b n by (simp add: buff_content_length) (simp add: sock_queue_def buff_wf_def)
    have pay: "payload q (os (env c) (now (env c)) q) = bs"
      by (simp add: q_def bs_def)
    have "bwf ?c"
      using wf buff.put_wf [OF b len] by (simp add: bwf_def que)
    moreover have "relayed c ?c"
      unfolding relayed_def str que
      by (auto simp: pay buff.put_content [OF b len] passed_refl passed_in) (auto simp: q_def passed_refl passed_in)
    ultimately show ?thesis by simp
  qed
  with env show ?thesis by (simp add: relay_def)
qed

lemma relay_tls_write:
  assumes "now (env c) < horizon (env c)"
  defines "q \<equiv> Ssl_write (take (sock_ptr c) (sock_buff c))"
  defines "n \<equiv> nat (a_ret (os (env c) (now (env c)) q))"
  assumes n: "n \<le> sock_ptr c"
  shows "relay c ((env_step q c)\<lparr>ssl_sent := s, ssl_rcvd := r, reneg_state := g,
      sock_buff := fst (buff_drop (sock_buff c, sock_ptr c) n),
      sock_ptr := snd (buff_drop (sock_buff c, sock_ptr c) n), ssl_bytes := ssl_bytes c + of_nat n\<rparr>)"
    (is "relay c ?c")
proof -
  have env: "env_le (env c) (env ?c)" using assms(1) env_le_env_step [of c q] by simp
  have str: "stream ch ?c = stream ch (env_step q c)" for ch by (rule stream_cong) simp
  have que: "sock_queue ?c = buff_drop (sock_queue c) n" "ssl_queue ?c = ssl_queue c"
    by (simp_all add: ssl_queue_def sock_queue_def env_step_def)
  have "bwf ?c \<and> relayed c ?c" if wf: "bwf c"
  proof -
    have b: "buff_wf (sock_queue c)" using wf by (simp add: bwf_def)
    have len: "n \<le> length (buff_content (sock_queue c))"
      using b n by (simp add: buff_content_length) (simp add: sock_queue_def)
    have pay: "payload q (os (env c) (now (env c)) q) = take n (buff_content (sock_queue c))"
      by (simp add: q_def n_def sock_queue_def buff_content_def)
    have "bwf ?c"
      using wf buff.drop_wf [OF b len] by (simp add: bwf_def que)
    moreover have "relayed c ?c"
      using len unfolding relayed_def str que
      by (auto simp: pay buff.drop_content [OF b len] passed_refl intro!: passed_out)
        (auto simp: q_def passed_refl)
    ultimately show ?thesis by simp
  qed
  with env show ?thesis by (simp add: relay_def)
qed

lemma relay_tls_read:
  assumes "now (env c) < horizon (env c)"
  defines "q \<equiv> Ssl_read (BUFFSIZE - ssl_ptr c)"
  defines "bs \<equiv> a_data (os (env c) (now (env c)) q)"
  assumes n: "ssl_ptr c + length bs \<le> length (ssl_buff c)"
  shows "relay c ((env_step q c)\<lparr>ssl_sent := s, ssl_rcvd := r, reneg_state := g,
      ssl_buff := fst (buff_add (ssl_buff c, ssl_ptr c) bs),
      ssl_ptr := snd (buff_add (ssl_buff c, ssl_ptr c) bs)\<rparr>)"
    (is "relay c ?c")
proof -
  have env: "env_le (env c) (env ?c)" using assms(1) env_le_env_step [of c q] by simp
  have str: "stream ch ?c = stream ch (env_step q c)" for ch by (rule stream_cong) simp
  have que: "ssl_queue ?c = buff_add (ssl_queue c) bs" "sock_queue ?c = sock_queue c"
    by (simp_all add: ssl_queue_def sock_queue_def env_step_def)
  have "bwf ?c \<and> relayed c ?c" if wf: "bwf c"
  proof -
    have b: "buff_wf (ssl_queue c)" using wf by (simp add: bwf_def)
    have len: "length (buff_content (ssl_queue c)) + length bs \<le> BUFFSIZE"
      using b n by (simp add: buff_content_length) (simp add: ssl_queue_def buff_wf_def)
    have pay: "payload q (os (env c) (now (env c)) q) = bs"
      by (simp add: q_def bs_def)
    have "bwf ?c"
      using wf buff.put_wf [OF b len] by (simp add: bwf_def que)
    moreover have "relayed c ?c"
      unfolding relayed_def str que
      by (auto simp: pay buff.put_content [OF b len] passed_refl passed_in)
        (auto simp: q_def passed_refl passed_in)
    ultimately show ?thesis by simp
  qed
  with env show ?thesis by (simp add: relay_def)
qed

lemma sound_quiet [frame_intros]:
  "sound (update_wants v)" "sound (setup_fds v)" "sound (await_event v)" "sound (retrieve v)"
  "sound (exceptions v)" "sound (hangups v)" "sound check_renegotiation" "sound (send_close_notify v)"
  "sound (tls_readable v)" "sound (tls_gone a p)" "sound tls_zero_return" "sound (check_hangup v)"
  "sound (check_shutdown v)" "sound (check_watchdog v)" "sound parse_socket_error"
  by (rule sound_tame; rule frame_intros)+

lemma env_step_cli [simp]:
  "sock_buff (env_step q c) = sock_buff c" "ssl_buff (env_step q c) = ssl_buff c"
  "sock_ptr (env_step q c) = sock_ptr c" "ssl_ptr (env_step q c) = ssl_ptr c"
  "reneg_state (env_step q c) = reneg_state c"
  by (simp_all add: env_step_def)

lemma write_bound:
  assumes "bwf c"
  shows "nat (a_ret (os (env c) k (Write f (take (ssl_ptr c) (ssl_buff c))))) \<le> ssl_ptr c"
    "nat (a_ret (os (env c) k (Ssl_write (take (sock_ptr c) (sock_buff c))))) \<le> sock_ptr c"
  using assms os_okD [of "os (env c)" "Write f (take (ssl_ptr c) (ssl_buff c))" k]
    os_okD [of "os (env c)" "Ssl_write (take (sock_ptr c) (sock_buff c))" k]
  by (auto simp: bwf_def)

lemma read_bound:
  assumes "bwf c"
  shows "sock_ptr c + length (a_data (os (env c) k (Read f (BUFFSIZE - sock_ptr c)))) \<le> length (sock_buff c)"
    "ssl_ptr c + length (a_data (os (env c) k (Ssl_read (BUFFSIZE - ssl_ptr c)))) \<le> length (ssl_buff c)"
    "sock_ptr c \<le> BUFFSIZE" "ssl_ptr c \<le> BUFFSIZE"
proof -
  have f: "length (sock_buff c) = BUFFSIZE" "length (ssl_buff c) = BUFFSIZE" "sock_ptr c \<le> BUFFSIZE"
    "ssl_ptr c \<le> BUFFSIZE" "os_ok (os (env c))"
    using assms by (auto simp: bwf_def buff_wf_def sock_queue_def ssl_queue_def)
  from f show "sock_ptr c \<le> BUFFSIZE" "ssl_ptr c \<le> BUFFSIZE" by simp_all
  have "length (a_data (os (env c) k (Read f n))) \<le> n" "length (a_data (os (env c) k (Ssl_read n))) \<le> n" for n
    using os_okD [OF f(5), of "Read f n" k] os_okD [OF f(5), of "Ssl_read n" k] by auto
  from this(1) [of "BUFFSIZE - sock_ptr c"] this(2) [of "BUFFSIZE - ssl_ptr c"] f
  show "sock_ptr c + length (a_data (os (env c) k (Read f (BUFFSIZE - sock_ptr c)))) \<le> length (sock_buff c)"
    "ssl_ptr c + length (a_data (os (env c) k (Ssl_read (BUFFSIZE - ssl_ptr c)))) \<le> length (ssl_buff c)"
    by simp_all
qed

lemma relay_unwf:
  assumes "now (env c) < horizon (env c)" "\<not> bwf c"
  shows "relay c (env_step q c)"
    "relay c ((env_step q c)\<lparr>ssl_sent := s, ssl_rcvd := r, reneg_state := g\<rparr>)"
  using assms env_le_env_step [of c q] by (auto simp: relay_def)

lemma relay_failed_tls:
  assumes "relay c (env_step q c)"
  shows "relay c ((env_step q c)\<lparr>ssl_sent := s, ssl_rcvd := r, reneg_state := g\<rparr>)"
  using assms relay.ssl_step relay.trans by blast

lemmas section_simps = wp_if wp_bindM wp_getM wp_retM wp_sys_step wp_stopM wp_seqM wp_modM Let_def

lemma sound_write_socket [frame_intros]: "sound (write_socket v)"
  unfolding sound_def
proof
  fix c
  let ?q = "Write (sock_wr c) (take (ssl_ptr c) (ssl_buff c))"
  let ?a = "os (env c) (now (env c)) ?q"
  have fail: "relay c (env_step ?q c)" if "now (env c) < horizon (env c)" "a_ret ?a = -1 \<or> a_ret ?a = 0"
    using that by (intro relay_failed) auto
  show "wp (write_socket v) (\<lambda>_. relay c) (\<lambda>k c'. relay c c' \<and> (bwf c \<longrightarrow> k \<noteq> Overflow)) c"
    unfolding write_socket_def section_simps
    using fail relay_write [of c] write_bound(1) [of c "now (env c)" "sock_wr c"] relay_unwf(1) [of c ?q]
    by (auto simp: relay.refl intro!: wp_sound [OF sound_quiet(15)] dest: leD)
qed

lemma sound_read_socket [frame_intros]: "sound (read_socket v)"
  unfolding sound_def
proof
  fix c
  let ?q = "Read (sock_rd c) (BUFFSIZE - sock_ptr c)"
  let ?a = "os (env c) (now (env c)) ?q"
  have fail: "relay c (env_step ?q c)" if "now (env c) < horizon (env c)" "a_ret ?a = -1 \<or> a_ret ?a = 0"
    using that os_okD [of "os (env c)" ?q "now (env c)"] by (intro relay_failed) auto
  show "wp (read_socket v) (\<lambda>_. relay c) (\<lambda>k c'. relay c c' \<and> (bwf c \<longrightarrow> k \<noteq> Overflow)) c"
    unfolding read_socket_def section_simps
    using fail relay_read [of c] read_bound(1) [of c "now (env c)" "sock_rd c"]
      read_bound(3) [of c] relay_unwf(1) [of c ?q]
    by (auto simp: relay.refl intro!: wp_sound [OF sound_quiet(15)] dest: leD)
qed

lemma wp_ssl_step:
  "wp (ssl_sys q) Q E c = (if now (env c) < horizon (env c)
     then let a = os (env c) (now (env c)) q
          in Q a ((env_step q c)\<lparr>ssl_sent := a_sent a, ssl_rcvd := a_rcvd a,
                 reneg_state := (if a_reneg a \<and> reneg_state c = RENEG_ESTABLISHED
                                 then RENEG_DETECTED else reneg_state c)\<rparr>)
     else E Blocked c)"
  by (simp add: ssl_sys_def wp_bindM wp_seqM wp_modM wp_retM wp_sys_step Let_def)

lemma tls_failed:
  assumes "now (env c) < horizon (env c)"
    and "a_ssl (os (env c) (now (env c)) q) \<noteq> SSL_NONE \<or> a_ret (os (env c) (now (env c)) q) = 0"
    and "q = Ssl_write bs \<or> q = Ssl_read n"
  shows "relay c ((env_step q c)\<lparr>ssl_sent := s, ssl_rcvd := r, reneg_state := g\<rparr>)"
proof (rule relay_failed_tls, rule relay_failed [OF assms(1)])
  assume "os_ok (os (env c))"
  then show "payload q (os (env c) (now (env c)) q) = []"
    using assms(2,3) os_okD [of "os (env c)" q "now (env c)"] by auto
qed

lemma sound_write_tls [frame_intros]: "sound (write_tls v)"
  unfolding sound_def
proof
  fix c :: cli
  let ?q = "Ssl_write (take (sock_ptr c) (sock_buff c))"
  let ?a = "os (env c) (now (env c)) ?q"
  note fail = tls_failed [of c ?q, OF _ _ disjI1 [OF refl]]
  show "wp (write_tls v) (\<lambda>_. relay c) (\<lambda>k c'. relay c c' \<and> (bwf c \<longrightarrow> k \<noteq> Overflow)) c"
    unfolding write_tls_def section_simps wp_ssl_step
    using fail relay_tls_write [of c] write_bound(2) [of c "now (env c)"] relay_unwf(2) [where q = ?q and c = c]
    by (cases "bwf c"; cases "a_ssl ?a")
     (auto simp: relay.refl section_simps intro!: wp_sound [OF sound_quiet(10)] wp_sound [OF sound_quiet(11)] dest: leD)
qed

lemma sound_tls_receive [frame_intros]: "sound (tls_receive v)"
  unfolding sound_def
proof
  fix c :: cli
  let ?q = "Ssl_read (BUFFSIZE - ssl_ptr c)"
  let ?a = "os (env c) (now (env c)) ?q"
  note fail = tls_failed [of c ?q, OF _ _ disjI2 [OF refl]]
  show "wp (tls_receive v) (\<lambda>_. relay c) (\<lambda>k c'. relay c c' \<and> (bwf c \<longrightarrow> k \<noteq> Overflow)) c"
    unfolding tls_receive_def section_simps wp_ssl_step
    using fail relay_tls_read [of c] read_bound(2) [of c "now (env c)"] read_bound(4) [of c]
      relay_unwf(2) [where q = ?q and c = c]
    by (cases "bwf c"; cases "a_ssl ?a")
     (auto simp: relay.refl section_simps intro!: wp_sound [OF sound_quiet(10)] wp_sound [OF sound_quiet(11)] dest: leD)
qed

lemma sound_read_tls [frame_intros]: "sound (read_tls v)"
  unfolding read_tls_def by (auto intro!: sound_bindM sound_basic frame_intros)

lemma sound_transfer_round: "sound (transfer_round v)"
  unfolding transfer_round_def transfer_work_def transfer_moves_def
  by (auto intro!: sound_bindM sound_seqM sound_basic frame_intros)

lemma sound_loop: "sound (loopM transfer_round v)"
  by (intro sound_loopM sound_transfer_round)


section \<open>Waits and bytes\<close>

text \<open>\<open>volume c\<close>: all bytes moved so far; \<open>waits c\<close>: the polls that were not interrupted.\<close>

definition volume_in :: "(req \<times> ans) list \<Rightarrow> nat" where
  "volume_in t = (\<Sum>(q, a) \<leftarrow> t. if channel q = None then 0 else length (payload q a))"

definition volume :: "cli \<Rightarrow> nat" where
  "volume c = volume_in (trace (env c))"

fun wait1 :: "req \<Rightarrow> ans \<Rightarrow> nat" where
  "wait1 (Poll ps t) a = (if a_ret a < 0 \<and> a_errno a = EINTR then 0 else 1)"
| "wait1 q a = 0"

definition waits_in :: "(req \<times> ans) list \<Rightarrow> nat" where
  "waits_in t = (\<Sum>(q, a) \<leftarrow> t. wait1 q a)"

definition waits :: "cli \<Rightarrow> nat" where
  "waits c = waits_in (trace (env c))"

lemma volume_env_step [simp]:
  "volume (env_step q c) = volume c +
    (if channel q = None then 0 else length (payload q (os (env c) (now (env c)) q)))"
  by (simp add: volume_def volume_in_def env_step_def)

lemma waits_env_step [simp]:
  "waits (env_step q c) = waits c + wait1 q (os (env c) (now (env c)) q)"
  by (simp add: waits_def waits_in_def env_step_def)

text \<open>Requests that neither wait nor transfer, and their frame.\<close>

definition silent :: "req \<Rightarrow> bool" where
  "silent q \<longleftrightarrow> channel q = None \<and> (\<forall>ps t. q \<noteq> Poll ps t)"

lemma silent_wait: "silent q \<Longrightarrow> wait1 q a = 0"
  by (cases q) (auto simp: silent_def)

definition still :: "cli \<Rightarrow> cli \<Rightarrow> bool" where
  "still c c' \<longleftrightarrow> os (env c') = os (env c) \<and> volume c' = volume c \<and> waits c' = waits c"

interpretation still: frame_rel still silent
proof unfold_locales
  fix q and c :: cli
  assume "silent q"
  then show "still c (env_step q c)" by (auto simp: still_def silent_wait) (simp add: silent_def)
qed (auto simp: still_def volume_def waits_def)

lemma still_same: "env c' = env c \<Longrightarrow> still c c'"
  by (simp add: still_def volume_def waits_def)

text \<open>The sections that move nothing keep the watchdog and never reopen the read side.\<close>

definition keeps_locals :: "xfer \<Rightarrow> xfer \<Rightarrow> bool" where
  "keeps_locals v v' \<longleftrightarrow> watchdog v' = watchdog v \<and> (sock_open_rd v' \<longrightarrow> sock_open_rd v)"

lemma quiet_locals:
  "returns (keeps_locals v) (update_wants v)" "returns (keeps_locals v) (retrieve v)"
  "returns (keeps_locals v) (hangups v)" "returns (keeps_locals v) (send_close_notify v)"
  "returns (keeps_locals v) (check_hangup v)"
  unfolding update_wants_def retrieve_def hangups_def send_close_notify_def check_hangup_def
  by (auto intro!: returns_rules simp: keeps_locals_def Let_def split: ssl_error.split)

lemma check_shutdown_locals: "returns (keeps_locals v) (check_shutdown v)"
  unfolding check_shutdown_def close_socket_side_def close_tls_side_def
  by (rule returns_bind2 [where Q = "keeps_locals v"])
   (auto intro!: returns_rules simp: keeps_locals_def Let_def)

lemma still_parts [frame_intros]:
  "keeps still (update_wants v)" "keeps still (setup_fds v)" "keeps still (retrieve v)"
  "keeps still (exceptions v)" "keeps still (hangups v)" "keeps still check_renegotiation"
  "keeps still (send_close_notify v)" "keeps still parse_socket_error" "keeps still (tls_readable v)"
  "keeps still (tls_gone a p)" "keeps still tls_zero_return" "keeps still (check_hangup v)"
  "keeps still (check_shutdown v)" "keeps still (check_watchdog v)"
  unfolding update_wants_def setup_fds_def retrieve_def exceptions_def report_error_def
    hangups_def check_renegotiation_def send_close_notify_def tls_readable_def tls_gone_def
    tls_zero_return_def check_hangup_def check_shutdown_def close_socket_side_def close_tls_side_def check_watchdog_def hung_def drained_def
    get_socket_error_def poll_init_def set_shutdown_def parse_socket_error_def
  by (auto intro!: still.rules still.modM frame_intros simp: still_same silent_def Let_def
      split: ssl_error.split)

text \<open>One section: nothing is waited for, and the watchdog is kept or, when data moved, reset.\<close>

definition counted :: "xfer \<Rightarrow> cli \<Rightarrow> xfer \<Rightarrow> cli \<Rightarrow> bool" where
  "counted v c v' c' \<longleftrightarrow> os (env c') = os (env c) \<and> waits c' = waits c \<and> volume c \<le> volume c' \<and>
     (sock_open_rd v' \<longrightarrow> sock_open_rd v) \<and>
     (watchdog v' = watchdog v \<or> watchdog v' = 0 \<and> volume c < volume c')"

definition counting :: "xfer \<Rightarrow> xfer cm \<Rightarrow> bool" where
  "counting v m \<longleftrightarrow> (\<forall>c. os_ok (os (env c)) \<longrightarrow>
     wp m (counted v c) (\<lambda>k c'. waits c' = waits c \<and> volume c \<le> volume c') c)"

lemma counted_trans: "counted v c v' c' \<Longrightarrow> counted v' c' v'' c'' \<Longrightarrow> counted v c v'' c''"
  by (auto simp: counted_def)

lemma wp_counting:
  assumes "counting v' m" "counted v c v' c1" "os_ok (os (env c))"
    and "\<And>v'' c2. counted v c v'' c2 \<Longrightarrow> Q v'' c2"
    and "\<And>k c2. waits c2 = waits c \<Longrightarrow> volume c \<le> volume c2 \<Longrightarrow> E k c2"
  shows "wp m Q E c1"
proof -
  have "wp m (counted v' c1) (\<lambda>k c'. waits c' = waits c1 \<and> volume c1 \<le> volume c') c1"
  proof -
    have "os_ok (os (env c1))" using assms(2,3) by (simp add: counted_def)
    with assms(1) show ?thesis unfolding counting_def by blast
  qed
  then show ?thesis
    by (rule wp_mono)
      (use assms(2) in \<open>auto intro!: assms(4,5) intro: counted_trans simp: counted_def\<close>)
qed

lemma counting_still:
  assumes "keeps still m" "returns (keeps_locals v) m"
  shows "counting v m"
  unfolding counting_def
proof (intro allI impI)
  fix c
  have "wp m (\<lambda>_. still c) (\<lambda>_. still c) c" using assms(1) by (simp add: keeps_def)
  from wp_returns [OF assms(2) this]
  show "wp m (counted v c) (\<lambda>k c'. waits c' = waits c \<and> volume c \<le> volume c') c"
    by (rule wp_mono) (auto simp: still_def counted_def keeps_locals_def)
qed

lemma counting_bindM:
  assumes "counting v m" "\<And>v'. counting v' (f v')"
  shows "counting v (bindM m f)"
  unfolding counting_def wp_bindM
proof (intro allI impI)
  fix c :: cli
  assume ok: "os_ok (os (env c))"
  show "wp m (\<lambda>a. wp (f a) (counted v c) (\<lambda>k c'. waits c' = waits c \<and> volume c \<le> volume c'))
    (\<lambda>k c'. waits c' = waits c \<and> volume c \<le> volume c') c"
    by (rule wp_counting [OF assms(1) _ ok]) (auto simp: counted_def intro: wp_counting [OF assms(2) _ ok])
qed

lemma counting_bind_still:
  assumes m: "keeps still m" and f: "\<And>a. counting v (f a)"
  shows "counting v (bindM m f)"
  unfolding counting_def wp_bindM
proof (intro allI impI)
  fix c :: cli
  assume ok: "os_ok (os (env c))"
  show "wp m (\<lambda>a. wp (f a) (counted v c) (\<lambda>k c'. waits c' = waits c \<and> volume c \<le> volume c'))
    (\<lambda>k c'. waits c' = waits c \<and> volume c \<le> volume c') c"
  proof (rule wp_keeps [OF m])
    fix a c1
    assume "still c c1"
    then show "wp (f a) (counted v c) (\<lambda>k c'. waits c' = waits c \<and> volume c \<le> volume c') c1"
      using ok by (intro wp_counting [OF f]) (auto simp: counted_def still_def)
  qed (auto simp: still_def)
qed

lemma counting_seqM: "keeps still m \<Longrightarrow> counting v m' \<Longrightarrow> counting v (seqM m m')"
  by (simp add: seqM_def counting_bind_still)

lemma counted_self: "counted v c v c"
  by (simp add: counted_def)

lemma wp_still:
  assumes "keeps still m" "counted v c v' c1"
    and "\<And>a c2. counted v c v' c2 \<Longrightarrow> Q a c2"
    and "\<And>k c2. waits c2 = waits c \<Longrightarrow> volume c \<le> volume c2 \<Longrightarrow> E k c2"
  shows "wp m Q E c1"
  using assms(1) by (rule wp_keeps) (use assms(2) in \<open>auto simp: still_def counted_def intro!: assms(3,4)\<close>)

lemma env_volume:
  "volume (c\<lparr>ssl_sent := s, ssl_rcvd := r, reneg_state := g\<rparr>) = volume c"
  "waits (c\<lparr>ssl_sent := s, ssl_rcvd := r, reneg_state := g\<rparr>) = waits c"
  "volume (c\<lparr>ssl_buff := b, ssl_ptr := n\<rparr>) = volume c" "waits (c\<lparr>ssl_buff := b, ssl_ptr := n\<rparr>) = waits c"
  "volume (c\<lparr>sock_buff := b, sock_ptr := n\<rparr>) = volume c" "waits (c\<lparr>sock_buff := b, sock_ptr := n\<rparr>) = waits c"
  "volume (c\<lparr>ssl_buff := b, ssl_ptr := n, sock_bytes := w\<rparr>) = volume c"
  "waits (c\<lparr>ssl_buff := b, ssl_ptr := n, sock_bytes := w\<rparr>) = waits c"
  "volume (c\<lparr>sock_buff := b, sock_ptr := n, ssl_bytes := w\<rparr>) = volume c"
  "waits (c\<lparr>sock_buff := b, sock_ptr := n, ssl_bytes := w\<rparr>) = waits c"
  by (simp_all add: volume_def waits_def)

lemma counting_movers:
  "counting v (write_socket v)" "counting v (read_socket v)"
proof -
  show "counting v (write_socket v)"
    unfolding counting_def
  proof (intro allI impI)
    fix c :: cli
    assume "os_ok (os (env c))"
    then show "wp (write_socket v) (counted v c) (\<lambda>k c'. waits c' = waits c \<and> volume c \<le> volume c') c"
      using os_okD [of "os (env c)" "Write (sock_wr c) (take (ssl_ptr c) (ssl_buff c))" "now (env c)"]
      unfolding write_socket_def section_simps
      by (auto intro!: wp_still [OF still_parts(8), where v = v and v' = v and c = c] simp: env_volume counted_def)
  qed
  show "counting v (read_socket v)"
    unfolding counting_def
  proof (intro allI impI)
    fix c :: cli
    assume "os_ok (os (env c))"
    then show "wp (read_socket v) (counted v c) (\<lambda>k c'. waits c' = waits c \<and> volume c \<le> volume c') c"
      using os_okD [of "os (env c)" "Read (sock_rd c) (BUFFSIZE - sock_ptr c)" "now (env c)"]
      unfolding read_socket_def section_simps
      by (auto intro!: wp_still [OF still_parts(8), where v = v and v' = v and c = c] simp: env_volume counted_def)
  qed
qed

lemma counting_tls:
  "counting v (write_tls v)" "counting v (tls_receive v)"
proof -
  show "counting v (write_tls v)"
    unfolding counting_def
  proof (intro allI impI)
    fix c :: cli
    let ?q = "Ssl_write (take (sock_ptr c) (sock_buff c))"
    assume "os_ok (os (env c))"
    then show "wp (write_tls v) (counted v c) (\<lambda>k c'. waits c' = waits c \<and> volume c \<le> volume c') c"
      using os_okD [of "os (env c)" ?q "now (env c)"]
      unfolding write_tls_def section_simps wp_ssl_step
      by (cases "a_ssl (os (env c) (now (env c)) ?q)")
        (auto intro!: wp_still [OF still_parts(10), where v = v and v' = v and c = c]
          wp_still [OF still_parts(11), where v = v and v' = v and c = c] simp: env_volume counted_def section_simps)
  qed
  show "counting v (tls_receive v)"
    unfolding counting_def
  proof (intro allI impI)
    fix c :: cli
    let ?q = "Ssl_read (BUFFSIZE - ssl_ptr c)"
    assume "os_ok (os (env c))"
    then show "wp (tls_receive v) (counted v c) (\<lambda>k c'. waits c' = waits c \<and> volume c \<le> volume c') c"
      using os_okD [of "os (env c)" ?q "now (env c)"]
      unfolding tls_receive_def section_simps wp_ssl_step
      by (cases "a_ssl (os (env c) (now (env c)) ?q)")
        (auto intro!: wp_still [OF still_parts(10), where v = v and v' = v and c = c]
          wp_still [OF still_parts(11), where v = v and v' = v and c = c] simp: env_volume counted_def section_simps)
  qed
qed

lemma counting_retM: "counting v (retM v)"
  by (simp add: counting_def wp_retM counted_def)

lemma counting_read_tls: "counting v (read_tls v)"
  unfolding read_tls_def
  by (intro counting_bind_still still_parts) (simp add: counting_tls counting_retM)

lemmas counting_parts = quiet_locals [THEN counting_still [rotated]] check_shutdown_locals [THEN counting_still [rotated]]
  counting_movers counting_tls counting_read_tls

lemma counting_moves: "counting v (transfer_moves v)"
  unfolding transfer_moves_def
  by (intro counting_bindM counting_seqM counting_parts still_parts)

lemma poll_wait_waits:
  "wp (s_poll_wait s t) (\<lambda>_ c'. volume c' = volume c \<and> waits c' \<le> waits c + 1 \<and> os (env c') = os (env c))
     (\<lambda>_ c'. volume c' = volume c \<and> waits c' = waits c) c"
  unfolding s_poll_wait_def
proof (rule wp_loopM [where I = "\<lambda>_ c'. volume c' = volume c \<and> waits c' = waits c \<and>
    os (env c') = os (env c)"], goal_cases)
  case (2 a c1)
  then show ?case
    by (auto simp: section_simps volume_def waits_def) (auto simp: env_step_def volume_in_def waits_in_def)
qed auto

lemma await_event_waits:
  "wp (await_event v) (\<lambda>_ c'. volume c' = volume c \<and> waits c' \<le> waits c + 1 \<and> os (env c') = os (env c))
     (\<lambda>_ c'. volume c' = volume c \<and> waits c' \<le> waits c + 1) c"
  unfolding await_event_def section_simps
  by (rule wp_mono [OF poll_wait_waits]) auto


text \<open>The invariant of the loop: every wait without progress is on the watchdog, and a byte
  buys at most 101 of them.\<close>

definition paid :: "cli \<Rightarrow> xfer \<Rightarrow> cli \<Rightarrow> bool" where
  "paid c0 v c \<longleftrightarrow> os (env c) = os (env c0) \<and> volume c0 \<le> volume c \<and> watchdog v \<le> 100 \<and>
     waits c \<le> waits c0 + 101 * (volume c - volume c0) + watchdog v"

definition bounded_waits :: "cli \<Rightarrow> cli \<Rightarrow> bool" where
  "bounded_waits c0 c \<longleftrightarrow> waits c \<le> waits c0 + 101 * (volume c - volume c0 + 1)"

lemma paid_bounded: "paid c0 v c \<Longrightarrow> bounded_waits c0 c"
  by (simp add: paid_def bounded_waits_def)

lemma round_pays:
  assumes p: "paid c0 v c" and ok: "os_ok (os (env c0))"
  shows "wp (transfer_round v) (\<lambda>r c'. case r of Inl _ \<Rightarrow> bounded_waits c0 c' | Inr w \<Rightarrow> paid c0 w c')
    (\<lambda>_. bounded_waits c0) c"
proof -
  have work: "wp (transfer_work v1) (\<lambda>w c'. paid c0 w c' \<and> bounded_waits c0 c') (\<lambda>_. bounded_waits c0) c1"
    if v1: "watchdog v1 = watchdog v" and c1: "os (env c1) = os (env c0)" "volume c1 = volume c"
      "waits c1 \<le> waits c + 1" for v1 c1
    unfolding transfer_work_def wp_bindM
  proof (rule wp_counting [OF counting_moves counted_self])
    show "os_ok (os (env c1))" using ok c1 by simp
    fix v2 c2
    assume "counted v1 c1 v2 c2"
    then show "wp (check_watchdog v2) (\<lambda>w c'. paid c0 w c' \<and> bounded_waits c0 c') (\<lambda>_. bounded_waits c0) c2"
      using p c1 v1
      by (auto simp: check_watchdog_def Let_def wp_if wp_stopM wp_retM paid_def bounded_waits_def counted_def)
  next
    fix k c2
    assume "waits c2 = waits c1" "volume c1 \<le> volume c2"
    then show "bounded_waits c0 c2"
      using p c1 by (auto simp: bounded_waits_def paid_def)
  qed
  have rest: "wp (bindM (await_event v1) (\<lambda>go.
    if \<not> go then retM (Inl ())
    else bindM (transfer_work v1) (\<lambda>w.
      bindM (getM ssl_sent) (\<lambda>sent.
        retM (if sock_open_wr w \<or> \<not> sent \<or> shutdown_wants_read w \<or> shutdown_wants_write w
              then Inr w else Inl ())))))
    (\<lambda>r c'. case r of Inl _ \<Rightarrow> bounded_waits c0 c' | Inr w \<Rightarrow> paid c0 w c') (\<lambda>_. bounded_waits c0) c1"
    if v1: "watchdog v1 = watchdog v" and c1: "still c c1" for v1 c1
    unfolding wp_bindM
  proof (rule wp_mono [OF await_event_waits])
    fix go c2
    assume "volume c2 = volume c1 \<and> waits c2 \<le> waits c1 + 1 \<and> os (env c2) = os (env c1)"
    then have c2: "os (env c2) = os (env c0)" "volume c2 = volume c" "waits c2 \<le> waits c + 1"
      using c1 p by (auto simp: still_def paid_def)
    then have "bounded_waits c0 c2" using p by (simp add: bounded_waits_def paid_def)
    with work [OF v1 c2] show "wp (if \<not> go then retM (Inl ())
      else bindM (transfer_work v1) (\<lambda>w. bindM (getM ssl_sent) (\<lambda>sent.
        retM (if sock_open_wr w \<or> \<not> sent \<or> shutdown_wants_read w \<or> shutdown_wants_write w
              then Inr w else Inl ()))))
      (\<lambda>r c'. case r of Inl _ \<Rightarrow> bounded_waits c0 c' | Inr w \<Rightarrow> paid c0 w c') (\<lambda>_. bounded_waits c0) c2"
      by (auto simp: section_simps elim!: wp_mono)
  next
    fix k c2
    assume "volume c2 = volume c1 \<and> waits c2 \<le> waits c1 + 1"
    then show "bounded_waits c0 c2"
      using c1 p by (auto simp: bounded_waits_def paid_def still_def)
  qed
  have fin: "wp (seqM (setup_fds v1) (bindM (await_event v1) (\<lambda>go.
    if \<not> go then retM (Inl ())
    else bindM (transfer_work v1) (\<lambda>w.
      bindM (getM ssl_sent) (\<lambda>sent.
        retM (if sock_open_wr w \<or> \<not> sent \<or> shutdown_wants_read w \<or> shutdown_wants_write w
              then Inr w else Inl ()))))))
    (\<lambda>r c'. case r of Inl _ \<Rightarrow> bounded_waits c0 c' | Inr w \<Rightarrow> paid c0 w c') (\<lambda>_. bounded_waits c0) c"
    if "watchdog v1 = watchdog v" for v1
    unfolding wp_seqM
    using p by (intro wp_keeps [OF still_parts(2)] rest that) (auto simp: bounded_waits_def paid_def still_def)
  show ?thesis
    unfolding transfer_round_def update_wants_def wp_bindM [of "getM _"] wp_getM
    by (rule fin) (simp add: Let_def)
qed

lemma transfer_bounded_waits:
  assumes "os_ok (os (env c))"
  shows "bounded_waits c (res_state (transfer c))"
proof -
  let ?c = "c\<lparr>sock_ptr := 0, ssl_ptr := 0\<rparr>"
  have "wp (loopM transfer_round xfer_start) (\<lambda>_. bounded_waits ?c) (\<lambda>_. bounded_waits ?c) ?c"
    by (rule wp_loopM [where I = "paid ?c"])
      (use round_pays [of ?c] assms in \<open>auto simp: paid_bounded, auto simp: paid_def xfer_start_def\<close>)
  then have "bounded_waits ?c (res_state (loopM transfer_round xfer_start ?c))"
    by (simp add: wp_res_state)
  then show ?thesis
    by (simp add: transfer_def seqM_def bindM_def modM_def bounded_waits_def waits_def volume_def)
qed


section \<open>The order of closing\<close>

text \<open>\<open>flushed_when P i o t\<close>: whenever the trace \<open>t\<close> makes a request in \<open>P\<close>, all that came in on
  \<open>i\<close> has gone out on \<open>o\<close>.\<close>

definition flushed_when :: "(req \<Rightarrow> bool) \<Rightarrow> chan \<Rightarrow> chan \<Rightarrow> (req \<times> ans) list \<Rightarrow> bool" where
  "flushed_when P i j t \<longleftrightarrow>
    (\<forall>t1 x t2. t = t1 @ x # t2 \<longrightarrow> P (fst x) \<longrightarrow> moved i t1 = moved j t1)"

text \<open>\<open>silent_after P i t\<close>: after a request in \<open>P\<close> nothing comes in on \<open>i\<close>.\<close>

definition silent_after :: "(req \<Rightarrow> bool) \<Rightarrow> chan \<Rightarrow> (req \<times> ans) list \<Rightarrow> bool" where
  "silent_after P i t \<longleftrightarrow> (\<forall>t1 x t2. t = t1 @ x # t2 \<longrightarrow> P (fst x) \<longrightarrow> moved i t2 = [])"

lemma snoc_split: "t @ [y] = t1 @ x # t2 \<longleftrightarrow> (t2 = [] \<and> t1 = t \<and> x = y) \<or> (\<exists>u. t2 = u @ [y] \<and> t = t1 @ x # u)"
  by (cases t2 rule: rev_cases) auto

lemma flushed_when_none: "\<forall>x \<in> set t. \<not> P (fst x) \<Longrightarrow> flushed_when P i j t"
  by (auto simp: flushed_when_def)

lemma silent_after_none: "\<forall>x \<in> set t. \<not> P (fst x) \<Longrightarrow> silent_after P i t"
  by (auto simp: silent_after_def)

lemma flushed_when_snoc:
  "flushed_when P i j t \<Longrightarrow> (P (fst y) \<Longrightarrow> moved i t = moved j t) \<Longrightarrow> flushed_when P i j (t @ [y])"
  by (auto simp: flushed_when_def snoc_split)

lemma silent_after_snoc:
  "silent_after P i t \<Longrightarrow> channel (fst y) \<noteq> Some i \<Longrightarrow> silent_after P i (t @ [y])"
  by (auto simp: silent_after_def snoc_split)

lemma flushed_when_append:
  "flushed_when P i j t \<Longrightarrow> \<forall>x \<in> set u. \<not> P (fst x) \<Longrightarrow> flushed_when P i j (t @ u)"
proof (induction u rule: rev_induct)
  case (snoc y u)
  then show ?case using flushed_when_snoc [of P i j "t @ u" y] by simp
qed simp

lemma silent_after_append:
  "silent_after P i t \<Longrightarrow> \<forall>x \<in> set u. channel (fst x) \<noteq> Some i \<Longrightarrow> silent_after P i (t @ u)"
proof (induction u rule: rev_induct)
  case (snoc y u)
  then show ?case using silent_after_snoc [of P i "t @ u" y] by simp
qed simp

text \<open>A step that neither alerts the peer nor reads from the descriptor \<open>f\<close>, and buffers
  nothing more.\<close>

definition calm_req :: "int \<Rightarrow> req \<Rightarrow> bool" where
  "calm_req f q \<longleftrightarrow> q \<noteq> Ssl_shutdown \<and> channel q \<noteq> Some (In f)"

definition calm :: "int \<Rightarrow> cli \<Rightarrow> cli \<Rightarrow> bool" where
  "calm f c c' \<longleftrightarrow> asks (calm_req f) c c' \<and> sock_ptr c' \<le> sock_ptr c"

interpretation calm: frame_rel "calm f" "calm_req f" for f
proof unfold_locales
  fix a b c
  assume "calm f a b" "calm f b c"
  then show "calm f a c" by (auto simp: calm_def intro: asks.trans)
next
  fix q and c :: cli
  assume "calm_req f q" "now (env c) < horizon (env c)"
  then show "calm f c (env_step q c)" by (simp add: calm_def asks.env_step)
qed (auto simp: calm_def asks_def)

lemma calm_same: "env c' = env c \<Longrightarrow> sock_ptr c' \<le> sock_ptr c \<Longrightarrow> calm f c c'"
  by (simp add: calm_def asks_def)

lemma calm_poll [frame_intros]: "keeps (calm f) (s_poll_wait s t)" "keeps (calm f) poll_init"
  unfolding s_poll_wait_def poll_init_def
  by (auto intro!: calm.rules calm.modM frame_intros simp: calm_req_def calm_same)

lemma calm_parts [frame_intros]:
  "keeps (calm f) (update_wants v)" "keeps (calm f) (setup_fds v)" "keeps (calm f) (await_event v)"
  "keeps (calm f) (retrieve v)" "keeps (calm f) (exceptions v)" "keeps (calm f) (hangups v)"
  "keeps (calm f) check_renegotiation" "keeps (calm f) parse_socket_error"
  "keeps (calm f) (tls_readable v)" "keeps (calm f) (tls_gone a p)" "keeps (calm f) tls_zero_return"
  "keeps (calm f) (check_hangup v)" "keeps (calm f) (close_socket_side v)"
  "keeps (calm f) (close_tls_side v)" "keeps (calm f) (check_watchdog v)"
  unfolding update_wants_def setup_fds_def await_event_def retrieve_def exceptions_def report_error_def
    hangups_def check_renegotiation_def tls_readable_def tls_gone_def
    tls_zero_return_def check_hangup_def close_socket_side_def close_tls_side_def check_watchdog_def
    hung_def drained_def get_socket_error_def set_shutdown_def parse_socket_error_def
  by (auto intro!: calm.rules calm.modM frame_intros simp: calm_same calm_req_def Let_def
      split: ssl_error.split)

lemma calm_movers [frame_intros]:
  "keeps (calm f) (write_socket v)" "keeps (calm f) (write_tls v)" "keeps (calm f) (tls_receive v)"
  unfolding write_socket_def write_tls_def tls_receive_def
  by (auto intro!: calm.rules calm.modM frame_intros simp: calm_same calm_req_def buff_drop_def Let_def
      split: ssl_error.split)

lemma calm_read_tls [frame_intros]: "keeps (calm f) (read_tls v)"
  unfolding read_tls_def by (auto intro!: calm.rules frame_intros)

definition wants_shutdown :: "xfer \<Rightarrow> bool" where
  "wants_shutdown v \<longleftrightarrow> shutdown_wants_read v \<or> shutdown_wants_write v"

definition is_alert :: "req \<Rightarrow> bool" where "is_alert q \<longleftrightarrow> q = Ssl_shutdown"

definition alert_in_order :: "cli \<Rightarrow> (req \<times> ans) list \<Rightarrow> bool" where
  "alert_in_order c0 t \<longleftrightarrow> flushed_when is_alert (In (sock_rd c0)) Tls_out t \<and>
     silent_after is_alert (In (sock_rd c0)) t"

definition alert_stop :: "cli \<Rightarrow> cli \<Rightarrow> bool" where
  "alert_stop c0 c \<longleftrightarrow> (\<exists>t. trace (env c) = trace (env c0) @ t \<and> alert_in_order c0 t)"

definition alert_inv :: "cli \<Rightarrow> xfer \<Rightarrow> cli \<Rightarrow> bool" where
  "alert_inv c0 v c \<longleftrightarrow> relay c0 c \<and> (wants_shutdown v \<longrightarrow> \<not> sock_open_rd v \<and> sock_ptr c = 0) \<and>
     (\<exists>t. trace (env c) = trace (env c0) @ t \<and> alert_in_order c0 t \<and>
        ((\<exists>x \<in> set t. is_alert (fst x)) \<longrightarrow> \<not> sock_open_rd v))"

lemma alert_inv_stop: "alert_inv c0 v c \<Longrightarrow> alert_stop c0 c"
  by (auto simp: alert_inv_def alert_stop_def)

lemma calm_alert:
  assumes "alert_inv c0 v c" "calm (sock_rd c0) c c'"
  obtains u where "trace (env c') = trace (env c) @ u" "\<forall>x \<in> set u. \<not> is_alert (fst x)"
    "alert_stop c0 c'"
proof -
  obtain t where t: "trace (env c) = trace (env c0) @ t" "alert_in_order c0 t"
    using assms(1) by (auto simp: alert_inv_def)
  obtain u where u: "trace (env c') = trace (env c) @ u" "\<forall>x \<in> set u. calm_req (sock_rd c0) (fst x)"
    using assms(2) by (auto simp: calm_def asks_def)
  then have na: "\<forall>x \<in> set u. \<not> is_alert (fst x)" and nc: "\<forall>x \<in> set u. channel (fst x) \<noteq> Some (In (sock_rd c0))"
    by (auto simp: calm_req_def is_alert_def)
  with t have "alert_in_order c0 (t @ u)"
    by (simp add: alert_in_order_def flushed_when_append silent_after_append)
  with t u have "alert_stop c0 c'" by (auto simp: alert_stop_def)
  with u(1) na show ?thesis by (rule that)
qed

text \<open>A calm section keeps the invariant when it asks for a shutdown only with the read side
  closed and the buffer empty.\<close>

lemma alert_calm:
  assumes inv: "alert_inv c0 v c" and m: "keeps (calm (sock_rd c0)) m" "sound m"
    and locals: "wp m (\<lambda>v' c'. (sock_open_rd v' \<longrightarrow> sock_open_rd v) \<and>
      (wants_shutdown v' \<longrightarrow> wants_shutdown v \<or> (\<not> sock_open_rd v' \<and> sock_ptr c' = 0))) (\<lambda>_ _. True) c"
  shows "wp m (alert_inv c0) (\<lambda>_. alert_stop c0) c"
proof -
  have r: "relay c0 c" using inv by (simp add: alert_inv_def)
  have "wp m (\<lambda>_. calm (sock_rd c0) c) (\<lambda>_. calm (sock_rd c0) c) c"
    using m(1) by (simp add: keeps_def)
  moreover have "wp m (\<lambda>_. relay c0) (\<lambda>_. relay c0) c"
    by (rule wp_sound [OF m(2) r])
  ultimately have "wp m (\<lambda>v' c'. calm (sock_rd c0) c c' \<and> relay c0 c' \<and> (sock_open_rd v' \<longrightarrow> sock_open_rd v) \<and>
      (wants_shutdown v' \<longrightarrow> wants_shutdown v \<or> (\<not> sock_open_rd v' \<and> sock_ptr c' = 0)))
      (\<lambda>_ c'. calm (sock_rd c0) c c' \<and> relay c0 c' \<and> True) c"
    using locals by (intro wp_conj)
  then show ?thesis
  proof (rule wp_mono)
    fix v' c'
    assume h: "calm (sock_rd c0) c c' \<and> relay c0 c' \<and> (sock_open_rd v' \<longrightarrow> sock_open_rd v) \<and>
      (wants_shutdown v' \<longrightarrow> wants_shutdown v \<or> (\<not> sock_open_rd v' \<and> sock_ptr c' = 0))"
    then obtain u where u: "trace (env c') = trace (env c) @ u" "\<forall>x \<in> set u. \<not> is_alert (fst x)" "alert_stop c0 c'"
      using calm_alert [OF inv] by blast
    have "sock_ptr c' \<le> sock_ptr c" using h by (simp add: calm_def)
    with u h inv show "alert_inv c0 v' c'"
      by (auto simp: alert_inv_def alert_stop_def) force+
  qed (use calm_alert [OF inv] in blast)
qed

lemma locals_returns:
  assumes "returns (\<lambda>v'. (sock_open_rd v' \<longrightarrow> sock_open_rd v) \<and> (wants_shutdown v' \<longrightarrow> wants_shutdown v)) m"
  shows "wp m (\<lambda>v' c'. (sock_open_rd v' \<longrightarrow> sock_open_rd v) \<and>
      (wants_shutdown v' \<longrightarrow> wants_shutdown v \<or> (\<not> sock_open_rd v' \<and> sock_ptr c' = 0))) (\<lambda>_ _. True) c"
  by (rule wp_mono [OF wp_returns [OF assms]]) (auto simp: wp_def split: res.split)

definition calm_locals :: "xfer \<Rightarrow> xfer \<Rightarrow> bool" where
  "calm_locals v v' \<longleftrightarrow> (sock_open_rd v' \<longrightarrow> sock_open_rd v) \<and> (wants_shutdown v' \<longrightarrow> wants_shutdown v)"

lemma calm_locals_parts:
  "returns (calm_locals v) (update_wants v)" "returns (calm_locals v) (retrieve v)"
  "returns (calm_locals v) (hangups v)" "returns (calm_locals v) (check_hangup v)"
  "returns (calm_locals v) (close_socket_side v)" "returns (calm_locals v) (write_socket v)"
  "returns (calm_locals v) (write_tls v)" "returns (calm_locals v) (tls_receive v)"
  unfolding update_wants_def retrieve_def hangups_def check_hangup_def close_socket_side_def
    write_socket_def write_tls_def tls_receive_def
  by (auto intro!: returns_rules simp: calm_locals_def wants_shutdown_def Let_def split: ssl_error.split)

lemma calm_locals_read_tls: "returns (calm_locals v) (read_tls v)"
  unfolding read_tls_def
  by (auto intro!: returns_bindM returns_retM calm_locals_parts) (simp add: calm_locals_def)

text \<open>\<open>alerting v m\<close>: the section keeps the order.\<close>

definition alerting :: "xfer \<Rightarrow> xfer cm \<Rightarrow> bool" where
  "alerting v m \<longleftrightarrow> (\<forall>c0 c. bwf c0 \<and> sock_ptr c0 = 0 \<and> alert_inv c0 v c \<longrightarrow>
     wp m (alert_inv c0) (\<lambda>_. alert_stop c0) c)"

lemma alerting_calm:
  assumes "\<And>f. keeps (calm f) m" "sound m" "returns (calm_locals v) m"
  shows "alerting v m"
  unfolding alerting_def
proof (intro allI impI)
  fix c0 c
  assume "bwf c0 \<and> sock_ptr c0 = 0 \<and> alert_inv c0 v c"
  then show "wp m (alert_inv c0) (\<lambda>_. alert_stop c0) c"
    using assms(3) unfolding calm_locals_def
    by (intro alert_calm [OF _ assms(1,2)] locals_returns) auto
qed

lemma alerting_bindM:
  assumes "alerting v m" "\<And>v'. alerting v' (f v')"
  shows "alerting v (bindM m f)"
  unfolding alerting_def wp_bindM
proof (intro allI impI)
  fix c0 c
  assume h: "bwf c0 \<and> sock_ptr c0 = 0 \<and> alert_inv c0 v c"
  with assms(1) have "wp m (alert_inv c0) (\<lambda>_. alert_stop c0) c" by (auto simp: alerting_def)
  then show "wp m (\<lambda>a. wp (f a) (alert_inv c0) (\<lambda>_. alert_stop c0)) (\<lambda>_. alert_stop c0) c"
    by (rule wp_mono) (use assms(2) h in \<open>auto simp: alerting_def\<close>)
qed

lemma alerting_seqM:
  assumes m: "\<And>f. keeps (calm f) m" "sound m" and m': "alerting v m'"
  shows "alerting v (seqM m m')"
proof -
  have "alerting v (bindM m (\<lambda>_. retM v))"
  proof (rule alerting_calm)
    show "keeps (calm f) (bindM m (\<lambda>_. retM v))" for f
      using m(1) by (intro calm.bindM calm.retM)
    show "sound (bindM m (\<lambda>_. retM v))"
      using m(2) by (intro sound_bindM sound_basic)
    show "returns (calm_locals v) (bindM m (\<lambda>_. retM v))"
      by (intro returns_bindM returns_retM) (simp add: calm_locals_def)
  qed
  from this show ?thesis
    unfolding alerting_def wp_seqM wp_bindM wp_retM
  proof (intro allI impI)
    fix c0 c
    assume a: "\<forall>c0 c. bwf c0 \<and> sock_ptr c0 = 0 \<and> alert_inv c0 v c \<longrightarrow>
        wp m (\<lambda>_. alert_inv c0 v) (\<lambda>_. alert_stop c0) c"
      and h: "bwf c0 \<and> sock_ptr c0 = 0 \<and> alert_inv c0 v c"
    then have "wp m (\<lambda>_. alert_inv c0 v) (\<lambda>_. alert_stop c0) c" by blast
    then show "wp m (\<lambda>_. wp m' (alert_inv c0) (\<lambda>_. alert_stop c0)) (\<lambda>_. alert_stop c0) c"
      by (rule wp_mono) (use m' h in \<open>auto simp: alerting_def\<close>)
  qed
qed

lemma close_tls_side_locals:
  "wp (close_tls_side v) (\<lambda>v' c'. (sock_open_rd v' \<longrightarrow> sock_open_rd v) \<and>
      (wants_shutdown v' \<longrightarrow> wants_shutdown v \<or> (\<not> sock_open_rd v' \<and> sock_ptr c' = 0))) (\<lambda>_ _. True) c"
  unfolding close_tls_side_def set_shutdown_def section_simps wp_whenM
  by (auto simp: wants_shutdown_def)

lemma sound_sides [frame_intros]: "sound (close_socket_side v)" "sound (close_tls_side v)"
  unfolding close_socket_side_def close_tls_side_def set_shutdown_def
  by (rule sound_tame; auto intro!: relay_intros simp: quiet_def Let_def)+

lemma alerting_close_tls_side: "alerting v (close_tls_side v)"
  unfolding alerting_def
  by (intro allI impI, rule alert_calm [OF _ calm_parts(14) sound_sides(2) close_tls_side_locals]) simp

text \<open>What is buffered is what came in and has not gone out.\<close>

lemma relay_flushed:
  assumes "relay c0 c" "bwf c0" "sock_ptr c0 = 0" "sock_ptr c = 0"
    "trace (env c) = trace (env c0) @ t"
  shows "moved (In (sock_rd c0)) t = moved Tls_out t"
  using assms by (auto simp: relay_def relayed_def passed_def stream_def buff_content_def sock_queue_def)

lemma alert_stop_calm:
  assumes "alert_stop c0 c" "calm (sock_rd c0) c c'"
  shows "alert_stop c0 c'"
proof -
  obtain t where t: "trace (env c) = trace (env c0) @ t" "alert_in_order c0 t"
    using assms(1) by (auto simp: alert_stop_def)
  obtain u where u: "trace (env c') = trace (env c) @ u" "\<forall>x \<in> set u. calm_req (sock_rd c0) (fst x)"
    using assms(2) by (auto simp: calm_def asks_def)
  then have "\<forall>x \<in> set u. \<not> is_alert (fst x)" "\<forall>x \<in> set u. channel (fst x) \<noteq> Some (In (sock_rd c0))"
    by (auto simp: calm_req_def is_alert_def)
  with t have "alert_in_order c0 (t @ u)"
    by (simp add: alert_in_order_def flushed_when_append silent_after_append)
  with t u show ?thesis by (auto simp: alert_stop_def)
qed


lemma wp_calm_stop:
  assumes "alert_stop c0 c" "keeps (calm (sock_rd c0)) m"
    and "\<And>a c'. alert_stop c0 c' \<Longrightarrow> calm (sock_rd c0) c c' \<Longrightarrow> Q a c'"
    and "\<And>k c'. alert_stop c0 c' \<Longrightarrow> E k c'"
  shows "wp m Q E c"
  using assms(2) by (rule wp_keeps) (auto intro: assms(3,4) alert_stop_calm [OF assms(1)])

lemma alert_stop_flags [simp]:
  "alert_stop c0 (c\<lparr>ssl_sent := s, ssl_rcvd := r\<rparr>) = alert_stop c0 c"
  by (simp add: alert_stop_def)

text \<open>After the alert: the read side is closed, and what follows is calm.\<close>

lemma alert_inv_closed:
  assumes "relay c0 c'" "alert_stop c0 c'" "\<not> sock_open_rd v'" "sock_ptr c' = 0"
  shows "alert_inv c0 v' c'"
  using assms by (auto simp: alert_inv_def alert_stop_def)

lemma alerting_send_close_notify: "alerting v (send_close_notify v)"
  unfolding alerting_def
proof (intro allI impI)
  fix c0 c
  assume h: "bwf c0 \<and> sock_ptr c0 = 0 \<and> alert_inv c0 v c"
  show "wp (send_close_notify v) (alert_inv c0) (\<lambda>_. alert_stop c0) c"
  proof (cases "wants_shutdown v")
    case False
    then show ?thesis using h by (simp add: send_close_notify_def wants_shutdown_def wp_retM)
  next
    case True
    with h have closed: "\<not> sock_open_rd v" and empty: "sock_ptr c = 0" and r: "relay c0 c"
      by (auto simp: alert_inv_def)
    obtain t where t: "trace (env c) = trace (env c0) @ t" "alert_in_order c0 t"
      using h by (auto simp: alert_inv_def)
    let ?a = "os (env c) (now (env c)) Ssl_shutdown"
    have ord: "alert_in_order c0 (t @ [(Ssl_shutdown, ?a)])"
      using t(2) relay_flushed [OF r _ _ empty t(1)] h
      by (auto simp: alert_in_order_def intro!: flushed_when_snoc silent_after_snoc)
    have step: "alert_stop c0 ((env_step Ssl_shutdown c)\<lparr>ssl_sent := s, ssl_rcvd := r, reneg_state := g\<rparr>)"
      for s r g
      using ord t(1) by (auto simp: alert_stop_def env_step_def)
    have stop: "alert_stop c0 c" using h alert_inv_stop by blast
    have rel: "wp (send_close_notify v) (\<lambda>_. relay c0) (\<lambda>_ _. True) c"
      by (rule wp_sound [OF sound_quiet(8) r]) auto
    have main: "wp (send_close_notify v) (\<lambda>v' c'. alert_stop c0 c' \<and> \<not> sock_open_rd v' \<and> sock_ptr c' = 0)
      (\<lambda>_. alert_stop c0) c"
      using True closed empty stop unfolding send_close_notify_def section_simps wp_ssl_step
      by (cases "a_ret ?a < 0"; cases "a_ssl ?a")
        (auto simp: wants_shutdown_def section_simps set_shutdown_def calm_def step
          intro!: wp_calm_stop [OF _ calm_parts(8)])
    show ?thesis
      using wp_conj [OF rel main] by (rule wp_mono) (auto intro: alert_inv_closed)
  qed
qed


lemma alerting_read_socket: "alerting v (read_socket v)"
  unfolding alerting_def
proof (intro allI impI)
  fix c0 c
  assume h: "bwf c0 \<and> sock_ptr c0 = 0 \<and> alert_inv c0 v c"
  show "wp (read_socket v) (alert_inv c0) (\<lambda>_. alert_stop c0) c"
  proof (cases "sock_open_rd v")
    case False
    then show ?thesis using h by (simp add: read_socket_def wp_retM)
  next
    case True
    with h have r: "relay c0 c" and nw: "\<not> wants_shutdown v" by (auto simp: alert_inv_def)
    obtain t where t: "trace (env c) = trace (env c0) @ t" "\<forall>x \<in> set t. \<not> is_alert (fst x)"
      using h True by (auto simp: alert_inv_def)
    have rel: "wp (read_socket v) (\<lambda>_. relay c0) (\<lambda>_. relay c0) c"
      by (rule wp_sound [OF sound_read_socket r])
    have asks: "keeps (asks (\<lambda>q. \<not> is_alert q)) (read_socket v)"
      unfolding read_socket_def parse_socket_error_def
      by (auto intro!: asks.rules asks.modM frame_intros simp: is_alert_def asks_def Let_def)
    have ret: "returns (\<lambda>v'. wants_shutdown v' = wants_shutdown v) (read_socket v)"
      unfolding read_socket_def
      by (auto intro!: returns_rules simp: wants_shutdown_def Let_def split: if_splits)
    have "wp (read_socket v) (\<lambda>_. asks (\<lambda>q. \<not> is_alert q) c) (\<lambda>_. asks (\<lambda>q. \<not> is_alert q) c) c"
      using asks by (simp add: keeps_def)
    from wp_conj [OF rel wp_returns [OF ret this]] show ?thesis
    proof (rule wp_mono)
      fix v' c'
      assume a: "relay c0 c' \<and> wants_shutdown v' = wants_shutdown v \<and> asks (\<lambda>q. \<not> is_alert q) c c'"
      then obtain u where "trace (env c') = trace (env c0) @ (t @ u)" "\<forall>x \<in> set (t @ u). \<not> is_alert (fst x)"
        using t by (auto simp: asks_def)
      with a nw show "alert_inv c0 v' c'"
        unfolding alert_inv_def alert_in_order_def
        by (metis flushed_when_none silent_after_none)
    next
      fix k c'
      assume a: "relay c0 c' \<and> asks (\<lambda>q. \<not> is_alert q) c c'"
      then obtain u where "trace (env c') = trace (env c0) @ (t @ u)" "\<forall>x \<in> set (t @ u). \<not> is_alert (fst x)"
        using t by (auto simp: asks_def)
      then show "alert_stop c0 c'"
        unfolding alert_stop_def alert_in_order_def
        by (metis flushed_when_none silent_after_none)
    qed
  qed
qed

lemma alerting_parts:
  "alerting v (update_wants v)" "alerting v (retrieve v)" "alerting v (hangups v)"
  "alerting v (check_hangup v)" "alerting v (close_socket_side v)" "alerting v (write_socket v)"
  "alerting v (write_tls v)" "alerting v (read_tls v)"
  by (rule alerting_calm;
      intro calm_parts calm_movers calm_read_tls sound_quiet sound_sides sound_write_socket sound_write_tls
        sound_read_tls calm_locals_parts calm_locals_read_tls)+

lemma alerting_moves: "alerting v (transfer_moves v)"
  unfolding transfer_moves_def check_shutdown_def
  by (intro alerting_bindM alerting_seqM alerting_parts alerting_send_close_notify alerting_read_socket
      alerting_close_tls_side calm_parts sound_quiet)


lemma alert_stop_cong: "env c' = env c \<Longrightarrow> alert_stop c0 c \<Longrightarrow> alert_stop c0 c'"
  by (simp add: alert_stop_def)

lemma wp_etas:
  "wp (bindM m f) Q E = wp m (\<lambda>a. wp (f a) Q E) E" "wp (seqM m' m'') Q E = wp m' (\<lambda>_. wp m'' Q E) E"
  "wp (retM a) Q E = Q a"
  by (rule ext, simp add: wp_simps)+

definition restart :: "cli \<Rightarrow> cli" where
  "restart c = c\<lparr>sock_ptr := 0, ssl_ptr := 0\<rparr>"

lemma restart_simps [simp]:
  "env (restart c) = env c" "sock_rd (restart c) = sock_rd c" "sock_wr (restart c) = sock_wr c"
  "sock_ptr (restart c) = 0" "ssl_ptr (restart c) = 0" "ssl_bytes (restart c) = ssl_bytes c"
  "sock_bytes (restart c) = sock_bytes c" "sock_buff (restart c) = sock_buff c"
  "ssl_buff (restart c) = ssl_buff c"
proof -
  have "get_fd (restart c) s = get_fd c s" for s by (cases s) (simp_all add: restart_def)
  then show "sock_rd (restart c) = sock_rd c" "sock_wr (restart c) = sock_wr c"
    by (simp_all add: sock_rd_def sock_wr_def) (simp_all add: restart_def)
qed (simp_all add: restart_def)

lemma transfer_state: "transfer c = loopM transfer_round xfer_start (restart c)"
  by (simp add: transfer_def seqM_def bindM_def modM_def restart_def)

lemma bwf_restart:
  "bwf (restart c) \<longleftrightarrow> os_ok (os (env c)) \<and> length (sock_buff c) = BUFFSIZE \<and> length (ssl_buff c) = BUFFSIZE"
  by (auto simp: bwf_def buff_wf_def sock_queue_def ssl_queue_def)

lemma round_alerts:
  assumes h: "bwf c0" "sock_ptr c0 = 0" "alert_inv c0 v c"
  shows "wp (transfer_round v) (\<lambda>r c'. case r of Inl _ \<Rightarrow> alert_stop c0 c' | Inr w \<Rightarrow> alert_inv c0 w c')
    (\<lambda>_. alert_stop c0) c"
proof -
  have work: "wp (transfer_work v1) (\<lambda>w c'. alert_inv c0 w c' \<and> alert_stop c0 c') (\<lambda>_. alert_stop c0) c1"
    if "alert_inv c0 v1 c1" for v1 c1
  proof -
    have "wp (transfer_moves v1) (alert_inv c0) (\<lambda>_. alert_stop c0) c1"
      using alerting_moves [of v1] h that by (auto simp: alerting_def)
    then show ?thesis
      unfolding transfer_work_def wp_bindM
    proof (rule wp_mono)
      fix v2 c2
      assume a: "alert_inv c0 v2 c2"
      then have "alert_stop c0 c2" by (rule alert_inv_stop)
      with a show "wp (check_watchdog v2) (\<lambda>w c'. alert_inv c0 w c' \<and> alert_stop c0 c') (\<lambda>_. alert_stop c0) c2"
        by (auto simp: check_watchdog_def Let_def section_simps alert_inv_def wants_shutdown_def)
    qed
  qed
  have pre: "wp (bindM (update_wants v) (\<lambda>v1. seqM (setup_fds v1) (bindM (await_event v1) (\<lambda>go. retM (v1, go)))))
     (\<lambda>p. alert_inv c0 (fst p)) (\<lambda>_. alert_stop c0) c"
  proof -
    have sd: "\<And>f. keeps (calm f) (seqM (setup_fds v1) (bindM (await_event v1) (\<lambda>_. retM v1)))"
      "sound (seqM (setup_fds v1) (bindM (await_event v1) (\<lambda>_. retM v1)))"
      "returns (calm_locals v1) (seqM (setup_fds v1) (bindM (await_event v1) (\<lambda>_. retM v1)))" for v1
      by (auto intro!: calm.rules calm_parts sound_seqM sound_bindM sound_basic sound_quiet
          returns_seqM returns_bindM returns_retM simp: calm_locals_def)
    have "alerting v (bindM (update_wants v) (\<lambda>v1. seqM (setup_fds v1) (bindM (await_event v1) (\<lambda>_. retM v1))))"
      by (intro alerting_bindM alerting_parts alerting_calm sd)
    then have "wp (bindM (update_wants v) (\<lambda>v1. seqM (setup_fds v1) (bindM (await_event v1) (\<lambda>_. retM v1))))
      (alert_inv c0) (\<lambda>_. alert_stop c0) c"
      using h by (auto simp: alerting_def)
    then show ?thesis by (simp add: wp_etas)
  qed
  have "wp (transfer_round v) Q E c = wp (bindM (bindM (update_wants v) (\<lambda>v1. seqM (setup_fds v1)
      (bindM (await_event v1) (\<lambda>go. retM (v1, go))))) (\<lambda>(v1, go).
        if \<not> go then retM (Inl ())
        else bindM (transfer_work v1) (\<lambda>w. bindM (getM ssl_sent) (\<lambda>sent.
          retM (if sock_open_wr w \<or> \<not> sent \<or> shutdown_wants_read w \<or> shutdown_wants_write w
                then Inr w else Inl ()))))) Q E c" for Q E
    by (simp add: transfer_round_def wp_etas)
  moreover have "wp (bindM (bindM (update_wants v) (\<lambda>v1. seqM (setup_fds v1)
      (bindM (await_event v1) (\<lambda>go. retM (v1, go))))) (\<lambda>(v1, go).
        if \<not> go then retM (Inl ())
        else bindM (transfer_work v1) (\<lambda>w. bindM (getM ssl_sent) (\<lambda>sent.
          retM (if sock_open_wr w \<or> \<not> sent \<or> shutdown_wants_read w \<or> shutdown_wants_write w
                then Inr w else Inl ()))))) (\<lambda>r c'. case r of Inl _ \<Rightarrow> alert_stop c0 c' | Inr w \<Rightarrow> alert_inv c0 w c')
    (\<lambda>_. alert_stop c0) c"
    unfolding wp_bindM [of "bindM (update_wants v) _"]
    by (rule wp_mono [OF pre])
      (auto simp: section_simps alert_inv_stop elim!: wp_mono [OF work] split: prod.split)
  ultimately show ?thesis by simp
qed

lemma transfer_alerts:
  assumes "bwf (restart c)"
  shows "alert_stop c (res_state (transfer c))"
proof -
  let ?c = "restart c"
  have "alert_inv ?c xfer_start ?c"
    by (auto simp: alert_inv_def relay.refl wants_shutdown_def xfer_start_def alert_in_order_def
        flushed_when_none silent_after_none)
  then have "wp (loopM transfer_round xfer_start) (\<lambda>_. alert_stop ?c) (\<lambda>_. alert_stop ?c) ?c"
    by (intro wp_loopM [where I = "alert_inv ?c"]) (auto intro: round_alerts assms alert_inv_stop)
  then have "alert_stop ?c (res_state (transfer c))"
    by (simp add: wp_res_state transfer_state)
  then show ?thesis
    by (simp add: alert_stop_def alert_in_order_def)
qed

lemma transfer_sound:
  assumes "bwf (restart c)"
  shows "relay (restart c) (res_state (transfer c))" "transfer c \<noteq> Stop Overflow c'"
proof -
  have "wp (loopM transfer_round xfer_start) (\<lambda>_. relay (restart c))
      (\<lambda>k c'. relay (restart c) c' \<and> (bwf (restart c) \<longrightarrow> k \<noteq> Overflow)) (restart c)"
    using sound_loop by (simp add: sound_def)
  then show "relay (restart c) (res_state (transfer c))" "transfer c \<noteq> Stop Overflow c'"
    using assms by (auto simp: wp_def transfer_state split: res.splits)
qed

lemma live_parts [frame_intros]:
  "live (update_wants v)" "live (setup_fds v)" "live (await_event v)" "live (retrieve v)"
  "live (exceptions v)" "live (hangups v)" "live check_renegotiation" "live (send_close_notify v)"
  "live parse_socket_error" "live (write_socket v)" "live (read_socket v)" "live (write_tls v)"
  "live (tls_readable v)" "live (tls_gone a p)" "live tls_zero_return" "live (tls_receive v)"
  "live (check_hangup v)" "live (close_socket_side v)" "live (close_tls_side v)" "live (check_watchdog v)"
  unfolding update_wants_def setup_fds_def await_event_def retrieve_def exceptions_def report_error_def
    hangups_def check_renegotiation_def send_close_notify_def tls_readable_def tls_gone_def
    tls_zero_return_def check_hangup_def close_socket_side_def close_tls_side_def check_watchdog_def
    hung_def drained_def set_shutdown_def parse_socket_error_def write_socket_def read_socket_def
    write_tls_def tls_receive_def
  by (auto intro!: live_rules frame_intros simp: Let_def split: ssl_error.split)

lemma live_moves: "live (transfer_work v)"
  unfolding transfer_work_def transfer_moves_def check_shutdown_def read_tls_def
  by (auto intro!: live_rules live_parts)

lemma relay_moves: "keeps relay m \<Longrightarrow> keeps moves m"
  by (erule keeps_mono) (simp add: relay_def moves_def)

lemma sound_moves: "sound m \<Longrightarrow> keeps moves m"
  unfolding keeps_def
proof
  fix c
  assume "sound m"
  then have "wp m (\<lambda>_. relay c) (\<lambda>k c'. relay c c' \<and> (bwf c \<longrightarrow> k \<noteq> Overflow)) c"
    by (simp add: sound_def)
  then show "wp m (\<lambda>_. moves c) (\<lambda>_. moves c) c"
    by (rule wp_mono) (auto simp: relay_def moves_def)
qed

lemma ticks_s_poll_wait: "ticks (s_poll_wait s t)"
  unfolding s_poll_wait_def
  by (rule ticks_loopM)
    (auto intro!: mv.rules mv.modM ticks_bind2 [OF mv.getM] ticks_bind1 simp: moves_def env_le_def)

lemma ticks_await_event: "ticks (await_event v)"
  unfolding await_event_def
  by (auto intro!: mv.rules ticks_bind2 [OF mv.getM] ticks_bind1 ticks_s_poll_wait)

lemma live_transfer_round: "live (transfer_round v)"
  unfolding transfer_round_def by (auto intro!: live_rules live_parts live_moves)

lemma moves_transfer_work: "keeps moves (transfer_work v)"
  unfolding transfer_work_def transfer_moves_def
  by (intro sound_moves sound_bindM sound_seqM frame_intros)

lemma rounds_transfer_round: "rounds (transfer_round v)"
  unfolding transfer_round_def
  by (rule rounds_bind [OF sound_moves [OF sound_quiet(1)]], rule rounds_seqM [OF sound_moves [OF sound_quiet(2)]],
      rule rounds_ticks, rule ticks_bind1 [OF ticks_await_event])
    (auto intro!: mv.rules moves_transfer_work)

lemma live_transfer: "live transfer"
  unfolding transfer_def
  by (intro live_rules live_loopM live_transfer_round rounds_transfer_round sound_moves sound_transfer_round)


section \<open>What is polled\<close>

text \<open>After the poll set is built, it asks about exactly the descriptors in use: the set of
  requests, those on one descriptor joined.\<close>

lemma setup_fds_want:
  assumes "setup_fds v c = Ok () c'"
  shows "poll_want (fds c') f =
    (if \<exists>r w. (f, r, w) \<in> set (poll_requests v c)
     then Some (\<exists>w. (f, True, w) \<in> set (poll_requests v c), \<exists>r. (f, r, True) \<in> set (poll_requests v c))
     else None)"
proof -
  have "poll_requests v (c\<lparr>fds := p\<rparr>) = poll_requests v c" for p
  proof -
    have "get_fd (c\<lparr>fds := p\<rparr>) s = get_fd c s" for s by (cases s) simp_all
    then show ?thesis by (simp add: poll_requests_def sock_rd_def sock_wr_def ssl_rd_def ssl_wr_def)
  qed
  then have "fds c' = foldl (\<lambda>s (f, r, w). s_poll_add s f r w) (s_poll_init (fds c)) (poll_requests v c)"
    using assms by (auto simp: setup_fds_def poll_init_def seqM_def bindM_def modM_def)
  then show ?thesis by (simp add: poll.watch_exactly)
qed


end
