(* ===== verification/Resolver.thy ===== *)
theory Resolver
  imports Netio
begin

text \<open>
  Names to addresses (resolver.c): lists of addresses that grow as names are resolved, with the
  round-robin position and the cached sessions that go with them. \<open>getaddrinfo\<close> is the C
  library's; the retries around it are the code's.
\<close>

section \<open>Address lists\<close>

definition EAI_AGAIN :: int where "EAI_AGAIN = -3"
definition EAI_SERVICE :: int where "EAI_SERVICE = -8"

definition addrlist_reset :: "addrlist \<Rightarrow> addrlist" where
  "addrlist_reset l = l\<lparr>al_parent := Own, al_addr := [], al_session := None, al_rr := 0\<rparr>"

definition addrlist_clear :: "addrlist \<Rightarrow> bool \<Rightarrow> addrlist" where
  "addrlist_clear l passive = (addrlist_reset l)\<lparr>al_names := [], al_passive := passive\<rparr>"

definition empty_addrlist :: addrlist where
  "empty_addrlist = \<lparr>al_parent = Own, al_addr = [], al_session = None, al_rr = 0,
     al_passive = False, al_names = []\<rparr>"

text \<open>One more address: both arrays are reallocated for one more entry.\<close>

definition addrlist_append :: "addrlist \<Rightarrow> sockaddr \<Rightarrow> addrlist" where
  "addrlist_append l a = l\<lparr>al_addr := al_addr l @ [a],
     al_session := Some ((case al_session l of None \<Rightarrow> [] | Some s \<Rightarrow> take (al_num l) s) @ [None])\<rparr>"

section \<open>Resolving\<close>

text \<open>The state of the retry loop: \<open>retry\<close>, \<open>AI_ADDRCONFIG\<close> still set, and the family asked for
  (0 is \<open>AF_UNSPEC\<close>). The loop returns \<open>getaddrinfo\<close>'s last answer.\<close>

definition getaddrinfo_retry :: "string option \<Rightarrow> string \<Rightarrow> bool \<Rightarrow> ans cm" where
  "getaddrinfo_retry host port passive = loopM (\<lambda>(retry, addrconfig, family).
     bindM (sys (Getaddrinfo host port family passive addrconfig)) (\<lambda>a.
       if a_ret a = 0 then retM (Inl a)
       else let retry1 = (if a_ret a = EAI_AGAIN then retry + 1 else retry) in
       if a_ret a = EAI_AGAIN \<and> retry1 \<le> 3
       then bindM (sys Sleep) (\<lambda>_. retM (Inr (retry1, addrconfig, family)))
       else if addrconfig then retM (Inr (retry1, False, family))
       else if family = 2 then retM (Inr (retry1, addrconfig, 0))
       else retM (Inl a))) (0::nat, True, if passive then 2 else 0)"

text \<open>The copy loop: entries are appended until one would not fit a \<open>SOCKADDR_UNION\<close>, which is an
  internal error (the entries before it stay).\<close>

fun copy_addresses :: "addrlist \<Rightarrow> sockaddr list \<Rightarrow> nat \<Rightarrow> addrlist \<times> nat" where
  "copy_addresses l [] num = (l, num)"
| "copy_addresses l (a # as) num =
    (if addr_len a > 112 then (l, 0) else copy_addresses (addrlist_append l a) as (num + 1))"

definition hostport2addrlist :: "addrlist \<Rightarrow> string option \<Rightarrow> string \<Rightarrow> (addrlist \<times> nat) cm" where
  "hostport2addrlist l host port =
    bindM (getaddrinfo_retry host port (al_passive l)) (\<lambda>a.
      retM (if a_ret a \<noteq> 0 then (l, 0) else copy_addresses l (a_addrs a) 0))"

text \<open>\<open>strrchr(tmp, ':')\<close> and the split at it.\<close>

definition split_port :: "string \<Rightarrow> string option \<times> string" where
  "split_port name =
    (if CHR '':'' \<in> set name
     then let port = rev (takeWhile (\<lambda>c. c \<noteq> CHR '':'') (rev name))
          in (Some (take (length name - length port - 1) name), port)
     else (None, name))"

text \<open>\<open>sun_path\<close> starts at offset 2 of a structure of 110 bytes.\<close>

definition name2addrlist :: "addrlist \<Rightarrow> string \<Rightarrow> (addrlist \<times> nat) cm" where
  "name2addrlist l name =
    (if name \<noteq> [] \<and> hd name = CHR ''/'' then
       retM (if 2 + length name + 1 > 110 then (l, 0) else (addrlist_append l (AF_UNIX name), 1))
     else let (host, port) = split_port name in hostport2addrlist l host port)"

definition is_inet :: "sockaddr \<Rightarrow> bool" where "is_inet a \<longleftrightarrow> sa_family a = 2"
definition is_inet6 :: "sockaddr \<Rightarrow> bool" where "is_inet6 a \<longleftrightarrow> sa_family a = 10"

definition addrlist2addr :: "addrlist \<Rightarrow> sockaddr" where
  "addrlist2addr l =
    (case List.find is_inet (al_addr l) of
       Some a \<Rightarrow> a
     | None \<Rightarrow> (case List.find is_inet6 (al_addr l) of Some a \<Rightarrow> a | None \<Rightarrow> hd (al_addr l)))"

text \<open>\<open>None\<close> is the return value 0: the address is left alone.\<close>

definition name2addr :: "string \<Rightarrow> bool \<Rightarrow> sockaddr option cm" where
  "name2addr name passive =
    bindM (name2addrlist (addrlist_clear empty_addrlist passive) name) (\<lambda>(l, num).
      retM (if num \<noteq> 0 then Some (addrlist2addr l) else None))"

definition hostport2addr :: "string \<Rightarrow> string \<Rightarrow> bool \<Rightarrow> sockaddr option cm" where
  "hostport2addr host port passive =
    bindM (hostport2addrlist (addrlist_clear empty_addrlist passive) (Some host) port) (\<lambda>(l, num).
      retM (if num \<noteq> 0 then Some (addrlist2addr l) else None))"

definition resolve_names :: "addrlist \<Rightarrow> (addrlist \<times> nat) cm" where
  "resolve_names l0 = foldM (\<lambda>name (l, num).
     bindM (name2addrlist l name) (\<lambda>(l', n). retM (l', num + n))) (al_names l0) (l0, 0)"

definition addrlist_resolve :: "addrlist \<Rightarrow> (addrlist \<times> nat) cm" where
  "addrlist_resolve l =
    bindM (resolve_names (addrlist_reset l)) (\<lambda>(l', num).
      if num \<le> 1 then retM (l'\<lparr>al_rr := 0\<rparr>, num)
      else bindM (sys Rand_bytes) (\<lambda>a.
        retM (l'\<lparr>al_rr := unat (word_of_int (a_val a) :: 32 word) mod num\<rparr>, num)))"

text \<open>A copy of the service's list \<open>which\<close>: it finds its parent through the pointer copied; a list
  not yet resolved is resolved now and becomes its own parent. The array of sessions is shared with
  the source, not copied.\<close>

definition addrlist_dup :: "parent \<Rightarrow> addrlist \<Rightarrow> (addrlist \<times> nat) cm" where
  "addrlist_dup which src =
    (if al_num src \<noteq> 0
     then let dst = src\<lparr>al_parent := (case al_parent src of Own \<Rightarrow> which | p \<Rightarrow> p)\<rparr>
          in retM (dst, al_num dst)
     else bindM (addrlist_resolve src) (\<lambda>(dst, _). retM (dst, al_num dst)))"

text \<open>\<open>s_ntop\<close>; an address of two bytes is an unnamed socket.\<close>

definition s_ntop :: "sockaddr \<Rightarrow> nat \<Rightarrow> string cm" where
  "s_ntop addr addrlen =
    (if addrlen = 2 then retM ''unnamed socket''
     else bindM (sys (Getnameinfo addr)) (\<lambda>a.
       retM (if a_ret a \<noteq> 0 then ''unresolvable address'' else a_host a @ '':'' @ a_port a)))"

section \<open>Laws\<close>

definition al_wf :: "addrlist \<Rightarrow> bool" where
  "al_wf l \<longleftrightarrow> (case al_session l of None \<Rightarrow> al_addr l = [] | Some s \<Rightarrow> length s = al_num l)"

text \<open>\<open>grown l l' n\<close>: \<open>n\<close> addresses were appended, each with an empty session slot.\<close>

definition grown :: "addrlist \<Rightarrow> addrlist \<Rightarrow> sockaddr list \<Rightarrow> bool" where
  "grown l l' new \<longleftrightarrow> al_addr l' = al_addr l @ new \<and> al_parent l' = al_parent l \<and> al_rr l' = al_rr l \<and>
     al_passive l' = al_passive l \<and> al_names l' = al_names l \<and> (al_wf l \<longrightarrow> al_wf l')"

lemma grown_refl [simp]: "grown l l []"
  by (simp add: grown_def)

lemma grown_append: "grown l l' new \<Longrightarrow> grown l (addrlist_append l' a) (new @ [a])"
  by (auto simp: grown_def addrlist_append_def al_wf_def al_num_def split: option.splits)

lemma grown_trans: "grown a b n \<Longrightarrow> grown b c m \<Longrightarrow> grown a c (n @ m)"
  by (simp add: grown_def)

lemma addr_len_fits [simp]: "\<not> 112 < addr_len a"
  by (cases a) simp_all

lemma copy_addresses_grown:
  "\<exists>l'. copy_addresses l as num = (l', num + length as) \<and> grown l l' as"
proof (induction as arbitrary: l num)
  case (Cons a as)
  from Cons.IH [of "addrlist_append l a" "num + 1"] grown_append [OF grown_refl, of l a]
  show ?case by (auto dest: grown_trans)
qed simp

text \<open>The retry loop looks a name up at most six times.\<close>

fun is_lookup :: "req \<Rightarrow> bool" where
  "is_lookup (Getaddrinfo h p f s g) = True"
| "is_lookup q = False"

lemma getaddrinfo_retry_lookups:
  "wp (getaddrinfo_retry h p s) (\<lambda>_ c'. count_req is_lookup c' \<le> count_req is_lookup c + 6)
     (\<lambda>_ c'. count_req is_lookup c' \<le> count_req is_lookup c + 6) c"
  unfolding getaddrinfo_retry_def
proof (rule wp_loopM [where I = "\<lambda>(retry, cfg, fam) c'.
    count_req is_lookup c' + (3 - retry) + (if cfg then 1 else 0) + (if fam = 2 then 1 else 0) + 1
      \<le> count_req is_lookup c + 6"], goal_cases)
  case (2 a c1)
  then show ?case
    by (cases a) (auto simp: wp_eqs Let_def EAI_AGAIN_def)
qed auto

text \<open>What resolving adds.\<close>

definition grows :: "addrlist \<Rightarrow> (addrlist \<times> nat) cm \<Rightarrow> bool" where
  "grows l m \<longleftrightarrow> returns (\<lambda>(l', n). \<exists>new. grown l l' new \<and> n = length new) m"

lemma hostport2addrlist_grows: "grows l (hostport2addrlist l h p)"
  unfolding hostport2addrlist_def grows_def
proof (rule returns_bindM, rule returns_retM)
  fix a :: ans
  obtain l' where "copy_addresses l (a_addrs a) 0 = (l', length (a_addrs a))" "grown l l' (a_addrs a)"
    using copy_addresses_grown [of l "a_addrs a" 0] by auto
  then show "case if a_ret a \<noteq> 0 then (l, 0) else copy_addresses l (a_addrs a) 0 of
      (l', n) \<Rightarrow> \<exists>new. grown l l' new \<and> n = length new"
    by (auto intro: exI [of _ "[]"])
qed

lemma name2addrlist_grows: "grows l (name2addrlist l name)"
proof -
  have "\<exists>new. grown l l new \<and> 0 = length new" by (auto intro: exI [of _ "[]"])
  moreover have "\<exists>new. grown l (addrlist_append l a) new \<and> 1 = length new" for a
    using grown_append [OF grown_refl, of l a] by (auto intro!: exI [of _ "[a]"])
  moreover have "returns (\<lambda>(l', n). \<exists>new. grown l l' new \<and> n = length new) (hostport2addrlist l h p)" for h p
    using hostport2addrlist_grows by (simp add: grows_def)
  ultimately show ?thesis
    unfolding name2addrlist_def grows_def
    by (auto simp: Let_def split: prod.split intro!: returns_retM)
qed

lemma resolve_names_grows: "grows l (resolve_names l)"
  unfolding resolve_names_def grows_def
proof (rule returns_foldM)
  show "case (l, 0) of (l', n) \<Rightarrow> \<exists>new. grown l l' new \<and> n = length new"
    by (auto intro: exI [of _ "[]"])
next
  fix x and a :: "addrlist \<times> nat"
  assume "case a of (l', n) \<Rightarrow> \<exists>new. grown l l' new \<and> n = length new"
  then obtain l' n new where a: "a = (l', n)" "grown l l' new" "n = length new"
    by (cases a) auto
  have "returns (\<lambda>(l2, k). \<exists>new. grown l' l2 new \<and> k = length new) (name2addrlist l' x)"
    using name2addrlist_grows by (simp add: grows_def)
  then show "returns (\<lambda>(l', n). \<exists>new. grown l l' new \<and> n = length new)
      (case a of (l, num) \<Rightarrow> bindM (name2addrlist l x) (\<lambda>(l', n). retM (l', num + n)))"
    using a by (fastforce intro!: returns_retM returns_bind2 dest: grown_trans)
qed

text \<open>After resolving, the list is its own parent, the sessions match the addresses, and the
  round-robin counter points into it.\<close>

lemma addrlist_resolve_wf:
  "returns (\<lambda>(l', n). al_wf l' \<and> al_num l' = n \<and> al_parent l' = Own \<and> al_names l' = al_names l \<and>
     al_rr l' < max 1 n) (addrlist_resolve l)"
  unfolding addrlist_resolve_def
proof (rule returns_bind2 [where Q = "\<lambda>(l', n). \<exists>new. grown (addrlist_reset l) l' new \<and> n = length new"])
  show "returns (\<lambda>(l', n). \<exists>new. grown (addrlist_reset l) l' new \<and> n = length new)
      (resolve_names (addrlist_reset l))"
    using resolve_names_grows by (simp add: grows_def)
qed (auto intro!: returns_rules mod_less_divisor
    simp: grown_def addrlist_reset_def al_wf_def al_num_def split: option.splits)

text \<open>A single address: the first IPv4 one, else the first IPv6 one, else the first.\<close>

lemma addrlist2addr_picks:
  assumes "al_num l \<noteq> 0"
  shows "addrlist2addr l \<in> set (al_addr l)"
    "\<exists>a \<in> set (al_addr l). is_inet a \<Longrightarrow> is_inet (addrlist2addr l)"
    "\<not> (\<exists>a \<in> set (al_addr l). is_inet a) \<Longrightarrow> \<exists>a \<in> set (al_addr l). is_inet6 a \<Longrightarrow>
      is_inet6 (addrlist2addr l)"
  using assms
  by (auto simp: addrlist2addr_def al_num_def find_Some_iff find_None_iff split: option.split)

lemma lookup_io [frame_intros]:
  "keeps io_le (getaddrinfo_retry h p s)"
  "keeps io_le (hostport2addrlist l h p)"
  unfolding hostport2addrlist_def getaddrinfo_retry_def
  by (auto intro!: io.rules frame_intros simp: Let_def)

lemma name2addrlist_io [frame_intros]:
  "keeps io_le (name2addrlist l n)"
  unfolding name2addrlist_def by (cases "split_port n") (auto intro!: io.rules frame_intros)

lemma resolver_io [frame_intros]:
  "keeps io_le (name2addr n b)" "keeps io_le (hostport2addr hn p b)"
  "keeps io_le (resolve_names l)" "keeps io_le (addrlist_resolve l)"
  "keeps io_le (addrlist_dup w l)" "keeps io_le (s_ntop a k)"
  unfolding addrlist_dup_def addrlist_resolve_def resolve_names_def name2addr_def hostport2addr_def
    s_ntop_def
  by (auto intro!: io.rules frame_intros simp: Let_def split: prod.split)

lemma lookup_holds [frame_intros]:
  "keeps holds (getaddrinfo_retry h p s)"
  "keeps holds (hostport2addrlist l h p)"
  unfolding hostport2addrlist_def getaddrinfo_retry_def
  by (auto intro!: holds.rules frame_intros simp: fd_neutral_def Let_def)

lemma name2addrlist_holds [frame_intros]:
  "keeps holds (name2addrlist l n)"
  unfolding name2addrlist_def by (cases "split_port n") (auto intro!: holds.rules frame_intros)

lemma resolver_holds [frame_intros]:
  "keeps holds (name2addr n b)" "keeps holds (hostport2addr hn p b)"
  "keeps holds (resolve_names l)" "keeps holds (addrlist_resolve l)"
  "keeps holds (addrlist_dup w l)" "keeps holds (s_ntop a k)"
  unfolding addrlist_dup_def addrlist_resolve_def resolve_names_def name2addr_def hostport2addr_def
    s_ntop_def
  by (auto intro!: holds.rules frame_intros simp: fd_neutral_def Let_def split: prod.split)

lemma lookup_hush [frame_intros]:
  "keeps hush (getaddrinfo_retry h p s)"
  "keeps hush (hostport2addrlist l h p)"
  unfolding hostport2addrlist_def getaddrinfo_retry_def
  by (auto intro!: hush.rules frame_intros simp: quiet_def Let_def)

lemma name2addrlist_hush [frame_intros]:
  "keeps hush (name2addrlist l n)"
  unfolding name2addrlist_def by (cases "split_port n") (auto intro!: hush.rules frame_intros)

lemma resolver_hush [frame_intros]:
  "keeps hush (name2addr n b)" "keeps hush (hostport2addr hn p b)"
  "keeps hush (resolve_names l)" "keeps hush (addrlist_resolve l)"
  "keeps hush (addrlist_dup w l)" "keeps hush (s_ntop a k)"
  unfolding addrlist_dup_def addrlist_resolve_def resolve_names_def name2addr_def hostport2addr_def
    s_ntop_def
  by (auto intro!: hush.rules frame_intros simp: quiet_def Let_def split: prod.split)

lemma lookup_stops [frame_intros]:
  "Blocked \<in> K \<Longrightarrow> stops K (getaddrinfo_retry h p s)"
  "Blocked \<in> K \<Longrightarrow> stops K (hostport2addrlist l h p)"
  unfolding hostport2addrlist_def getaddrinfo_retry_def
  by (auto intro!: stops_rules frame_intros simp: Let_def)

lemma name2addrlist_stops [frame_intros]:
  "Blocked \<in> K \<Longrightarrow> stops K (name2addrlist l n)"
  unfolding name2addrlist_def by (cases "split_port n") (auto intro!: stops_rules frame_intros)

lemma resolver_stops [frame_intros]:
  "Blocked \<in> K \<Longrightarrow> stops K (name2addr n b)" "Blocked \<in> K \<Longrightarrow> stops K (hostport2addr hn p b)"
  "Blocked \<in> K \<Longrightarrow> stops K (resolve_names l)" "Blocked \<in> K \<Longrightarrow> stops K (addrlist_resolve l)"
  "Blocked \<in> K \<Longrightarrow> stops K (addrlist_dup w l)" "Blocked \<in> K \<Longrightarrow> stops K (s_ntop a k)"
  unfolding addrlist_dup_def addrlist_resolve_def resolve_names_def name2addr_def hostport2addr_def
    s_ntop_def
  by (auto intro!: stops_rules frame_intros simp: Let_def split: prod.split)

lemma live_lookup [frame_intros]: "live (getaddrinfo_retry h p s)" "live (hostport2addrlist l h p)"
  unfolding hostport2addrlist_def getaddrinfo_retry_def
  by (auto intro!: live_rules live_loopM mv.rules frame_intros simp: Let_def)

lemma live_name2addrlist [frame_intros]: "live (name2addrlist l n)"
  unfolding name2addrlist_def by (cases "split_port n") (auto intro!: live_rules frame_intros)

lemma live_resolver [frame_intros]:
  "live (name2addr n b)" "live (hostport2addr hn p b)" "live (resolve_names l)"
  "live (addrlist_resolve l)" "live (addrlist_dup w l)" "live (s_ntop a k)"
  unfolding addrlist_dup_def addrlist_resolve_def resolve_names_def name2addr_def hostport2addr_def
    s_ntop_def
  by (auto intro!: live_rules frame_intros simp: Let_def split: prod.split)

end
