(* ===== verification/Cstring.thy ===== *)
theory Cstring
  imports Prelude
begin

unbundle bit_operations_syntax

text \<open>
  The string functions of the C library the protocol negotiations are written with
  (\<open>strncasecmp\<close>, \<open>strchr\<close>, \<open>strstr\<close>, \<open>strtol\<close>, \<open>printf\<close>'s \<open>%u\<close>), the code's \<open>is_prefix\<close>, and
  str.c's constant-time \<open>safe_memcmp\<close>.
\<close>

section \<open>Comparing\<close>

definition tolower :: "char \<Rightarrow> char" where
  "tolower c = (let n = of_char c :: nat in if 65 \<le> n \<and> n \<le> 90 then char_of (n + 32) else c)"

definition strcaseeq :: "string \<Rightarrow> string \<Rightarrow> bool" where
  "strcaseeq a b \<longleftrightarrow> map tolower a = map tolower b"

text \<open>\<open>is_prefix(a, b)\<close>: \<open>b\<close> is a prefix of \<open>a\<close>, ignoring case.\<close>

definition is_prefix :: "string \<Rightarrow> string \<Rightarrow> bool" where
  "is_prefix a b \<longleftrightarrow> map tolower (take (length b) a) = map tolower b"

lemma is_prefix_length: "is_prefix a b \<Longrightarrow> length b \<le> length a"
  by (auto simp: is_prefix_def dest: map_eq_imp_length_eq)

lemma is_prefix_self: "is_prefix (a @ b) a"
  by (simp add: is_prefix_def)

fun memcmp_acc :: "byte \<Rightarrow> byte list \<Rightarrow> byte list \<Rightarrow> byte" where
  "memcmp_acc r (x # xs) (y # ys) = memcmp_acc (r OR (x XOR y)) xs ys"
| "memcmp_acc r _ _ = r"

definition safe_memcmp :: "byte list \<Rightarrow> byte list \<Rightarrow> nat \<Rightarrow> bool" where
  "safe_memcmp s1 s2 n \<longleftrightarrow> memcmp_acc 0 (take n s1) (take n s2) \<noteq> 0"

lemma or_eq_0: "a OR b = 0 \<longleftrightarrow> a = 0 \<and> b = 0" for a b :: byte
  by (metis or.left_idem or.right_idem or.right_neutral or.left_neutral bit.disj_zero_right or.commute)

lemma xor_eq_0: "a XOR b = 0 \<longleftrightarrow> a = b" for a b :: byte
  by (metis bit.xor_self xor.assoc xor.left_neutral xor.right_neutral)

lemma memcmp_acc_zero:
  "length xs = length ys \<Longrightarrow> memcmp_acc r xs ys = 0 \<longleftrightarrow> r = 0 \<and> xs = ys"
  by (induction r xs ys rule: memcmp_acc.induct) (auto simp: or_eq_0 xor_eq_0)

text \<open>The constant-time comparison decides equality.\<close>

lemma safe_memcmp_equal:
  "n \<le> length s1 \<Longrightarrow> n \<le> length s2 \<Longrightarrow> \<not> safe_memcmp s1 s2 n \<longleftrightarrow> take n s1 = take n s2"
  by (simp add: safe_memcmp_def memcmp_acc_zero)

section \<open>Searching\<close>

text \<open>The suffix a search points to; \<open>None\<close> is NULL.\<close>

fun strchr :: "string \<Rightarrow> char \<Rightarrow> string option" where
  "strchr [] c = None"
| "strchr (x # xs) c = (if x = c then Some (x # xs) else strchr xs c)"

fun strstr_at :: "string \<Rightarrow> string \<Rightarrow> nat \<Rightarrow> nat option" where
  "strstr_at [] pat i = (if pat = [] then Some i else None)"
| "strstr_at (x # xs) pat i =
    (if take (length pat) (x # xs) = pat then Some i else strstr_at xs pat (i + 1))"

lemma strchr_split: "strchr s c = Some t \<Longrightarrow> s = takeWhile (\<lambda>x. x \<noteq> c) s @ t \<and> t \<noteq> [] \<and> hd t = c"
  by (induction s c rule: strchr.induct) (auto split: if_splits)

lemma strchr_None: "strchr s c = None \<longleftrightarrow> c \<notin> set s"
  by (induction s c rule: strchr.induct) auto

section \<open>Numbers\<close>

definition digit :: "nat \<Rightarrow> char" where "digit d = char_of (48 + d)"

fun dec :: "nat \<Rightarrow> string" where
  "dec n = (if n < 10 then [digit n] else dec (n div 10) @ [digit (n mod 10)])"

declare dec.simps [simp del]

definition is_digit :: "char \<Rightarrow> bool" where
  "is_digit c \<longleftrightarrow> 48 \<le> (of_char c :: nat) \<and> (of_char c :: nat) \<le> 57"

definition is_space :: "char \<Rightarrow> bool" where
  "is_space c \<longleftrightarrow> (of_char c :: nat) \<in> {9, 10, 11, 12, 13, 32}"

definition undec :: "string \<Rightarrow> nat" where
  "undec s = foldl (\<lambda>n c. 10 * n + (of_char c - 48)) 0 s"

text \<open>\<open>strtol(s, &end, 10)\<close> on a 64-bit \<open>long\<close>: the value, clamped to its range, and the rest of
  the string, which is the whole string when there are no digits.\<close>

definition strtol :: "string \<Rightarrow> int \<times> string" where
  "strtol s =
    (let s1 = dropWhile is_space s;
         neg = s1 \<noteq> [] \<and> hd s1 = CHR ''-'';
         s2 = (if s1 \<noteq> [] \<and> (hd s1 = CHR ''-'' \<or> hd s1 = CHR ''+'') then tl s1 else s1);
         ds = takeWhile is_digit s2;
         v = (if neg then - int (undec ds) else int (undec ds))
     in if ds = [] then (0, s)
        else (max (- (2 ^ 63)) (min (2 ^ 63 - 1) v), dropWhile is_digit s2))"

lemma digit_value: "d < 10 \<Longrightarrow> is_digit (digit d) \<and> of_char (digit d) - 48 = d"
  by (simp add: is_digit_def digit_def)

lemma dec_digits: "c \<in> set (dec n) \<Longrightarrow> is_digit c"
proof (induction n rule: dec.induct)
  case (1 n)
  then show ?case
    by (subst (asm) (2) dec.simps) (auto simp: digit_value split: if_splits)
qed

lemma undec_dec: "undec (dec n) = n"
proof (induction n rule: dec.induct)
  case (1 n)
  then show ?case
    by (subst dec.simps) (auto simp: undec_def digit_def)
qed

end
