(* ===== verification/Dialog.thy ===== *)
theory Dialog
  imports Resolver Cstring
begin

text \<open>
  Rules for the negotiations of protocol.c: what a negotiation read from and wrote to its peers,
  followed through the blocking reads and writes it is made of.
\<close>

text \<open>The plain descriptors as the negotiations name them.\<close>

definition local_rd :: "cli \<Rightarrow> int" where "local_rd c = fd (local_rfd c)"
definition local_wr :: "cli \<Rightarrow> int" where "local_wr c = fd (local_wfd c)"
definition remote :: "cli \<Rightarrow> int" where "remote c = fd (remote_fd c)"

section \<open>How a negotiation stops\<close>

text \<open>A negotiation gives up with \<open>longjmp(c->err, 1)\<close>, which resets the connection, or with
  \<open>longjmp(c->err, 2)\<close>, which does not.\<close>

text \<open>\<open>fatal()\<close> ends the process; the helper \<open>base64()\<close> can call it when memory runs out.\<close>

definition refuses :: "stop set" where "refuses = {Longjmp 1, Longjmp 2, Blocked, Fatal}"

lemma in_refuses [simp]: "Longjmp 1 \<in> refuses" "Longjmp (Suc 0) \<in> refuses" "Longjmp 2 \<in> refuses"
  "Blocked \<in> refuses" "Fatal \<in> refuses" "Overflow \<notin> refuses" "Null_deref \<notin> refuses"
  by (auto simp: refuses_def)

lemma aborts_refuses: "stops aborts m \<Longrightarrow> stops refuses m"
  by (erule stops_mono) (auto simp: aborts_def refuses_def)

lemma wp_skip: "(\<And>a c'. Q a c') \<Longrightarrow> wp m Q (\<lambda>_ _. True) c"
  by (auto simp: wp_def split: res.split)

section \<open>Two streams\<close>

text \<open>The blocking TLS read and write, seen on the two TLS streams.\<close>

definition talks :: "chan \<Rightarrow> chan \<Rightarrow> cli \<Rightarrow> byte list \<Rightarrow> byte list \<Rightarrow> cli \<Rightarrow> bool" where
  "talks i z c ins outs c' \<longleftrightarrow> os (env c') = os (env c) \<and>
     stream i c' = stream i c @ ins \<and> stream z c' = stream z c @ outs"

abbreviation tls_moved :: "cli \<Rightarrow> byte list \<Rightarrow> byte list \<Rightarrow> cli \<Rightarrow> bool" where
  "tls_moved \<equiv> talks Tls_in Tls_out"

lemma talks_refl [simp]: "talks i z c [] [] c"
  by (simp add: talks_def)

lemma talks_target [simp]:
  "talks i z c ins outs (c1\<lparr>connect_addr := l\<rparr>) = talks i z c ins outs c1"
  by (simp add: talks_def stream_def)

lemma wp_recv:
  assumes ok: "os_ok (os (env c))" and t: "talks i z c ins outs c1" and "i \<noteq> z"
    and m: "\<And>c1. os_ok (os (env c1)) \<Longrightarrow> receives i n m c1" "keeps io_le m" "stops aborts m"
    and Q: "\<And>bs c2. length bs = n \<Longrightarrow> talks i z c (ins @ bs) outs c2 \<Longrightarrow> io_le c1 c2 \<Longrightarrow> Q bs c2"
    and E: "\<And>k c2. k \<in> aborts \<Longrightarrow> E k c2"
  shows "wp m Q E c1"
proof -
  have "os_ok (os (env c1))" using ok t by (simp add: talks_def)
  then have "wp m (\<lambda>bs c2. length bs = n \<and> extends c1 c2 i bs)
      (\<lambda>_ c2. \<exists>bs. length bs \<le> n \<and> extends c1 c2 i bs) c1"
    using m(1) by (simp add: receives_def)
  moreover have "wp m (\<lambda>_. io_le c1) (\<lambda>_. io_le c1) c1"
    using m(2) by (simp add: keeps_def)
  ultimately have "wp m (\<lambda>bs c2. (length bs = n \<and> extends c1 c2 i bs) \<and> io_le c1 c2)
      (\<lambda>_ c2. (\<exists>bs. length bs \<le> n \<and> extends c1 c2 i bs) \<and> io_le c1 c2) c1"
    by (rule wp_conj)
  from wp_stops [OF m(3) this] show ?thesis
    by (rule wp_mono) (use t \<open>i \<noteq> z\<close> in \<open>auto intro!: Q E simp: talks_def extends_def\<close>)
qed

lemma wp_send:
  assumes ok: "os_ok (os (env c))" and t: "talks i z c ins outs c1" and "i \<noteq> z"
    and m: "\<And>c1. os_ok (os (env c1)) \<Longrightarrow> sends z bs m c1" "keeps io_le m" "stops aborts m"
    and Q: "\<And>u c2. talks i z c ins (outs @ bs) c2 \<Longrightarrow> io_le c1 c2 \<Longrightarrow> Q u c2"
    and E: "\<And>k c2. k \<in> aborts \<Longrightarrow> E k c2"
  shows "wp m Q E c1"
proof -
  have "os_ok (os (env c1))" using ok t by (simp add: talks_def)
  then have "wp m (\<lambda>_ c2. extends c1 c2 z bs) (\<lambda>_ c2. \<exists>n. extends c1 c2 z (take n bs)) c1"
    using m(1) by (simp add: sends_def)
  moreover have "wp m (\<lambda>_. io_le c1) (\<lambda>_. io_le c1) c1"
    using m(2) by (simp add: keeps_def)
  ultimately have "wp m (\<lambda>_ c2. extends c1 c2 z bs \<and> io_le c1 c2)
      (\<lambda>_ c2. (\<exists>n. extends c1 c2 z (take n bs)) \<and> io_le c1 c2) c1"
    by (rule wp_conj)
  from wp_stops [OF m(3) this] show ?thesis
    by (rule wp_mono) (use t \<open>i \<noteq> z\<close> in \<open>auto intro!: Q E simp: talks_def extends_def\<close>)
qed

lemma wp_tls_read:
  assumes "os_ok (os (env c))" "tls_moved c ins outs c1"
    and "\<And>bs c2. length bs = n \<Longrightarrow> tls_moved c (ins @ bs) outs c2 \<Longrightarrow> io_le c1 c2 \<Longrightarrow> Q bs c2"
    and "\<And>k c2. k \<in> aborts \<Longrightarrow> E k c2"
  shows "wp (s_ssl_read n) Q E c1"
  by (rule wp_recv [OF assms(1,2)]) (use assms(3,4) in \<open>auto intro: s_ssl_read_receives frame_intros\<close>)

lemma wp_tls_write:
  assumes "os_ok (os (env c))" "tls_moved c ins outs c1"
    and "\<And>u c2. tls_moved c ins (outs @ bs) c2 \<Longrightarrow> io_le c1 c2 \<Longrightarrow> Q u c2"
    and "\<And>k c2. k \<in> aborts \<Longrightarrow> E k c2"
  shows "wp (s_ssl_write bs) Q E c1"
  by (rule wp_send [OF assms(1,2)]) (use assms(3,4) in \<open>auto intro: s_ssl_write_sends frame_intros\<close>)

lemma wp_fd_read:
  assumes "os_ok (os (env c))" "talks (In f) (Out w) c ins outs c1"
    and "\<And>bs c2. length bs = n \<Longrightarrow> talks (In f) (Out w) c (ins @ bs) outs c2 \<Longrightarrow> io_le c1 c2 \<Longrightarrow> Q bs c2"
    and "\<And>k c2. k \<in> aborts \<Longrightarrow> E k c2"
  shows "wp (s_read f n) Q E c1"
  by (rule wp_recv [OF assms(1,2)]) (use assms(3,4) in \<open>auto intro: s_read_receives frame_intros\<close>)

lemma wp_fd_write:
  assumes "os_ok (os (env c))" "talks (In f) (Out w) c ins outs c1"
    and "\<And>u c2. talks (In f) (Out w) c ins (outs @ bs) c2 \<Longrightarrow> io_le c1 c2 \<Longrightarrow> Q u c2"
    and "\<And>k c2. k \<in> aborts \<Longrightarrow> E k c2"
  shows "wp (s_write w bs) Q E c1"
  by (rule wp_send [OF assms(1,2)]) (use assms(3,4) in \<open>auto intro: s_write_sends frame_intros\<close>)

lemma wp_talk_hush:
  assumes "keeps hush m" "talks i z c ins outs c1"
    and "\<And>a c2. talks i z c ins outs c2 \<Longrightarrow> Q a c2" and "\<And>k c2. E k c2"
  shows "wp m Q E c1"
  using assms(1) by (rule wp_keeps) (use assms(2) in \<open>auto intro!: assms(3,4) simp: talks_def hush_stream hush_os\<close>)

section \<open>All streams\<close>

text \<open>From \<open>c\<close> to \<open>c'\<close> each channel \<open>h\<close> moved the bytes \<open>m h\<close>, on the same descriptors.\<close>

definition flow :: "cli \<Rightarrow> (chan \<Rightarrow> byte list) \<Rightarrow> cli \<Rightarrow> bool" where
  "flow c m c' \<longleftrightarrow> os (env c') = os (env c) \<and> (\<forall>h. stream h c' = stream h c @ m h) \<and>
     local_rfd c' = local_rfd c \<and> local_wfd c' = local_wfd c \<and> remote_fd c' = remote_fd c"

definition nothing :: "chan \<Rightarrow> byte list" where "nothing h = []"

definition adding :: "(chan \<Rightarrow> byte list) \<Rightarrow> chan \<Rightarrow> byte list \<Rightarrow> chan \<Rightarrow> byte list" where
  "adding m ch bs = m(ch := m ch @ bs)"

lemma adding_apply: "adding m ch bs h = (if h = ch then m h @ bs else m h)"
  by (simp add: adding_def)

lemma flow_refl [simp]: "flow c nothing c"
  by (simp add: flow_def nothing_def)

lemma flow_extends: "flow c m c1 \<Longrightarrow> extends c1 c2 ch bs \<Longrightarrow> io_le c1 c2 \<Longrightarrow> flow c (adding m ch bs) c2"
  by (simp add: flow_def extends_def adding_apply io_le_fields)

lemma flow_hush: "flow c m c1 \<Longrightarrow> hush c1 c2 \<Longrightarrow> flow c m c2"
  using hush_io [of c1 c2] by (simp add: flow_def hush_stream hush_os io_le_fields)

lemma flow_fds:
  "NO_MATCH c c' \<Longrightarrow> flow c m c' \<Longrightarrow> local_rd c' = local_rd c"
  "NO_MATCH c c' \<Longrightarrow> flow c m c' \<Longrightarrow> local_wr c' = local_wr c"
  "NO_MATCH c c' \<Longrightarrow> flow c m c' \<Longrightarrow> remote c' = remote c"
  by (simp_all add: flow_def local_rd_def local_wr_def remote_def)

lemma flow_os_ok: "flow c m c1 \<Longrightarrow> os_ok (os (env c)) \<Longrightarrow> os_ok (os (env c1))"
  by (simp add: flow_def)

lemma flow_fields [simp]:
  "flow c m (c1\<lparr>connect_addr := l\<rparr>) = flow c m c1"
  "flow c m (c1\<lparr>opt := z\<rparr>) = flow c m c1"
  by (simp_all add: flow_def stream_def)

text \<open>One line as it is on the wire: its bytes, which may hold carriage returns, and the end.\<close>

definition wire_line :: "string \<Rightarrow> byte list \<Rightarrow> bool" where
  "wire_line s w \<longleftrightarrow> (\<exists>bs b. w = bs @ [b] \<and> b \<in> {0, 10} \<and> 0 \<notin> set bs \<and> 10 \<notin> set bs \<and>
     s = to_text (filter (\<lambda>b. b \<noteq> 13) bs))"

lemma wp_frame_io:
  assumes "keeps io_le m" "wp m Q0 (\<lambda>k _. k \<in> aborts) c1"
    and "\<And>a c2. Q0 a c2 \<Longrightarrow> io_le c1 c2 \<Longrightarrow> Q a c2" "\<And>k c2. k \<in> aborts \<Longrightarrow> E k c2"
  shows "wp m Q E c1"
proof -
  have "wp m (\<lambda>_. io_le c1) (\<lambda>_. io_le c1) c1" using assms(1) by (simp add: keeps_def)
  from wp_conj [OF assms(2) this] show ?thesis
    by (rule wp_mono) (auto intro: assms(3,4))
qed

lemma flow_line:
  assumes "flow c m c1" "reads_line c1 ch s c2" "io_le c1 c2"
  obtains w where "wire_line s w" "flow c (adding m ch w) c2"
  using assms(2) flow_extends [OF assms(1) _ assms(3)] by (fastforce simp: reads_line_def wire_line_def)

lemma wp_getline:
  assumes "os_ok (os (env c))" "flow c m c1"
    and "\<And>s w c2. wire_line s w \<Longrightarrow> flow c (adding m (In f) w) c2 \<Longrightarrow> io_le c1 c2 \<Longrightarrow> Q s c2"
    and "\<And>k c2. k \<in> aborts \<Longrightarrow> E k c2"
  shows "wp (fd_getline f) Q E c1"
  by (rule wp_frame_io [OF lines_io(1) fd_getline_reads [OF flow_os_ok [OF assms(2,1)]]])
    (auto elim!: flow_line [OF assms(2)] intro: assms(3,4))

lemma wp_ssl_getline:
  assumes "os_ok (os (env c))" "flow c m c1"
    and "\<And>s w c2. wire_line s w \<Longrightarrow> flow c (adding m Tls_in w) c2 \<Longrightarrow> io_le c1 c2 \<Longrightarrow> Q s c2"
    and "\<And>k c2. k \<in> aborts \<Longrightarrow> E k c2"
  shows "wp ssl_getline Q E c1"
  by (rule wp_frame_io [OF lines_io(2) ssl_getline_reads [OF flow_os_ok [OF assms(2,1)]]])
    (auto elim!: flow_line [OF assms(2)] intro: assms(3,4))

lemma sends_aborts:
  assumes "sends ch bs m c" "stops aborts m"
  shows "wp m (\<lambda>_ c'. extends c c' ch bs) (\<lambda>k _. k \<in> aborts) c"
proof -
  have "wp m (\<lambda>_ c'. extends c c' ch bs) (\<lambda>_ c'. \<exists>n. extends c c' ch (take n bs)) c"
    using assms(1) by (simp add: sends_def)
  from wp_stops [OF assms(2) this] show ?thesis by (rule wp_mono) auto
qed

lemma lines_aborts [frame_intros]: "stops aborts (fd_putline f s)" "stops aborts (ssl_putline s)"
  unfolding fd_putline_def ssl_putline_def by (auto intro!: frame_intros simp: Let_def)

text \<open>The bytes a line is sent as.\<close>

definition as_line :: "string \<Rightarrow> byte list" where "as_line s = raw (s @ CRLF)"

lemma wp_putline:
  assumes "os_ok (os (env c))" "flow c m c1"
    and "\<And>u c2. flow c (adding m (Out f) (as_line s)) c2 \<Longrightarrow> io_le c1 c2 \<Longrightarrow> Q u c2"
    and "\<And>k c2. k \<in> aborts \<Longrightarrow> E k c2"
  shows "wp (fd_putline f s) Q E c1"
proof (rule wp_frame_io [OF lines_io(4) sends_aborts [OF _ lines_aborts(1)]])
  show "sends (Out f) (as_line s) (fd_putline f s) c1"
    unfolding as_line_def by (rule fd_putline_sends [OF flow_os_ok [OF assms(2,1)]])
qed (auto intro: flow_extends [OF assms(2)] assms(3,4))

lemma wp_ssl_putline:
  assumes "os_ok (os (env c))" "flow c m c1"
    and "\<And>u c2. flow c (adding m Tls_out (as_line s)) c2 \<Longrightarrow> io_le c1 c2 \<Longrightarrow> Q u c2"
    and "\<And>k c2. k \<in> aborts \<Longrightarrow> E k c2"
  shows "wp (ssl_putline s) Q E c1"
proof (cases "length (s @ CRLF) > 2147483647")
  case True
  then show ?thesis by (simp add: ssl_putline_def wp_stopM assms(4) del: length_append)
next
  case False
  then have "ssl_putline s = s_ssl_write (as_line s)"
    by (simp only: ssl_putline_def as_line_def Let_def if_False)
  then show ?thesis
    using wp_frame_io [OF s_ssl_write_io sends_aborts
        [OF s_ssl_write_sends [OF flow_os_ok [OF assms(2,1)]] io_aborts(5)], where Q = Q and E = E]
    by (auto intro: flow_extends [OF assms(2)] assms(3,4))
qed

lemma wp_flow_hush:
  assumes "keeps hush m'" "flow c m c1"
    and "\<And>a c2. flow c m c2 \<Longrightarrow> io_le c1 c2 \<Longrightarrow> Q a c2" "\<And>k c2. E k c2"
  shows "wp m' Q E c1"
  using assms(1) by (rule wp_keeps) (auto intro!: assms(3,4) simp: flow_hush [OF assms(2)] hush_io)

section \<open>Frames of the line readers\<close>

lemma getline_loop_holds: "keeps holds rd \<Longrightarrow> keeps holds (getline_loop rd b)"
  unfolding getline_loop_def by (auto intro!: holds.rules frame_intros simp: Let_def split: prod.split)

lemma lines_holds [frame_intros]:
  "keeps holds (fd_getline f)" "keeps holds ssl_getline" "keeps holds ssl_getstring"
  "keeps holds (fd_putline f l)" "keeps holds (ssl_putline l)"
  unfolding fd_getline_def ssl_getline_def ssl_getstring_def fd_putline_def ssl_putline_def
  by (auto intro!: holds.rules frame_intros getline_loop_holds simp: Let_def split: prod.split)

lemma ticks_read: "0 < n \<Longrightarrow> ticks (s_read f n)" "ticks (s_ssl_read 1)"
  unfolding s_read_def s_ssl_read_def seqM_def
  by (rule ticks_loopM; auto intro!: ticks_bind2 [OF wait_one_moves] ticks_bind2 [OF mv.getM] ticks_bind1 mv.rules wait_one_moves simp: seqM_def)+

lemma getline_loop_live:
  "live rd \<Longrightarrow> keeps moves rd \<Longrightarrow> ticks rd \<Longrightarrow> live (getline_loop rd b)"
  unfolding getline_loop_def
  by (rule live_loopM) (auto intro!: live_rules mv.rules frame_intros ticks_bind1 rounds_ticks simp: Let_def split: prod.split)

lemma lines_live [frame_intros]:
  "live (fd_getline f)" "live ssl_getline" "live ssl_getstring"
  "live (fd_putline f l)" "live (ssl_putline l)"
  unfolding fd_getline_def ssl_getline_def ssl_getstring_def fd_putline_def ssl_putline_def
  using ticks_read
  by (auto intro!: live_rules frame_intros getline_loop_live io_moves simp: Let_def split: prod.split)

lemma getline_loop_ticks: "ticks rd \<Longrightarrow> keeps moves rd \<Longrightarrow> ticks (getline_loop rd b)"
  unfolding getline_loop_def
  by (rule ticks_loopM) (auto intro!: mv.rules frame_intros ticks_bind1 simp: Let_def split: prod.split)

lemma ticks_lines: "ticks (fd_getline f)" "ticks ssl_getline" "ticks ssl_getstring"
  unfolding fd_getline_def ssl_getline_def ssl_getstring_def
  using ticks_read
  by (auto intro!: ticks_bind1 mv.rules getline_loop_ticks io_moves frame_intros split: prod.split)

lemma rounds_lines [frame_intros]:
  "(\<And>a. keeps moves (f a)) \<Longrightarrow> rounds (bindM (fd_getline g) f)"
  "(\<And>a. keeps moves (k a)) \<Longrightarrow> rounds (bindM ssl_getline k)"
  by (auto intro!: rounds_ticks ticks_bind1 ticks_lines)

lemma lines_moves [frame_intros]:
  "keeps moves (fd_getline f)" "keeps moves (fd_putline f l)" "keeps moves ssl_getline" "keeps moves (ssl_putline l)"
  by (auto intro!: io_moves frame_intros)

section \<open>Civil computations\<close>

text \<open>What the negotiations have in common with all they call: descriptors are neither opened nor
  closed, the environment only moves on, and nothing blocks before the observation ends.\<close>

definition civil :: "'a cm \<Rightarrow> bool" where
  "civil m \<longleftrightarrow> keeps holds m \<and> keeps moves m \<and> live m"

lemma civil_io: "keeps io_le m \<Longrightarrow> keeps holds m \<Longrightarrow> live m \<Longrightarrow> civil m"
  by (simp add: civil_def io_moves)

lemma civil_basic [simp]: "civil (retM a)" "civil (getM f)" "civil (stopM (Longjmp n))" "civil (stopM Overflow)" "civil (stopM Fatal)"
  "civil (stopM Null_deref)"
  by (auto simp: civil_def intro: holds.rules mv.rules)

lemma civil_modM: "(\<And>c. env (f c) = env c \<and> fd_state (f c) = fd_state c) \<Longrightarrow> civil (modM f)"
  by (auto simp: civil_def holds_def held_def moves_def env_le_def intro!: holds.modM mv.modM)

lemma fd_state_simps [simp]:
  "fd_state (c\<lparr>opt := x\<rparr>) = fd_state c" "fd_state (c\<lparr>connect_addr := l\<rparr>) = fd_state c"
  "fd_state (c\<lparr>fds := p\<rparr>) = fd_state c" "fd_state (c\<lparr>env := e\<rparr>) = fd_state c"
  by (simp_all add: fd_state_def)

lemma civil_bindM: "civil m \<Longrightarrow> (\<And>a. civil (f a)) \<Longrightarrow> civil (bindM m f)"
  by (simp add: civil_def holds.bindM mv.bindM live_bindM)

lemma civil_seqM: "civil m \<Longrightarrow> civil m' \<Longrightarrow> civil (seqM m m')"
  by (simp add: civil_def holds.seqM mv.seqM live_seqM)

lemma civil_if: "(b \<Longrightarrow> civil m) \<Longrightarrow> (\<not> b \<Longrightarrow> civil m') \<Longrightarrow> civil (if b then m else m')"
  by simp

lemma civil_sys: "fd_neutral q \<Longrightarrow> civil (sys q)" "fd_neutral q \<Longrightarrow> civil (ssl_sys q)"
  by (auto simp: civil_def intro: holds.rules mv.rules)

lemma civil_loopM:
  assumes "\<And>a. civil (body a)" "\<And>a. rounds (body a)"
  shows "civil (loopM body a)"
  using assms by (auto simp: civil_def intro!: holds.loopM mv.loopM live_loopM)

lemmas civil_rules = civil_modM civil_bindM civil_seqM civil_if civil_sys

lemma civil_netio [frame_intros]:
  "civil (s_read f n)" "civil (s_write f bs)" "civil (s_ssl_read n)" "civil (s_ssl_write bs)"
  "civil (fd_getline f)" "civil ssl_getline" "civil ssl_getstring" "civil (fd_putline f l)"
  "civil (ssl_putline l)" "civil (original_dst f)" "civil (s_poll_wait s t)" "civil poll_init"
  "civil (poll_add f r w)" "civil (s_connect a)" "civil (set_socket_options f k)"
  "civil (get_socket_error f)" "civil (wait_one f r w)"
  by (auto intro!: civil_io frame_intros)

lemma civil_resolver [frame_intros]:
  "civil (hostport2addrlist l h p)" "civil (name2addrlist l n)" "civil (name2addr n b)"
  "civil (hostport2addr hn p b)" "civil (addrlist_resolve l)" "civil (addrlist_dup w l)" "civil (s_ntop a k)"
  by (auto intro!: civil_io frame_intros)

section \<open>Safe computations\<close>

text \<open>With an environment that keeps its laws, a negotiation returns, gives up, or waits: it never
  writes outside a buffer nor follows a NULL pointer.\<close>

definition safe :: "'a cm \<Rightarrow> bool" where
  "safe m \<longleftrightarrow> (\<forall>c. os_ok (os (env c)) \<longrightarrow>
     wp m (\<lambda>_ c'. os (env c') = os (env c)) (\<lambda>k _. k \<in> refuses) c)"

lemma safe_frame:
  assumes "keeps moves m" "\<And>c. os_ok (os (env c)) \<Longrightarrow> wp m (\<lambda>_ _. True) (\<lambda>k _. k \<in> refuses) c"
  shows "safe m"
  unfolding safe_def
proof (intro allI impI)
  fix c :: cli
  assume ok: "os_ok (os (env c))"
  have "wp m (\<lambda>_. moves c) (\<lambda>_. moves c) c" using assms(1) by (simp add: keeps_def)
  from wp_conj [OF assms(2) [OF ok] this]
  show "wp m (\<lambda>_ c'. os (env c') = os (env c)) (\<lambda>k _. k \<in> refuses) c"
    by (rule wp_mono) (auto simp: moves_def env_le_def)
qed

lemma safe_stops: "keeps moves m \<Longrightarrow> stops refuses m \<Longrightarrow> safe m"
  by (rule safe_frame) (auto simp: stops_def wp_def split: res.split)

lemma safe_basic [simp]: "safe (retM a)" "safe (stopM Fatal)" "safe (getM f)" "safe (stopM (Longjmp 1))"
  "safe (stopM (Longjmp (Suc 0)))" "safe (stopM (Longjmp 2))"
  by (auto intro!: safe_stops mv.rules)

lemma safe_modM: "(\<And>c. env (f c) = env c) \<Longrightarrow> safe (modM f)"
  by (auto intro!: safe_stops mv.modM simp: moves_def env_le_def)

lemma safe_sys: "safe (sys q)" "safe (ssl_sys q)"
  by (auto intro!: safe_stops mv.rules stops_rules)

lemma safe_bindM: "safe m \<Longrightarrow> (\<And>a. safe (f a)) \<Longrightarrow> safe (bindM m f)"
  unfolding safe_def wp_bindM
proof (intro allI impI)
  fix c :: cli
  assume m: "\<forall>c. os_ok (os (env c)) \<longrightarrow> wp m (\<lambda>_ c'. os (env c') = os (env c)) (\<lambda>k _. k \<in> refuses) c"
    and f: "\<And>a. \<forall>c. os_ok (os (env c)) \<longrightarrow> wp (f a) (\<lambda>_ c'. os (env c') = os (env c)) (\<lambda>k _. k \<in> refuses) c"
    and ok: "os_ok (os (env c))"
  show "wp m (\<lambda>a. wp (f a) (\<lambda>_ c'. os (env c') = os (env c)) (\<lambda>k _. k \<in> refuses)) (\<lambda>k _. k \<in> refuses) c"
  proof (rule wp_mono [OF m [rule_format, OF ok]])
    fix a and c1 :: cli
    assume "os (env c1) = os (env c)"
    then show "wp (f a) (\<lambda>_ c'. os (env c') = os (env c)) (\<lambda>k _. k \<in> refuses) c1"
      using f [rule_format, of c1 a] ok by simp
  qed simp
qed

lemma safe_seqM: "safe m \<Longrightarrow> safe m' \<Longrightarrow> safe (seqM m m')"
  by (simp add: seqM_def safe_bindM)

lemma safe_if: "(b \<Longrightarrow> safe m) \<Longrightarrow> (\<not> b \<Longrightarrow> safe m') \<Longrightarrow> safe (if b then m else m')"
  by simp

lemma safe_loopM: "(\<And>a. safe (body a)) \<Longrightarrow> safe (loopM body a)"
  unfolding safe_def
proof (intro allI impI)
  fix c :: cli
  assume body: "\<And>a. \<forall>c. os_ok (os (env c)) \<longrightarrow> wp (body a) (\<lambda>_ c'. os (env c') = os (env c)) (\<lambda>k _. k \<in> refuses) c"
    and ok: "os_ok (os (env c))"
  show "wp (loopM body a) (\<lambda>_ c'. os (env c') = os (env c)) (\<lambda>k _. k \<in> refuses) c"
  proof (rule wp_loopM [where I = "\<lambda>_ c'. os (env c') = os (env c)"])
    fix a and c1 :: cli
    assume c1: "os (env c1) = os (env c)"
    then have "wp (body a) (\<lambda>_ c'. os (env c') = os (env c1)) (\<lambda>k _. k \<in> refuses) c1"
      using body [rule_format, of c1 a] ok by simp
    then show "wp (body a) (\<lambda>r c'. case r of Inl b \<Rightarrow> os (env c') = os (env c) | Inr a' \<Rightarrow> os (env c') = os (env c))
        (\<lambda>k _. k \<in> refuses) c1"
      by (rule wp_mono) (auto simp: c1 split: sum.split)
  qed auto
qed

lemmas safe_rules = safe_modM safe_bindM safe_seqM safe_if safe_sys safe_loopM

lemma safe_netio [frame_intros]:
  "safe (s_read f n)" "safe (s_write f bs)" "safe (s_ssl_read n)" "safe (s_ssl_write bs)"
  "safe (fd_putline f l)" "safe (ssl_putline l)" "safe (s_poll_wait s t)"
  "safe (wait_one f r w)"
  by (auto intro!: safe_stops aborts_refuses frame_intros io_moves)

lemma safe_lines [frame_intros]: "safe (fd_getline f)" "safe ssl_getline" "safe ssl_getstring"
proof -
  show "safe (fd_getline f)"
    by (rule safe_frame [OF io_moves [OF lines_io(1)]])
      (auto dest!: fd_getline_reads [where f = f] elim!: wp_mono simp: aborts_def refuses_def)
  show "safe ssl_getline"
    by (rule safe_frame [OF io_moves [OF lines_io(2)]])
      (auto dest!: ssl_getline_reads elim!: wp_mono simp: aborts_def refuses_def)
  show "safe ssl_getstring"
    by (rule safe_frame [OF io_moves [OF lines_io(3)]])
      (auto dest!: ssl_getstring_reads elim!: wp_mono simp: aborts_def refuses_def)
qed

lemma safe_calls [frame_intros]: "safe poll_init" "safe (poll_add f r w)" "safe (original_dst f)"
  "safe (hostport2addrlist l h p)" "safe (name2addrlist l n)" "safe (name2addr n b)"
  "safe (hostport2addr hn p b)" "safe (addrlist_resolve l)" "safe (addrlist_dup v l)" "safe (s_ntop a k)"
  "safe (get_socket_error f)" "safe (set_socket_options f k)"
proof -
  show "safe poll_init" "safe (poll_add f r w)"
    unfolding poll_init_def poll_add_def by (auto intro!: safe_rules)
  show "safe (get_socket_error f)" "safe (original_dst f)"
    unfolding get_socket_error_def original_dst_def by (auto intro!: safe_rules simp: Let_def)
  show "safe (set_socket_options f k)"
    by (rule safe_stops [OF io_moves [OF set_socket_options_io]])
      (auto intro!: stops_rules simp: set_socket_options_def Let_def split: list.split)
qed (auto intro!: safe_stops frame_intros io_moves)

lemma safe_connect [frame_intros]: "safe (s_connect a)"
  unfolding s_connect_def by (auto intro!: safe_rules frame_intros simp: Let_def)

end
