(* ===== verification/Socks.thy ===== *)
theory Socks
  imports Dialog
begin

unbundle bit_operations_syntax

text \<open>
  The binary negotiations of protocol.c: SOCKS 4, 4a and 5 over TLS, the PROXY header, CIFS and
  PostgreSQL. The theorems are about what a peer can achieve: no accepted SOCKS request leads to
  the loopback, every reply has the format its protocol asks for, and no request writes outside the
  buffer it is read into.
\<close>

datatype phase = PROTOCOL_CHECK | PROTOCOL_EARLY | PROTOCOL_MIDDLE | PROTOCOL_LATE

section \<open>SOCKS, client side\<close>

definition socks5_client_method :: "unit cm" where
  "socks5_client_method =
    seqM (s_ssl_write [5, 1, 0])
      (bindM (s_ssl_read 2) (\<lambda>resp.
        if resp ! 0 \<noteq> 5 then stopM (Longjmp 2)
        else if resp ! 1 \<noteq> 0 then stopM (Longjmp 2)
        else retM ()))"

text \<open>The request for an address: version 5, CONNECT, reserved, address type, address, port.\<close>

fun socks5_request :: "sockaddr \<Rightarrow> byte list option" where
  "socks5_request (AF_INET a p) = Some ([5, 1, 0, 1] @ a @ p)"
| "socks5_request (AF_INET6 a p) = Some ([5, 1, 0, 4] @ a @ p)"
| "socks5_request a = None"

definition socks5_client_reply :: "unit cm" where
  "socks5_client_reply =
    bindM (s_ssl_read 4) (\<lambda>h.
    bindM (s_ssl_read (if h ! 3 = 4 then 16 + 2 else 4 + 2)) (\<lambda>_.
      if h ! 0 \<noteq> 5 then stopM (Longjmp 2)
      else if h ! 1 = 0 then retM ()
      else stopM (Longjmp 2)))"

definition socks5_client_address :: "unit cm" where
  "socks5_client_address =
    bindM (getM local_rd) (\<lambda>f.
    bindM (original_dst f) (\<lambda>dst. case dst of
        None \<Rightarrow> stopM (Longjmp 2)
      | Some addr \<Rightarrow> (case socks5_request addr of
            None \<Rightarrow> stopM (Longjmp 2)
          | Some req \<Rightarrow> seqM (s_ssl_write req) socks5_client_reply)))"

definition socks_client :: "phase \<Rightarrow> string option cm" where
  "socks_client ph =
    (if ph \<noteq> PROTOCOL_LATE then retM None
     else seqM socks5_client_method (seqM socks5_client_address (retM None)))"

section \<open>SOCKS, server side\<close>

definition ipv6_loopback :: "byte list" where
  "ipv6_loopback = [0, 0, 0, 0, 0, 0, 0, 0, 0, 0, 0, 0, 0, 0, 0, 1]"

fun allowed :: "sockaddr \<Rightarrow> bool" where
  "allowed (AF_INET6 a p) \<longleftrightarrow> take 16 a \<noteq> ipv6_loopback"
| "allowed (AF_INET a p) \<longleftrightarrow> (of_nat (be_nat a) :: 32 word) AND 0xff000000 \<noteq> 0x7f000000"
| "allowed _ \<longleftrightarrow> False"

definition validate :: "bool cm" where
  "validate = getM (\<lambda>c. list_all allowed (al_addr (connect_addr c)))"

definition set_target :: "sockaddr \<Rightarrow> unit cm" where
  "set_target a = modM (\<lambda>c. c\<lparr>connect_addr := (connect_addr c)\<lparr>al_addr := [a]\<rparr>\<rparr>)"

definition resolve_target :: "string \<Rightarrow> byte list \<Rightarrow> unit cm" where
  "resolve_target host port =
    bindM (getM connect_addr) (\<lambda>l.
    bindM (hostport2addrlist l (Some host) (dec (be_nat port))) (\<lambda>(l', _).
      modM (\<lambda>c. c\<lparr>connect_addr := l'\<rparr>)))"

definition has_target :: "cli \<Rightarrow> bool" where
  "has_target c \<longleftrightarrow> al_num (connect_addr c) \<noteq> 0"

text \<open>The answer of a branch: the result code, whether the connection goes on, and the address
  field of the reply.\<close>

definition verdict :: "byte \<Rightarrow> byte \<Rightarrow> (byte \<times> bool) cm" where
  "verdict granted rejected = bindM validate (\<lambda>v. retM (if v then (granted, True) else (rejected, False)))"

definition socks4_connect :: "byte list \<Rightarrow> byte list \<Rightarrow> (byte \<times> bool) cm" where
  "socks4_connect port addr =
    (if 0 < be_nat addr \<and> be_nat addr < 256 then
       bindM ssl_getstring (\<lambda>host.
       seqM (resolve_target host port)
         (bindM (getM has_target) (\<lambda>t. if t then verdict 90 91 else retM (91, False))))
     else seqM (set_target (AF_INET addr port)) (verdict 90 91))"

definition socks4_server :: "unit cm" where
  "socks4_server =
    bindM (s_ssl_read 7) (\<lambda>req.
    let cd = req ! 0; port = take 2 (drop 1 req); addr = take 4 (drop 3 req) in
    bindM ssl_getstring (\<lambda>_.
    bindM (if cd = 1 then bindM (socks4_connect port addr) (\<lambda>(code, ok). retM (code, ok, addr))
           else if cd = 0xf0 then
             bindM ssl_getstring (\<lambda>host.
             bindM (hostport2addr host ''0'' False) (\<lambda>r.
               retM (case r of Some (AF_INET a p) \<Rightarrow> (90, False, a) | _ \<Rightarrow> (91, False, addr))))
           else retM (91, False, addr)) (\<lambda>(code, ok, addr').
    seqM (s_ssl_write ([0, code] @ port @ addr'))
      (if ok then retM () else stopM (Longjmp 2)))))"

definition socks5_server_method :: "unit cm" where
  "socks5_server_method =
    bindM (s_ssl_read 1) (\<lambda>n.
    bindM (s_ssl_read (unat (n ! 0))) (\<lambda>methods.
    let method = (if 0 \<in> set methods then 0 else 0xff) in
    seqM (s_ssl_write [5, method])
      (if method \<noteq> 0 then stopM (Longjmp 2) else retM ())))"

text \<open>\<open>SOCKS5_UNION\<close> is an array of 22 bytes: \<open>ver\<close>, \<open>cmd\<close> or \<open>rep\<close>, \<open>rsv\<close>, \<open>atyp\<close>, then the
  address and the port.\<close>

definition socks5_connect :: "byte list \<Rightarrow> (byte list \<times> bool) cm" where
  "socks5_connect socks =
    (if socks ! 3 = 1 then
       seqM (set_target (AF_INET [0, 0, 0, 0] [0, 0]))
         (bindM (s_ssl_read (4 + 2)) (\<lambda>r.
          seqM (set_target (AF_INET (take 4 r) (drop 4 r)))
            (bindM (verdict 0 2) (\<lambda>(rep, ok). retM ((memcpy_at socks 4 r)[1 := rep], ok)))))
     else if socks ! 3 = 3 then
       bindM (s_ssl_read 1) (\<lambda>len.
       bindM (s_ssl_read (unat (len ! 0))) (\<lambda>name.
       bindM (s_ssl_read 2) (\<lambda>port.
       seqM (resolve_target (cstr name) port)
         (bindM (getM has_target) (\<lambda>t.
          bindM (if t then verdict 0 2 else retM (4, False)) (\<lambda>(rep, ok).
            retM (socks[1 := rep], ok)))))))
     else if socks ! 3 = 4 then
       seqM (set_target (AF_INET6 (replicate 16 0) [0, 0]))
         (bindM (s_ssl_read (16 + 2)) (\<lambda>r.
          seqM (set_target (AF_INET6 (take 16 r) (drop 16 r)))
            (bindM (verdict 0 2) (\<lambda>(rep, ok). retM ((memcpy_at socks 4 r)[1 := rep], ok)))))
     else retM (socks[1 := 7], False))"

definition socks5_resolve :: "byte list \<Rightarrow> byte list cm" where
  "socks5_resolve socks =
    bindM (s_ssl_read 1) (\<lambda>len.
    bindM (s_ssl_read (unat (len ! 0))) (\<lambda>name.
    bindM (s_ssl_read 2) (\<lambda>port.
    bindM (hostport2addr (cstr name) (dec (be_nat port)) False) (\<lambda>r.
      retM (case r of
          Some (AF_INET a p) \<Rightarrow> (memcpy_at socks 4 a)[3 := 1, 1 := 0]
        | Some (AF_INET6 a p) \<Rightarrow> (memcpy_at socks 4 a)[3 := 4, 1 := 0]
        | _ \<Rightarrow> socks[1 := 4])))))"

definition socks5_reply :: "byte list \<Rightarrow> unit cm" where
  "socks5_reply socks =
    (if socks ! 3 = 4 then s_ssl_write (take 22 socks) else s_ssl_write (take 10 (socks[3 := 1])))"

definition socks5_command :: "byte list \<Rightarrow> (byte list \<times> bool) cm" where
  "socks5_command socks =
    (if socks ! 0 \<noteq> 5 then retM (socks[0 := 5, 1 := 1], False)
     else if socks ! 1 = 1 then socks5_connect socks
     else if socks ! 1 = 0xf0 then bindM (socks5_resolve socks) (\<lambda>s. retM (s, False))
     else retM (socks[1 := 7], False))"

definition socks5_answer :: "byte list \<times> bool \<Rightarrow> unit cm" where
  "socks5_answer = (\<lambda>(socks, ok).
    seqM (socks5_reply socks) (if ok then retM () else stopM (Longjmp 2)))"

definition socks5_server :: "unit cm" where
  "socks5_server =
    bindM (s_ssl_read 4) (\<lambda>h.
    bindM (socks5_command (memcpy_at (replicate 22 0) 0 h)) socks5_answer)"

definition socks_server :: "phase \<Rightarrow> string option cm" where
  "socks_server ph = (case ph of
      PROTOCOL_CHECK \<Rightarrow>
        seqM (modM (\<lambda>c. c\<lparr>opt := (opt c)\<lparr>o_protocol_endpoint := True\<rparr>\<rparr>)) (retM None)
    | PROTOCOL_MIDDLE \<Rightarrow>
        bindM (s_ssl_read 1) (\<lambda>v.
          if v ! 0 = 4 then seqM socks4_server (retM None)
          else if v ! 0 = 5 then seqM socks5_server_method (seqM socks5_server (retM None))
          else stopM (Longjmp 1))
    | _ \<Rightarrow> retM None)"

section \<open>PROXY\<close>

definition proxy_name :: "sockaddr \<Rightarrow> string" where
  "proxy_name a = (case a of AF_INET _ _ \<Rightarrow> ''TCP4'' | AF_INET6 _ _ \<Rightarrow> ''TCP6'' | _ \<Rightarrow> ''UNKNOWN'')"

definition proxy_server :: "phase \<Rightarrow> string option cm" where
  "proxy_server ph =
    (if ph \<noteq> PROTOCOL_LATE then retM None
     else bindM (getM local_rd) (\<lambda>f.
       bindM (sys (Getpeername f)) (\<lambda>peer.
       if a_ret peer \<noteq> 0 then stopM (Longjmp 1) else
       bindM (sys (Getnameinfo (a_addr peer))) (\<lambda>src.
       if a_ret src \<noteq> 0 then stopM (Longjmp 1) else
       bindM (sys (Getsockname f)) (\<lambda>own.
       if a_ret own \<noteq> 0 then stopM (Longjmp 1) else
       bindM (sys (Getnameinfo (a_addr own))) (\<lambda>dst.
       if a_ret dst \<noteq> 0 then stopM (Longjmp 1) else
       bindM (getM remote) (\<lambda>r.
       seqM (fd_putline r (''PROXY '' @ proxy_name (a_addr own) @ '' '' @ a_host src @ '' '' @
          a_host dst @ '' '' @ a_port src @ '' '' @ a_port dst)) (retM None))))))))"

section \<open>CIFS and PostgreSQL\<close>

definition cifs_client :: "phase \<Rightarrow> string option cm" where
  "cifs_client ph =
    (if ph \<noteq> PROTOCOL_MIDDLE then retM None
     else bindM (getM remote) (\<lambda>r.
       seqM (s_write r [0x81, 0, 0, 0])
         (bindM (s_read r 5) (\<lambda>buffer.
           if buffer ! 0 \<noteq> 0x83 then stopM (Longjmp 1)
           else if buffer ! 2 \<noteq> 0 \<or> buffer ! 3 \<noteq> 1 then stopM (Longjmp 1)
           else if buffer ! 4 \<noteq> 0x8e then stopM (Longjmp 1)
           else retM None))))"

definition cifs_server :: "phase \<Rightarrow> string option cm" where
  "cifs_server ph =
    (if ph \<noteq> PROTOCOL_EARLY then retM None
     else bindM (getM local_rd) (\<lambda>f. bindM (getM local_wr) (\<lambda>w.
       bindM (s_read f 4) (\<lambda>header.
       let buffer = memcpy_at (replicate 128 0) 0 header;
           len = push_bit 8 (ucast (buffer ! 2)) OR ucast (buffer ! 3) :: 16 word
       in if unat len > 128 - 4 then stopM (Longjmp 1)
          else bindM (s_read f (unat len)) (\<lambda>body.
            if 4 + length body > length buffer then stopM Overflow
            else let buffer' = memcpy_at buffer 4 body
              in if buffer' ! 0 \<noteq> 0x81
                 then seqM (s_write w [0x83, 0, 0, 1, 0x81]) (stopM (Longjmp 1))
                 else seqM (s_write w [0x83, 0, 0, 1, 0x8e]) (retM None))))))"

definition ssl_request :: "byte list" where
  "ssl_request = [0, 0, 0, 8, 0x04, 0xd2, 0x16, 0x2f]"

definition pgsql_client :: "phase \<Rightarrow> string option cm" where
  "pgsql_client ph =
    (if ph \<noteq> PROTOCOL_MIDDLE then retM None
     else bindM (getM remote) (\<lambda>r.
       seqM (s_write r ssl_request)
         (bindM (s_read r 1) (\<lambda>buffer.
           if buffer ! 0 \<noteq> of_char CHR ''S'' then stopM (Longjmp 1) else retM None))))"

definition pgsql_server :: "phase \<Rightarrow> string option cm" where
  "pgsql_server ph =
    (if ph \<noteq> PROTOCOL_EARLY then retM None
     else bindM (getM local_rd) (\<lambda>f. bindM (getM local_wr) (\<lambda>w.
       bindM (s_read f 8) (\<lambda>buffer.
         if safe_memcmp buffer ssl_request 8 then stopM (Longjmp 1)
         else seqM (s_write w [of_char CHR ''S'']) (retM None)))))"

section \<open>Where a SOCKS client gets to\<close>

definition target_ok :: "cli \<Rightarrow> bool" where
  "target_ok c \<longleftrightarrow> has_target c \<and> list_all allowed (al_addr (connect_addr c))"

lemmas skips = wp_skip [where m = "s_ssl_read n" for n] wp_skip [where m = "s_ssl_write b" for b]
  wp_skip [where m = "ssl_getstring"] wp_skip [where m = "resolve_target h p" for h p]
  wp_skip [where m = "hostport2addr h p b" for h p b] wp_skip [where m = "socks5_resolve s" for s]
  wp_skip [where m = "socks5_server_method"] wp_skip [where m = "socks5_reply s" for s]

lemma target_io: "io_le c c' \<Longrightarrow> target_ok c' = target_ok c"
  by (simp add: target_ok_def has_target_def io_le_fields)

lemma wp_io_target:
  assumes "keeps io_le m" "target_ok c"
    and "\<And>a c'. target_ok c' \<Longrightarrow> Q a c'"
  shows "wp m Q (\<lambda>_ _. True) c"
  using assms(1) by (rule wp_keeps) (auto simp: target_io assms)

lemma verdict_target:
  "wp (verdict g r) (\<lambda>(code, ok) c'. (ok \<longrightarrow> list_all allowed (al_addr (connect_addr c'))) \<and>
     c' = c \<and> code = (if ok then g else r)) (\<lambda>_ _. True) c"
  by (simp add: verdict_def validate_def wp_simps)

lemma socks4_connect_target:
  "wp (socks4_connect port addr) (\<lambda>(code, ok) c'. ok \<longrightarrow> target_ok c' \<and> code = 90) (\<lambda>_ _. True) c"
  unfolding socks4_connect_def
  by (auto simp: wp_if wp_bindM wp_seqM wp_getM wp_retM set_target_def wp_modM target_ok_def has_target_def
      al_num_def verdict_def validate_def intro!: skips)

lemma socks5_connect_target:
  "wp (socks5_connect socks) (\<lambda>(s, ok) c'. ok \<longrightarrow> target_ok c') (\<lambda>_ _. True) c"
  unfolding socks5_connect_def
  by (auto simp: wp_if wp_bindM wp_seqM wp_getM wp_retM set_target_def wp_modM target_ok_def has_target_def
      al_num_def verdict_def validate_def intro!: skips)

lemma reply_target:
  assumes "keeps io_le m" "ok \<longrightarrow> target_ok c"
  shows "wp (seqM m (if ok then retM () else stopM (Longjmp 2))) (\<lambda>_. target_ok) (\<lambda>_ _. True) c"
proof (cases ok)
  case True
  then show ?thesis using assms by (auto simp: wp_simps intro: wp_io_target [of m])
next
  case False
  then show ?thesis by (simp add: wp_seqM wp_stopM wp_skip)
qed

lemma socks4_server_target: "wp socks4_server (\<lambda>_. target_ok) (\<lambda>_ _. True) c"
  unfolding socks4_server_def wp_bindM Let_def
proof (rule wp_skip, rule wp_skip, rule wp_mono)
  fix req user c
  let ?cd = "req ! 0 :: byte"
  show "wp (if ?cd = 1 then bindM (socks4_connect (take 2 (drop 1 req)) (take 4 (drop 3 req))) (\<lambda>(code, ok). retM (code, ok, take 4 (drop 3 req)))
           else if ?cd = 0xf0 then
             bindM ssl_getstring (\<lambda>host.
             bindM (hostport2addr host ''0'' False) (\<lambda>r.
               retM (case r of Some (AF_INET a p) \<Rightarrow> (90, False, a) | _ \<Rightarrow> (91, False, take 4 (drop 3 req)))))
           else retM (91, False, take 4 (drop 3 req))) (\<lambda>(code, ok, a) c'. ok \<longrightarrow> target_ok c') (\<lambda>_ _. True) c"
    by (auto simp: wp_if wp_bindM wp_retM intro!: skips wp_mono [OF socks4_connect_target]
        split: option.split sockaddr.split)
qed (auto intro!: reply_target frame_intros)

lemma socks5_reply_io [frame_intros]: "keeps io_le (socks5_reply s)"
  unfolding socks5_reply_def by (auto intro!: frame_intros)

lemma socks5_server_target: "wp socks5_server (\<lambda>_. target_ok) (\<lambda>_ _. True) c"
proof -
  have "wp (socks5_command s) (\<lambda>(s, ok) c'. ok \<longrightarrow> target_ok c') (\<lambda>_ _. True) c" for s c
    unfolding socks5_command_def using socks5_connect_target
    by (auto simp: wp_if wp_bindM wp_retM intro!: skips)
  show ?thesis
    unfolding socks5_server_def wp_bindM
  proof (rule wp_skip, rule wp_mono)
    fix h c
    show "wp (socks5_command (memcpy_at (replicate 22 0) 0 h)) (\<lambda>(s, ok) c'. ok \<longrightarrow> target_ok c') (\<lambda>_ _. True) c"
      by fact
  qed (auto simp: socks5_answer_def intro!: reply_target frame_intros)
qed

lemma socks_server_target:
  "wp (socks_server PROTOCOL_MIDDLE) (\<lambda>r c'. r = None \<and> target_ok c') (\<lambda>_ _. True) c"
  unfolding socks_server_def
  by (auto simp: wp_if wp_bindM wp_seqM wp_retM wp_stopM intro!: skips
      wp_mono [OF socks4_server_target] wp_mono [OF socks5_server_target])

text \<open>In bytes: an allowed address is inet and not the loopback network, nor \<open>::1\<close>.\<close>

lemma byte_less: "unat b < 256" for b :: byte
proof -
  have "unat b < 2 ^ LENGTH(8)" by (rule unsigned_less)
  then show ?thesis by simp
qed

lemma be_nat_4: "be_nat [a, b, c, d] div 2 ^ 24 = unat a"
  using byte_less [of b] byte_less [of c] byte_less [of d] by (simp add: be_nat_def)

lemma allowed_inet: "allowed (AF_INET [a, b, c, d] p) \<longleftrightarrow> a \<noteq> 127"
proof -
  let ?w = "of_nat (be_nat [a, b, c, d]) :: 32 word"
  have lt: "be_nat [a, b, c, d] < 2 ^ 32"
    using byte_less [of a] byte_less [of b] byte_less [of c] byte_less [of d] by (simp add: be_nat_def)
  have and24: "?w AND 0xff000000 = push_bit 24 (drop_bit 24 ?w)"
  proof -
    have m: "(0xff000000 :: 32 word) = push_bit 24 (mask 8)" by (simp add: mask_eq_exp_minus_1)
    show ?thesis unfolding m by (rule bit_word_eqI) (auto simp: bit_simps)
  qed
  have "unat (drop_bit 24 ?w) = drop_bit 24 (unat ?w)"
    by (rule unat_drop_bit_eq)
  also have "\<dots> = be_nat [a, b, c, d] div 2 ^ 24"
    using lt by (simp only: drop_bit_eq_div unat_of_nat) (simp add: take_bit_nat_eq_self)
  finally have u: "unat (drop_bit 24 ?w) = unat a" by (simp only: be_nat_4)
  have "?w AND 0xff000000 = 0x7f000000 \<longleftrightarrow> drop_bit 24 ?w = 127"
  proof
    assume "?w AND 0xff000000 = 0x7f000000"
    then have "drop_bit 24 (push_bit 24 (drop_bit 24 ?w)) = drop_bit 24 (0x7f000000 :: 32 word)"
      by (simp only: and24)
    moreover have "drop_bit 24 (push_bit 24 x) = x" if "unat x < 256" for x :: "32 word"
    proof (rule bit_word_eqI)
      fix n
      assume "n < LENGTH(32)"
      have "take_bit 8 x = x"
        using that by (simp add: word_unat_eq_iff unsigned_take_bit_eq take_bit_nat_eq_self)
      then have "\<not> bit x n" if "8 \<le> n"
        using that by (metis bit_take_bit_iff not_le)
      then show "bit (drop_bit 24 (push_bit 24 x)) n = bit x n"
        by (cases "8 \<le> n") (auto simp: bit_simps)
    qed
    moreover have "unat (drop_bit 24 ?w) < 256" using u byte_less [of a] by simp
    ultimately show "drop_bit 24 ?w = 127" by simp
  next
    assume "drop_bit 24 ?w = 127"
    then have "push_bit 24 (drop_bit 24 ?w) = push_bit 24 127" by (rule arg_cong)
    then show "?w AND 0xff000000 = 0x7f000000" unfolding and24 by simp
  qed
  also have "\<dots> \<longleftrightarrow> unat (drop_bit 24 ?w) = unat (127 :: 32 word)"
    by (simp only: word_unat_eq_iff)
  also have "\<dots> \<longleftrightarrow> a = 127"
    unfolding u by (simp add: word_unat_eq_iff)
  finally show ?thesis by simp
qed

text \<open>The check knows \<open>::1\<close> only: the loopback in its IPv4-mapped form passes.\<close>

lemma allowed_mapped_loopback:
  "allowed (AF_INET6 (replicate 10 0 @ [0xff, 0xff, 127, 0, 0, 1]) p)"
  by code_simp

section \<open>What goes over the wire\<close>

text \<open>A SOCKS5 CONNECT by address: the server reads exactly what the client's \<open>socks5_request\<close> wrote,
  and takes the address it names as its target.\<close>

fun sa_wf :: "sockaddr \<Rightarrow> bool" where
  "sa_wf (AF_INET a p) \<longleftrightarrow> length a = 4 \<and> length p = 2"
| "sa_wf (AF_INET6 a p) \<longleftrightarrow> length a = 16 \<and> length p = 2"
| "sa_wf _ \<longleftrightarrow> False"

definition parsed :: "cli \<Rightarrow> cli \<Rightarrow> byte list \<Rightarrow> bool" where
  "parsed c c' outs \<longleftrightarrow> (\<exists>ins. tls_moved c ins outs c' \<and>
     (\<forall>a. sa_wf a \<and> socks5_request a = Some ins \<longrightarrow> al_addr (connect_addr c') = [a]))"

lemma request_type:
  assumes "sa_wf a" "socks5_request a = Some (h @ r)" "length h = 4"
  shows "a = (if h ! 3 = 1 then AF_INET (take 4 r) (drop 4 r) else AF_INET6 (take 16 r) (drop 16 r))"
    "h ! 3 = 1 \<or> h ! 3 = 4"
proof -
  have hr: "h = take 4 (h @ r)" "r = drop 4 (h @ r)" using assms(3) by simp_all
  have "(h ! 3 = 1 \<or> h ! 3 = 4) \<and>
      a = (if h ! 3 = 1 then AF_INET (take 4 r) (drop 4 r) else AF_INET6 (take 16 r) (drop 16 r))"
  proof (cases a)
    case (AF_INET x p)
    then have "h @ r = [5, 1, 0, 1] @ x @ p" using assms(2) by simp
    then have "h = [5, 1, 0, 1]" "r = x @ p" using hr by simp_all
    then show ?thesis using AF_INET assms(1) by simp
  next
    case (AF_INET6 x p)
    then have "h @ r = [5, 1, 0, 4] @ x @ p" using assms(2) by simp
    then have "h = [5, 1, 0, 4]" "r = x @ p" using hr by simp_all
    then show ?thesis using AF_INET6 assms(1) by simp
  qed (use assms in simp_all)
  then show "a = (if h ! 3 = 1 then AF_INET (take 4 r) (drop 4 r) else AF_INET6 (take 16 r) (drop 16 r))"
    "h ! 3 = 1 \<or> h ! 3 = 4" by simp_all
qed

lemma wp_resolve_target:
  assumes "tls_moved c ins outs c1" "\<And>a c2. tls_moved c ins outs c2 \<Longrightarrow> Q a c2"
  shows "wp (resolve_target h p) Q (\<lambda>_ _. True) c1"
  unfolding resolve_target_def wp_bindM wp_getM
  by (rule wp_talk_hush [OF lookup_hush(2) assms(1)])
    (simp_all add: wp_modM assms(2) split: prod.split)

text \<open>The 22 bytes of the union once a request is granted.\<close>

definition grants :: "byte list \<Rightarrow> bool" where
  "grants s \<longleftrightarrow> length s = 22 \<and> s ! 0 = 5 \<and> s ! 1 = 0"

lemma grants_memcpy_at:
  assumes "length s = 22" "s ! 0 = 5" "length r \<le> 18"
  shows "grants ((memcpy_at s 4 r)[Suc 0 := 0])"
  using assms by (simp add: grants_def memcpy_at_def nth_append)

lemma parses_target:
  assumes "tls_moved c (h @ r) [] c2" "length h = 4"
    and "t = (if h ! 3 = 1 then AF_INET (take 4 r) (drop 4 r) else AF_INET6 (take 16 r) (drop 16 r))"
    and "length s = 22" "s ! 0 = 5" "length r \<le> 18"
  shows "wp (seqM (set_target t) (bindM (verdict 0 2) (\<lambda>(rep, ok). retM ((memcpy_at s 4 r)[Suc 0 := rep], ok))))
      (\<lambda>(s, ok) c'. ok \<longrightarrow> parsed c c' [] \<and> grants s) (\<lambda>_ _. True) c2"
proof -
  have "parsed c (c2\<lparr>connect_addr := (connect_addr c2)\<lparr>al_addr := [t]\<rparr>\<rparr>) []"
    unfolding parsed_def
  proof (intro exI [of _ "h @ r"] conjI allI impI)
    fix a
    assume "sa_wf a \<and> socks5_request a = Some (h @ r)"
    then have "a = t" using request_type(1) [of a h r] assms(2,3) by simp
    then show "al_addr (connect_addr (c2\<lparr>connect_addr := (connect_addr c2)\<lparr>al_addr := [t]\<rparr>\<rparr>)) = [a]" by simp
  qed (use assms(1) in simp)
  then show ?thesis
    using assms(4-6) by (simp add: wp_simps verdict_def validate_def set_target_def grants_memcpy_at)
qed

lemma parses_other:
  assumes "tls_moved c i [] c2" "i ! 3 = 3" "4 \<le> length i"
  shows "parsed c c2 []"
proof -
  have "i = take 4 i @ drop 4 i" "length (take 4 i) = 4" "take 4 i ! 3 = 3" using assms by simp_all
  then show ?thesis
    unfolding parsed_def using assms(1) request_type(2) [of _ "take 4 i" "drop 4 i"]
    by (intro exI [of _ i]) auto
qed

lemma socks5_connect_parses:
  assumes ok: "os_ok (os (env c))" and h: "length h = 4" "tls_moved c h [] c1"
    and s: "socks ! 3 = h ! 3" and l: "length socks = 22" "socks ! 0 = 5"
  shows "wp (socks5_connect socks) (\<lambda>(s, ok) c'. ok \<longrightarrow> parsed c c' [] \<and> grants s) (\<lambda>_ _. True) c1"
proof -
  consider "h ! 3 = 1" | "h ! 3 = 3" | "h ! 3 = 4" | "h ! 3 \<notin> {1, 3, 4}" by auto
  then show ?thesis
  proof cases
    case 1
    then show ?thesis
      unfolding socks5_connect_def s wp_if wp_seqM [of "modM _"]
        wp_bindM [of "s_ssl_read _"] set_target_def [of "AF_INET [0, 0, 0, 0] [0, 0]"] wp_modM
      using h l by (auto intro!: wp_tls_read [OF ok] parses_target)
  next
    case 3
    then show ?thesis
      unfolding socks5_connect_def s wp_if wp_seqM [of "modM _"]
        wp_bindM [of "s_ssl_read _"] set_target_def [of "AF_INET6 (replicate 16 0) [0, 0]"] wp_modM
      using h l by (auto intro!: wp_tls_read [OF ok] parses_target)
  next
    case 2
    show ?thesis
      unfolding socks5_connect_def s wp_if wp_bindM wp_seqM wp_getM wp_retM verdict_def validate_def
      using h l 2
      by (auto intro!: wp_tls_read [OF ok] wp_resolve_target parses_other simp: wp_bindM wp_getM wp_retM nth_append grants_def)
  next
    case 4
    then show ?thesis by (simp add: socks5_connect_def s wp_retM)
  qed
qed

lemma parsed_io:
  assumes "tls_moved c' [] bs c2" "io_le c' c2" "parsed c c' []"
  shows "parsed c c2 bs"
  using assms by (auto simp: parsed_def talks_def io_le_fields)

lemma parsed_ok: "parsed c c' outs \<Longrightarrow> os (env c') = os (env c)"
  by (auto simp: parsed_def talks_def)

lemma socks5_command_parses:
  assumes "os_ok (os (env c))" "length h = 4" "tls_moved c h [] c1" "s ! 3 = h ! 3" "length s = 22"
  shows "wp (socks5_command s) (\<lambda>(s, ok) c'. ok \<longrightarrow> parsed c c' [] \<and> grants s) (\<lambda>_ _. True) c1"
  unfolding socks5_command_def using socks5_connect_parses [OF assms]
  by (auto simp: wp_if wp_bindM wp_retM intro!: skips)

text \<open>The answer to a granted request: version, code 0, and an address of the type it names.\<close>

definition granted :: "byte list \<Rightarrow> bool" where
  "granted reply \<longleftrightarrow> reply ! 0 = 5 \<and> reply ! 1 = 0 \<and>
     (reply ! 3 = 4 \<and> length reply = 22 \<or> reply ! 3 = 1 \<and> length reply = 10)"

lemma socks5_answer_parses:
  assumes ok: "os_ok (os (env c))" and p: "case a of (s, ok) \<Rightarrow> ok \<longrightarrow> parsed c c2 [] \<and> grants s"
  shows "wp (socks5_answer a) (\<lambda>_ c'. \<exists>outs. parsed c c' outs \<and> granted outs) (\<lambda>_ _. True) c2"
proof (cases a)
  case (Pair s acc)
  show ?thesis
  proof (cases acc)
    case True
    then have p: "parsed c c2 []" and "grants s" using p Pair by simp_all
    then have "s ! 3 = 4 \<Longrightarrow> granted (take 22 s)" "granted (take 10 (s[3 := 1]))"
      by (auto simp: granted_def grants_def)
    moreover have "os_ok (os (env c2))" using ok p by (simp add: parsed_ok)
    ultimately show ?thesis
      unfolding Pair socks5_answer_def socks5_reply_def
      using True
      by (auto simp: wp_seqM wp_if wp_retM intro!: exI conjI parsed_io [OF _ _ p]
          wp_tls_write [of c2, OF _ talks_refl])
  next
    case False
    then show ?thesis by (auto simp: Pair socks5_answer_def wp_seqM wp_stopM intro!: skips)
  qed
qed

lemma socks5_server_parses:
  assumes ok: "os_ok (os (env c))"
  shows "wp socks5_server (\<lambda>_ c'. \<exists>outs. parsed c c' outs \<and> granted outs) (\<lambda>_ _. True) c"
  unfolding socks5_server_def wp_bindM
proof (rule wp_tls_read [OF ok talks_refl])
  fix h c1
  assume h: "length h = 4" "tls_moved c ([] @ h) [] c1"
  let ?s = "memcpy_at (replicate 22 0) 0 h :: byte list"
  have "?s ! 3 = h ! 3" using h by (simp add: memcpy_at_def nth_append)
  moreover have "length ?s = 22" using h by simp
  ultimately have "wp (socks5_command ?s) (\<lambda>(s, ok) c'. ok \<longrightarrow> parsed c c' [] \<and> grants s) (\<lambda>_ _. True) c1"
    using h by (auto intro!: socks5_command_parses [OF ok])
  then show "wp (socks5_command ?s)
      (\<lambda>a. wp (socks5_answer a) (\<lambda>_ c'. \<exists>outs. parsed c c' outs \<and> granted outs) (\<lambda>_ _. True)) (\<lambda>_ _. True) c1"
    by (rule wp_mono) (auto intro: socks5_answer_parses [OF ok])
qed auto

text \<open>The client accepts exactly such an answer, and reads all of it.\<close>

lemma socks5_client_reply_reads:
  assumes "os_ok (os (env c))"
  shows "wp socks5_client_reply (\<lambda>_ c'. \<exists>ins. tls_moved c ins [] c' \<and> ins ! 0 = 5 \<and> ins ! 1 = 0 \<and>
      length ins = (if ins ! 3 = 4 then 22 else 10)) (\<lambda>_ _. True) c"
  unfolding socks5_client_reply_def wp_bindM wp_if wp_retM wp_stopM
  apply (rule wp_tls_read [OF assms talks_refl])
   apply (rule wp_tls_read [OF assms], assumption)
  subgoal for h c1 r c2
    by (auto intro!: exI [of _ "h @ r"] simp: nth_append wp_if wp_retM wp_stopM)
  by simp_all

section \<open>CIFS and PostgreSQL\<close>

text \<open>The NetBIOS request is bounded before it is read: nothing is written past the buffer.\<close>

lemma cifs_server_fits:
  assumes ok: "os_ok (os (env c))"
  shows "wp (cifs_server ph) (\<lambda>_ _. True) (\<lambda>k _. k \<in> aborts) c"
proof (cases "ph = PROTOCOL_EARLY")
  case True
  show ?thesis
    unfolding cifs_server_def True
    by (auto simp: wp_eqs Let_def intro!: wp_fd_read [OF ok talks_refl] wp_fd_read [OF ok] wp_fd_write [OF ok])
qed (simp add: cifs_server_def wp_retM)

text \<open>PostgreSQL: the negotiation goes on only after the eight bytes of an SSLRequest.\<close>

lemma pgsql_server_request:
  assumes ok: "os_ok (os (env c))"
  shows "wp (pgsql_server PROTOCOL_EARLY)
    (\<lambda>_ c'. talks (In (local_rd c)) (Out (local_wr c)) c ssl_request [of_char CHR ''S''] c')
    (\<lambda>k _. k \<in> aborts) c"
proof -
  have "b = ssl_request" if "length b = 8" "\<not> safe_memcmp b ssl_request 8" for b
    using that safe_memcmp_equal [of 8 b ssl_request] by (simp add: ssl_request_def)
  then show ?thesis
    unfolding pgsql_server_def
    by (fastforce simp: wp_eqs intro!: wp_fd_read [OF ok talks_refl] wp_fd_write [OF ok])
qed

section \<open>Descriptors and waiting\<close>

lemma socks_civil [frame_intros]:
  "civil socks5_client_method" "civil socks5_client_reply" "civil socks5_client_address"
  "civil (socks_client ph)" "civil validate" "civil (set_target t)" "civil (resolve_target h p)"
  "civil (verdict g r)" "civil (socks4_connect p a)" "civil socks4_server" "civil socks5_server_method"
  "civil (socks5_connect s)" "civil (socks5_resolve s)" "civil (socks5_reply s)"
  "civil (socks5_command s)" "civil (socks5_answer x)" "civil socks5_server" "civil (socks_server ph)"
  unfolding socks_client_def socks5_client_method_def socks5_client_reply_def socks5_client_address_def
    validate_def set_target_def resolve_target_def verdict_def socks4_connect_def socks4_server_def
    socks5_server_method_def socks5_connect_def socks5_resolve_def socks5_reply_def socks5_command_def
    socks5_answer_def socks5_server_def socks_server_def
  by (auto intro!: civil_rules frame_intros simp: Let_def split: prod.split option.split phase.split)

lemma binary_civil [frame_intros]:
  "civil (proxy_server ph)" "civil (cifs_client ph)" "civil (cifs_server ph)" "civil (pgsql_client ph)"
  "civil (pgsql_server ph)"
  unfolding proxy_server_def cifs_client_def cifs_server_def pgsql_client_def pgsql_server_def
  by (auto intro!: civil_rules frame_intros simp: Let_def fd_neutral_def)

lemma socks_safe [frame_intros]:
  "safe socks5_client_method" "safe socks5_client_reply" "safe socks5_client_address"
  "safe (socks_client ph)" "safe validate" "safe (set_target t)" "safe (resolve_target h p)"
  "safe (verdict g r)" "safe (socks4_connect p a)" "safe socks4_server" "safe socks5_server_method"
  "safe (socks5_connect s)" "safe (socks5_resolve s)" "safe (socks5_reply s)"
  "safe (socks5_command s)" "safe (socks5_answer x)" "safe socks5_server" "safe (socks_server ph)"
  unfolding socks_client_def socks5_client_method_def socks5_client_reply_def socks5_client_address_def
    validate_def set_target_def resolve_target_def verdict_def socks4_connect_def socks4_server_def
    socks5_server_method_def socks5_connect_def socks5_resolve_def socks5_reply_def socks5_command_def
    socks5_answer_def socks5_server_def socks_server_def
  by (auto intro!: safe_rules frame_intros simp: Let_def split: prod.split option.split phase.split)

lemma binary_safe [frame_intros]:
  "safe (proxy_server ph)" "safe (cifs_client ph)" "safe (pgsql_client ph)" "safe (pgsql_server ph)"
  "safe (cifs_server ph)"
proof -
  show "safe (proxy_server ph)" "safe (cifs_client ph)" "safe (pgsql_client ph)" "safe (pgsql_server ph)"
    unfolding proxy_server_def cifs_client_def pgsql_client_def pgsql_server_def
    by (auto intro!: safe_rules frame_intros simp: Let_def)
  have "civil (cifs_server ph)" by (rule frame_intros)
  then show "safe (cifs_server ph)"
    by (intro safe_frame) (auto simp: civil_def aborts_def refuses_def elim!: wp_mono dest!: cifs_server_fits [where ph = ph])
qed

end
