(* ===== verification/Base64.thy ===== *)
theory Base64
  imports Prelude
begin

unbundle bit_operations_syntax

text \<open>
  OpenSSL's base64 blocks (crypto/evp/encode.c), which the protocol negotiations send credentials
  through: \<open>EVP_EncodeBlock\<close> and \<open>EVP_DecodeBlock\<close> with their tables, and the theorem that
  decoding inverts encoding up to the zero bytes that padding stands for.
\<close>

definition data_bin2ascii :: string where
  "data_bin2ascii = ''ABCDEFGHIJKLMNOPQRSTUVWXYZabcdefghijklmnopqrstuvwxyz0123456789+/''"

definition data_ascii2bin :: "byte list" where
  "data_ascii2bin = [
    0xFF, 0xFF, 0xFF, 0xFF, 0xFF, 0xFF, 0xFF, 0xFF,
    0xFF, 0xE0, 0xF0, 0xFF, 0xFF, 0xF1, 0xFF, 0xFF,
    0xFF, 0xFF, 0xFF, 0xFF, 0xFF, 0xFF, 0xFF, 0xFF,
    0xFF, 0xFF, 0xFF, 0xFF, 0xFF, 0xFF, 0xFF, 0xFF,
    0xE0, 0xFF, 0xFF, 0xFF, 0xFF, 0xFF, 0xFF, 0xFF,
    0xFF, 0xFF, 0xFF, 0x3E, 0xFF, 0xF2, 0xFF, 0x3F,
    0x34, 0x35, 0x36, 0x37, 0x38, 0x39, 0x3A, 0x3B,
    0x3C, 0x3D, 0xFF, 0xFF, 0xFF, 0x00, 0xFF, 0xFF,
    0xFF, 0x00, 0x01, 0x02, 0x03, 0x04, 0x05, 0x06,
    0x07, 0x08, 0x09, 0x0A, 0x0B, 0x0C, 0x0D, 0x0E,
    0x0F, 0x10, 0x11, 0x12, 0x13, 0x14, 0x15, 0x16,
    0x17, 0x18, 0x19, 0xFF, 0xFF, 0xFF, 0xFF, 0xFF,
    0xFF, 0x1A, 0x1B, 0x1C, 0x1D, 0x1E, 0x1F, 0x20,
    0x21, 0x22, 0x23, 0x24, 0x25, 0x26, 0x27, 0x28,
    0x29, 0x2A, 0x2B, 0x2C, 0x2D, 0x2E, 0x2F, 0x30,
    0x31, 0x32, 0x33, 0xFF, 0xFF, 0xFF, 0xFF, 0xFF]"

definition B64_WS :: byte where "B64_WS = 0xE0"

definition B64_NOT_BASE64 :: "byte \<Rightarrow> bool" where
  "B64_NOT_BASE64 a \<longleftrightarrow> a OR 0x13 = 0xF3"

definition conv_bin2ascii :: "64 word \<Rightarrow> char" where
  "conv_bin2ascii a = data_bin2ascii ! unat (a AND 0x3f)"

definition conv_ascii2bin :: "char \<Rightarrow> byte" where
  "conv_ascii2bin c = (let a = of_char c :: byte in
     if a AND 0x80 \<noteq> 0 then 0xFF else data_ascii2bin ! unat a)"

text \<open>The long \<open>l\<close> built from three bytes.\<close>

definition pack3 :: "byte \<Rightarrow> byte \<Rightarrow> byte \<Rightarrow> 64 word" where
  "pack3 a b c = push_bit 16 (ucast a) OR push_bit 8 (ucast b) OR ucast c"

fun EVP_EncodeBlock :: "byte list \<Rightarrow> string" where
  "EVP_EncodeBlock [] = []"
| "EVP_EncodeBlock [a] =
    (let l = pack3 a 0 0
     in [conv_bin2ascii (drop_bit 18 l), conv_bin2ascii (drop_bit 12 l), CHR ''='', CHR ''=''])"
| "EVP_EncodeBlock [a, b] =
    (let l = pack3 a b 0
     in [conv_bin2ascii (drop_bit 18 l), conv_bin2ascii (drop_bit 12 l),
         conv_bin2ascii (drop_bit 6 l), CHR ''=''])"
| "EVP_EncodeBlock (a # b # c # rest) =
    (let l = pack3 a b c
     in [conv_bin2ascii (drop_bit 18 l), conv_bin2ascii (drop_bit 12 l),
         conv_bin2ascii (drop_bit 6 l), conv_bin2ascii l] @ EVP_EncodeBlock rest)"

text \<open>The decoding loop over whole quadruples; \<open>None\<close> is the return value -1.\<close>

fun decode_quads :: "string \<Rightarrow> byte list option" where
  "decode_quads (p # q # r # s # rest) =
    (let a = conv_ascii2bin p; b = conv_ascii2bin q; c = conv_ascii2bin r; d = conv_ascii2bin s
     in if a AND 0x80 \<noteq> 0 \<or> b AND 0x80 \<noteq> 0 \<or> c AND 0x80 \<noteq> 0 \<or> d AND 0x80 \<noteq> 0 then None
        else let l = push_bit 18 (ucast a) OR push_bit 12 (ucast b) OR push_bit 6 (ucast c) OR ucast d :: 64 word
          in case decode_quads rest of
               None \<Rightarrow> None
             | Some out \<Rightarrow> Some (ucast (drop_bit 16 l) # ucast (drop_bit 8 l) # ucast l # out))"
| "decode_quads _ = Some []"

text \<open>White space is trimmed from the front, anything that is not base64 from the end while more
  than three characters are left.\<close>

fun trim_end :: "string \<Rightarrow> string" where
  "trim_end f = (if length f > 3 \<and> B64_NOT_BASE64 (conv_ascii2bin (last f))
     then trim_end (butlast f) else f)"

declare trim_end.simps [simp del]

definition EVP_DecodeBlock :: "string \<Rightarrow> byte list option" where
  "EVP_DecodeBlock f0 =
    (let f = trim_end (dropWhile (\<lambda>c. conv_ascii2bin c = B64_WS) f0)
     in if length f mod 4 \<noteq> 0 then None else decode_quads f)"

section \<open>Round trip\<close>

text \<open>The two tables are inverse on the alphabet.\<close>

lemma tables: "list_all (\<lambda>i. conv_ascii2bin (data_bin2ascii ! i) = of_nat i) [0..<64]"
  by code_simp

lemma low6: "a AND 0x3f = take_bit 6 a" for a :: "64 word"
proof -
  have "(0x3f :: 64 word) = mask 6" by (simp add: mask_eq_exp_minus_1)
  then show ?thesis by (simp only: take_bit_eq_mask)
qed

lemma ascii2bin_bin2ascii: "conv_ascii2bin (conv_bin2ascii a) = ucast (take_bit 6 a)"
proof -
  have "unat (take_bit 6 a) < 64"
    by (simp add: unsigned_take_bit_eq take_bit_nat_less_exp [where n = 6, simplified])
  then have "conv_ascii2bin (data_bin2ascii ! unat (take_bit 6 a)) = of_nat (unat (take_bit 6 a))"
    using tables by (simp add: list_all_iff)
  then show ?thesis
    by (simp add: conv_bin2ascii_def low6)
qed

lemma high_bit: "a AND 0x80 = 0 \<longleftrightarrow> \<not> bit a 7" for a :: byte
  by (simp add: bit_iff_and_push_bit_not_eq_0)

lemma sixbits: "(ucast (take_bit 6 a) :: byte) AND 0x80 = 0" for a :: "64 word"
  by (simp add: high_bit bit_simps)

text \<open>Four groups of six bits are the three bytes.\<close>

definition six :: "nat \<Rightarrow> 64 word \<Rightarrow> 64 word" where
  "six k l = ucast (ucast (take_bit 6 (drop_bit k l)) :: byte)"

lemma bit_six: "bit (six k l) n \<longleftrightarrow> n < 6 \<and> bit l (k + n)"
  by (auto simp: six_def bit_simps)

lemma bit_pack3:
  "bit (pack3 a b c) n \<longleftrightarrow> (if n < 8 then bit c n else if n < 16 then bit b (n - 8)
     else n < 24 \<and> bit a (n - 16))"
  by (auto simp: pack3_def bit_simps dest: bit_imp_le_length)

lemma regroup:
  assumes "\<And>n. 24 \<le> n \<Longrightarrow> \<not> bit l n"
  shows "push_bit 18 (six 18 l) OR push_bit 12 (six 12 l) OR push_bit 6 (six 6 l) OR six 0 l = l"
proof (rule bit_word_eqI)
  fix n
  assume "n < LENGTH(64)"
  consider "n < 6" | "6 \<le> n" "n < 12" | "12 \<le> n" "n < 18" | "18 \<le> n" "n < 24" | "24 \<le> n"
    by linarith
  then show "bit (push_bit 18 (six 18 l) OR push_bit 12 (six 12 l) OR push_bit 6 (six 6 l) OR six 0 l) n
    = bit l n"
    using assms by cases (auto simp: bit_simps bit_six)
qed

lemma unpack3:
  "ucast (drop_bit 16 (pack3 a b c)) = a" "ucast (drop_bit 8 (pack3 a b c)) = b"
  "ucast (pack3 a b c) = c"
  by (rule bit_word_eqI; auto simp: bit_simps bit_pack3)+

lemma decode_encoded_quad:
  assumes "l = pack3 a b c"
  shows "decode_quads (conv_bin2ascii (drop_bit 18 l) # conv_bin2ascii (drop_bit 12 l) #
      conv_bin2ascii (drop_bit 6 l) # conv_bin2ascii l # rest) =
    map_option (\<lambda>out. a # b # c # out) (decode_quads rest)"
proof -
  have "push_bit 18 (six 18 l) OR push_bit 12 (six 12 l) OR push_bit 6 (six 6 l) OR six 0 l = l"
    by (rule regroup) (simp add: assms bit_pack3)
  then show ?thesis
    by (simp add: ascii2bin_bin2ascii sixbits six_def Let_def assms unpack3 split: option.split)
qed

text \<open>A padding character decodes to zero, as the six zero bits it stands for.\<close>

lemma pad_zero: "conv_ascii2bin CHR ''='' = 0" "conv_bin2ascii 0 = CHR ''A''" "conv_ascii2bin CHR ''A'' = 0"
  by code_simp+

definition pad_length :: "nat \<Rightarrow> nat" where "pad_length n = (3 - n mod 3) mod 3"

lemma decode_encode_quads: "decode_quads (EVP_EncodeBlock xs) = Some (xs @ replicate (pad_length (length xs)) 0)"
proof (induction xs rule: EVP_EncodeBlock.induct)
  case (2 a)
  let ?l = "pack3 a 0 0"
  have z: "take_bit 6 ?l = 0" "take_bit 6 (drop_bit 6 ?l) = 0"
    by (rule bit_word_eqI; auto simp: bit_simps bit_pack3)+
  show ?case
    using decode_encoded_quad [of ?l a 0 0 "[]"] z
    by (simp add: Let_def pad_zero ascii2bin_bin2ascii pad_length_def numeral_2_eq_2)
next
  case (3 a b)
  let ?l = "pack3 a b 0"
  have z: "take_bit 6 ?l = 0"
    by (rule bit_word_eqI; auto simp: bit_simps bit_pack3)
  show ?case
    using decode_encoded_quad [of ?l a b 0 "[]"] z
    by (simp add: Let_def pad_zero ascii2bin_bin2ascii pad_length_def)
next
  case (4 a b c rest)
  then show ?case
    using decode_encoded_quad [OF refl, of a b c "EVP_EncodeBlock rest"]
    by (simp add: Let_def pad_length_def mod_simps)
qed (simp add: pad_length_def)

lemma length_encode: "length (EVP_EncodeBlock xs) = 4 * ((length xs + 2) div 3)"
proof (induction xs rule: EVP_EncodeBlock.induct)
  case (4 a b c rest)
  have "(length (a # b # c # rest) + 2) div 3 = Suc ((length rest + 2) div 3)" by simp
  with 4 show ?case by (simp add: Let_def)
qed (simp_all add: Let_def)

lemma encoded_chars: "c \<in> set (EVP_EncodeBlock xs) \<Longrightarrow> conv_ascii2bin c AND 0x80 = 0"
  by (induction xs rule: EVP_EncodeBlock.induct)
    (auto simp: Let_def ascii2bin_bin2ascii sixbits pad_zero)

lemma base64_char:
  assumes "b AND 0x80 = 0"
  shows "b \<noteq> B64_WS" "\<not> B64_NOT_BASE64 b"
proof -
  have "\<not> bit b 7" using assms by (simp add: high_bit)
  moreover have "bit B64_WS 7" "bit (0xF3 :: byte) 7" "\<not> bit (0x13 :: byte) 7"
    by (code_simp)+
  ultimately show "b \<noteq> B64_WS" "\<not> B64_NOT_BASE64 b"
    by (auto simp: B64_NOT_BASE64_def bit_or_iff dest!: arg_cong [where f = "\<lambda>w. bit w 7"])
qed

lemma decode_encode: "EVP_DecodeBlock (EVP_EncodeBlock xs) = Some (xs @ replicate (pad_length (length xs)) 0)"
proof -
  let ?e = "EVP_EncodeBlock xs"
  have "dropWhile (\<lambda>c. conv_ascii2bin c = B64_WS) ?e = ?e"
    using encoded_chars [of _ xs] base64_char(1) by (cases ?e) auto
  moreover have "trim_end ?e = ?e"
    using encoded_chars [of "last ?e" xs] base64_char(2)
    by (subst trim_end.simps) (cases "?e = []"; simp)
  ultimately show ?thesis
    by (simp add: EVP_DecodeBlock_def length_encode decode_encode_quads)
qed

end
