(* ===== verification/Bio64.thy ===== *)
theory Bio64
  imports Base64
begin

text \<open>
  OpenSSL's base64 filter (crypto/evp/bio_b64.c) as stunnel's \<open>base64()\<close> uses it, with
  \<open>BIO_FLAGS_BASE64_NO_NL\<close> and a memory buffer on the other side. The filter cuts its input into
  blocks and keeps what does not fill a group; the theorems are that the cutting cannot be seen in
  the output, and that decoding inverts encoding exactly.
\<close>

definition B64_BLOCK_SIZE :: nat where "B64_BLOCK_SIZE = 1024"

section \<open>Writing\<close>

text \<open>\<open>tmp\<close> is the incomplete group, \<open>out\<close> what reached the next BIO. One call of \<open>b64_write\<close>;
  the memory buffer takes all it is offered.\<close>

function b64_write :: "byte list \<Rightarrow> string \<Rightarrow> byte list \<Rightarrow> byte list \<times> string" where
  "b64_write tmp out inp =
    (if inp = [] then (tmp, out)
     else if tmp \<noteq> [] then
       let n = min (3 - length tmp) (length inp); tmp1 = tmp @ take n inp
       in if length tmp1 < 3 then (tmp1, out)
          else b64_write [] (out @ EVP_EncodeBlock tmp1) (drop n inp)
     else
       let n = min B64_BLOCK_SIZE (length inp)
       in if n < 3 then (take n inp, out)
          else let m = n - n mod 3
            in b64_write [] (out @ EVP_EncodeBlock (take m inp)) (drop m inp))"
  by pat_completeness auto
termination
proof (relation "measure (\<lambda>(tmp, out, inp). 2 * length inp + length tmp)", goal_cases)
  case (2 tmp out inp n tmp1)
  then show ?case by (cases inp) (auto simp: min_def split: if_splits)
next
  case (3 tmp out inp n m)
  have "n mod 3 < 3" by simp
  then have "n mod 3 < n" using 3(4) by linarith
  then have "0 < m" using 3(5) by simp
  then have "length (drop m inp) < length inp" using 3(1) by (cases inp) simp_all
  then show ?case by simp
qed simp

declare b64_write.simps [simp del]

text \<open>\<open>BIO_CTRL_FLUSH\<close>: the incomplete group is written with its padding.\<close>

definition b64_flush :: "byte list \<times> string \<Rightarrow> string" where
  "b64_flush = (\<lambda>(tmp, out). if tmp \<noteq> [] then out @ EVP_EncodeBlock tmp else out)"

lemma EncodeBlock_append: "length xs mod 3 = 0 \<Longrightarrow> EVP_EncodeBlock (xs @ ys) = EVP_EncodeBlock xs @ EVP_EncodeBlock ys"
  by (induction xs rule: EVP_EncodeBlock.induct) (auto simp: Let_def)

text \<open>Where the writer stands: the groups \<open>p\<close> are encoded, less than one is waiting.\<close>

definition b64_at :: "byte list \<Rightarrow> string \<Rightarrow> byte list \<times> string \<Rightarrow> bool" where
  "b64_at bs out s \<longleftrightarrow> (\<exists>p. bs = p @ fst s \<and> length p mod 3 = 0 \<and> length (fst s) < 3 \<and>
     snd s = out @ EVP_EncodeBlock p)"

lemma b64_atI: "bs = p @ tmp \<Longrightarrow> length p mod 3 = 0 \<Longrightarrow> length tmp < 3 \<Longrightarrow> b64_at bs (out) (tmp, out @ EVP_EncodeBlock p)"
  by (auto simp: b64_at_def)

lemma b64_at_step:
  assumes "b64_at bs (out @ EVP_EncodeBlock g) s" "length g mod 3 = 0"
  shows "b64_at (g @ bs) out s"
proof -
  obtain p where p: "bs = p @ fst s" "length p mod 3 = 0" "length (fst s) < 3"
    "snd s = (out @ EVP_EncodeBlock g) @ EVP_EncodeBlock p"
    using assms(1) by (auto simp: b64_at_def)
  have "length (g @ p) mod 3 = 0" using assms(2) p(2) by (simp add: mod_add_eq [symmetric, of "length g"])
  moreover have "snd s = out @ EVP_EncodeBlock (g @ p)" using p(4) EncodeBlock_append [OF assms(2), of p] by simp
  ultimately show ?thesis using p(1,3) unfolding b64_at_def by (intro exI [of _ "g @ p"]) simp
qed

lemma b64_write_at: "length tmp < 3 \<Longrightarrow> b64_at (tmp @ inp) out (b64_write tmp out inp)"
proof (induction tmp out inp rule: b64_write.induct)
  case (1 tmp out inp)
  have short: "b64_at bs out (bs, out)" if "length bs < 3" for bs
    using that by (auto simp: b64_at_def)
  consider (none) "inp = []" | (fill) "inp \<noteq> []" "tmp \<noteq> []" | (blocks) "inp \<noteq> []" "tmp = []" by blast
  then show ?case
  proof cases
    case none
    with 1(3) show ?thesis by (simp add: b64_write.simps short)
  next
    case fill
    let ?n = "min (3 - length tmp) (length inp)"
    let ?tmp1 = "tmp @ take ?n inp"
    show ?thesis
    proof (cases "length ?tmp1 < 3")
      case True
      then have "take ?n inp = inp" using 1(3) by auto
      with True fill show ?thesis
        by (subst b64_write.simps) (simp add: Let_def short)
    next
      case False
      then have l: "length ?tmp1 = 3" using 1(3) by auto
      have "b64_write tmp out inp = b64_write [] (out @ EVP_EncodeBlock ?tmp1) (drop ?n inp)"
        by (simp only: b64_write.simps [of tmp out inp] Let_def fill if_False if_True if_not_P [OF False] simp_thms)
      with 1(1) [OF fill refl refl False] have "b64_at (drop ?n inp) (out @ EVP_EncodeBlock ?tmp1) (b64_write tmp out inp)"
        by simp
      from b64_at_step [OF this] l show ?thesis by simp
    qed
  next
    case blocks
    let ?n = "min B64_BLOCK_SIZE (length inp)"
    let ?m = "?n - ?n mod 3"
    show ?thesis
    proof (cases "?n < 3")
      case True
      then have "take ?n inp = inp" by (auto simp: B64_BLOCK_SIZE_def)
      with True blocks show ?thesis
        by (subst b64_write.simps) (auto simp: Let_def short B64_BLOCK_SIZE_def)
    next
      case False
      have m: "length (take ?m inp) mod 3 = 0"
        by (simp add: min_absorb2 minus_mod_eq_div_mult le_diff_conv)
      have "b64_write [] out inp = b64_write [] (out @ EVP_EncodeBlock (take ?m inp)) (drop ?m inp)"
        using blocks False by (subst b64_write.simps) (simp add: Let_def)
      with 1(2) [OF blocks(1) _ refl False refl] blocks
      have "b64_at (drop ?m inp) (out @ EVP_EncodeBlock (take ?m inp)) (b64_write tmp out inp)" by simp
      from b64_at_step [OF this m] blocks show ?thesis by simp
    qed
  qed
qed

text \<open>The block cutting is invisible: what was written, put together, is encoded at the flush.\<close>

lemma b64_at_flush: "b64_at bs out s \<Longrightarrow> b64_flush s = out @ EVP_EncodeBlock bs"
  by (cases s) (auto simp: b64_at_def b64_flush_def EncodeBlock_append)

lemma b64_writes_at: "b64_at (concat pieces) [] (foldl (\<lambda>(tmp, out) bs. b64_write tmp out bs) ([], []) pieces)"
proof (induction pieces rule: rev_induct)
  case Nil
  then show ?case by (simp add: b64_at_def)
next
  case (snoc x xs)
  obtain tmp out where s: "foldl (\<lambda>(tmp, out) bs. b64_write tmp out bs) ([], []) xs = (tmp, out)"
    by (cases "foldl (\<lambda>(tmp, out) bs. b64_write tmp out bs) ([], []) xs") auto
  obtain p where p: "concat xs = p @ tmp" "length p mod 3 = 0" "length tmp < 3" "out = EVP_EncodeBlock p"
    using snoc s by (auto simp: b64_at_def)
  have "b64_at (tmp @ x) ([] @ EVP_EncodeBlock p) (b64_write tmp out x)"
    using b64_write_at [OF p(3), of x out] p(4) by simp
  from b64_at_step [OF this p(2)] show ?case using p(1) s by simp
qed

lemma b64_encode: "b64_flush (b64_write [] [] bs) = EVP_EncodeBlock bs"
  using b64_at_flush [OF b64_write_at [of "[]" bs "[]"]] by simp

section \<open>Reading\<close>

text \<open>One block of whole groups: padding characters at its end are not output. \<open>None\<close> is an
  \<open>EVP_DecodeBlock\<close> that failed.\<close>

definition pads :: "string \<Rightarrow> nat" where
  "pads f = (if length f > 2 \<and> f ! (length f - 1) = CHR ''=''
     then (if f ! (length f - 2) = CHR ''='' then 2 else 1) else 0)"

definition b64_decode_block :: "string \<Rightarrow> byte list option" where
  "b64_decode_block f = map_option (\<lambda>d. take (length d - pads f) d) (EVP_DecodeBlock f)"

text \<open>\<open>b64_read\<close>: \<open>src\<close> is what the memory buffer still holds, \<open>tmp\<close> characters read and not decoded,
  \<open>outl\<close> the room left. The result is the bytes stored and the return code for when there are none;
  an empty memory buffer answers -1 and asks to retry.\<close>

function b64_read :: "string \<Rightarrow> string \<Rightarrow> nat \<Rightarrow> byte list \<Rightarrow> byte list \<times> int" where
  "b64_read tmp src outl ret =
    (if outl = 0 then (ret, 0)
     else if src = [] \<or> B64_BLOCK_SIZE \<le> length tmp then (ret, -1)
     else let k = B64_BLOCK_SIZE - length tmp;
              t = tmp @ take k src;
              jj = length t - length t mod 4
       in case b64_decode_block (take jj t) of
            None \<Rightarrow> (ret, 0)
          | Some d \<Rightarrow> b64_read (drop jj t) (drop k src) (outl - length d) (ret @ take outl d))"
  by pat_completeness auto
termination
proof (relation "measure (\<lambda>(tmp, src, outl, ret). length src)", goal_cases)
  case (2 tmp src outl ret k t jj d)
  then show ?case by (cases src) auto
qed simp

declare b64_read.simps [simp del]

section \<open>stunnel's helper\<close>

text \<open>\<open>base64()\<close> of protocol.c once both BIOs exist; \<open>None\<close> is NULL. An encoder that wrote nothing
  reads -1 from the empty memory buffer. The decoded bytes are followed by zeros.\<close>

definition base64_encode :: "byte list \<Rightarrow> string option" where
  "base64_encode bs =
    (let out = b64_flush (b64_write [] [] bs) in if out = [] then None else Some out)"

definition base64_decode :: "string \<Rightarrow> byte list option" where
  "base64_decode s =
    (let n = length s; (bytes, code) = b64_read [] s n []
     in if bytes = [] \<and> code < 0 then None
        else Some (memcpy_at (replicate (if n < 32 then 32 else n + 1) 0) 0 bytes))"

lemma base64_encode_eq: "base64_encode bs = (if bs = [] then None else Some (EVP_EncodeBlock bs))"
  using length_encode [of bs] by (cases bs) (auto simp: base64_encode_def b64_encode Let_def)

section \<open>Round trip\<close>

lemma alphabet_no_pad: "list_all (\<lambda>i. data_bin2ascii ! i \<noteq> CHR ''='') [0..<64]"
  by code_simp

lemma bin2ascii_no_pad: "conv_bin2ascii a \<noteq> CHR ''=''"
proof -
  have "unat (take_bit 6 a) < 64"
    by (simp add: unsigned_take_bit_eq take_bit_nat_less_exp [where n = 6, simplified])
  then show ?thesis using alphabet_no_pad by (simp add: conv_bin2ascii_def low6 list_all_iff)
qed

lemma pads_Cons4: "length rest > 2 \<Longrightarrow> pads (a # b # c # d # rest) = pads rest"
  by (cases rest) (auto simp: pads_def nth_Cons split: nat.split)

lemma pads_encode: "pads (EVP_EncodeBlock xs) = pad_length (length xs)"
proof (induction xs rule: EVP_EncodeBlock.induct)
  case (4 a b c rest)
  show ?case
  proof (cases rest)
    case Nil
    then show ?thesis by (simp add: pads_def Let_def bin2ascii_no_pad pad_length_def)
  next
    case Cons
    then have "1 \<le> (length rest + 2) div 3" by simp
    then have "length (EVP_EncodeBlock rest) > 2" unfolding length_encode by linarith
    then show ?thesis using 4 pads_Cons4 by (auto simp: Let_def pad_length_def mod_simps)
  qed
qed (simp_all add: pads_def Let_def bin2ascii_no_pad pad_length_def)

lemma decode_block_encode: "b64_decode_block (EVP_EncodeBlock xs) = Some xs"
  by (simp add: b64_decode_block_def decode_encode pads_encode)

lemma encode_take: "take 1024 (EVP_EncodeBlock xs) = EVP_EncodeBlock (take 768 xs)"
  "drop 1024 (EVP_EncodeBlock xs) = EVP_EncodeBlock (drop 768 xs)"
proof -
  have "take 1024 (EVP_EncodeBlock xs) = EVP_EncodeBlock (take 768 xs) \<and>
    drop 1024 (EVP_EncodeBlock xs) = EVP_EncodeBlock (drop 768 xs)"
  proof (cases "length xs < 768")
    case True
    then have "length (EVP_EncodeBlock xs) \<le> 1024" by (simp add: length_encode)
    with True show ?thesis by simp
  next
    case False
    then have "length (EVP_EncodeBlock (take 768 xs)) = 1024" by (simp add: length_encode)
    moreover have "EVP_EncodeBlock xs = EVP_EncodeBlock (take 768 xs) @ EVP_EncodeBlock (drop 768 xs)"
      using EncodeBlock_append [of "take 768 xs" "drop 768 xs"] False by simp
    ultimately show ?thesis by simp
  qed
  then show "take 1024 (EVP_EncodeBlock xs) = EVP_EncodeBlock (take 768 xs)"
    "drop 1024 (EVP_EncodeBlock xs) = EVP_EncodeBlock (drop 768 xs)" by simp_all
qed

lemma b64_read_step:
  assumes "outl \<noteq> 0" "src \<noteq> []" "take 1024 src = t" "length t mod 4 = 0" "b64_decode_block t = Some d"
  shows "b64_read [] src outl ret = b64_read [] (drop 1024 src) (outl - length d) (ret @ take outl d)"
  using assms(1,2,4,5)
  by (subst b64_read.simps) (simp add: B64_BLOCK_SIZE_def Let_def assms(3) del: length_take take_take)

lemma b64_read_encode:
  "xs \<noteq> [] \<Longrightarrow> length xs < outl \<Longrightarrow> b64_read [] (EVP_EncodeBlock xs) outl ret = (ret @ xs, -1)"
proof (induction "length xs" arbitrary: xs outl ret rule: less_induct)
  case less
  let ?e = "EVP_EncodeBlock xs"
  have ne: "?e \<noteq> []" using less.prems(1) length_encode [of xs] by (cases xs) auto
  have "take outl (take 768 xs) = take 768 xs" using less.prems(2) by (simp add: min_def)
  then have "b64_read [] ?e outl ret =
      b64_read [] (EVP_EncodeBlock (drop 768 xs)) (outl - length (take 768 xs)) (ret @ take 768 xs)"
    using less.prems ne b64_read_step [OF _ ne encode_take(1) _ decode_block_encode]
    by (simp add: encode_take length_encode del: length_take take_take)
  also have "\<dots> = (ret @ xs, -1)"
  proof (cases "length xs \<le> 768")
    case True
    with less.prems show ?thesis by (subst b64_read.simps) simp
  next
    case False
    then show ?thesis using less.prems less.hyps [of "drop 768 xs" "outl - 768" "ret @ take 768 xs"] by simp
  qed
  finally show ?case .
qed

lemma base64_round_trip:
  assumes "base64_encode bs = Some s"
  shows "\<exists>z. base64_decode s = Some (bs @ replicate z 0) \<and> 32 \<le> length bs + z"
proof -
  have bs: "bs \<noteq> []" "s = EVP_EncodeBlock bs" using assms by (auto simp: base64_encode_eq split: if_splits)
  have l: "length bs < length s" using bs by (cases bs) (simp_all add: length_encode)
  define n where "n = (if length s < 32 then 32 else length s + 1)"
  have "base64_decode s = Some (memcpy_at (replicate n 0) 0 bs)"
    using bs b64_read_encode [OF bs(1) l, of "[]"] by (simp add: base64_decode_def n_def)
  also have "memcpy_at (replicate n 0) 0 bs = bs @ replicate (n - length bs) 0"
    by (simp add: memcpy_at_def)
  finally show ?thesis using l by (auto simp: n_def)
qed

end
