(* ===== verification/Mail.thy ===== *)
theory Mail
  imports Socks Bio64 "HOL-Library.Sublist"
begin

text \<open>
  The text negotiations of protocol.c for mail and news: SMTP, POP3, IMAP and NNTP, as the STARTTLS
  client and as the server that takes STARTTLS on behalf of a plain one. The theorems follow the
  plain streams: TLS starts only after the peer agreed to it, and nothing beyond the line that
  agrees is taken from a peer before.
\<close>

text \<open>\<open>base64()\<close> allocates two BIOs first. When the second fails it calls \<open>str_free\<close> on the first,
  which is not a \<open>str_alloc\<close> block: \<open>get_alloc_list_ptr\<close> ends the process.\<close>

definition base64_with :: "'a option \<Rightarrow> 'a option cm" where
  "base64_with r =
    bindM (sys Bio_new) (\<lambda>b64.
      if a_ret b64 = 0 then retM None
      else bindM (sys Bio_new) (\<lambda>mem. if a_ret mem = 0 then stopM Fatal else retM r))"

definition base64_1 :: "byte list \<Rightarrow> string option cm" where
  "base64_1 bs = base64_with (base64_encode bs)"

text \<open>Read a reply of several lines: \<open>more_line\<close> is the prefix of all lines but the last, which is
  returned.\<close>

definition skip_reply :: "int \<Rightarrow> string \<Rightarrow> string cm" where
  "skip_reply f more_line = loopM (\<lambda>_. bindM (fd_getline f) (\<lambda>line.
     retM (if is_prefix line more_line then Inr () else Inl line))) ()"

definition copy_reply :: "int \<Rightarrow> int \<Rightarrow> string \<Rightarrow> string cm" where
  "copy_reply f w more_line = loopM (\<lambda>_. bindM (fd_getline f) (\<lambda>line.
     seqM (fd_putline w line)
       (retM (if is_prefix line more_line then Inr () else Inl line)))) ()"

section \<open>SMTP\<close>

definition smtp_client_negotiate :: "unit cm" where
  "smtp_client_negotiate =
    bindM (getM remote) (\<lambda>r. bindM (getM local_wr) (\<lambda>w.
    bindM (copy_reply r w ''220-'') (\<lambda>_.
    seqM (fd_putline r ''EHLO localhost'')
    (bindM (skip_reply r ''250-'') (\<lambda>line.
      if \<not> is_prefix line ''250 '' then stopM (Longjmp 1) else
    seqM (fd_putline r ''STARTTLS'')
    (bindM (skip_reply r ''220-'') (\<lambda>line.
      if \<not> is_prefix line ''220 '' then stopM (Longjmp 1) else retM ())))))))"

text \<open>A line the peer's answer to which must have a given prefix.\<close>

definition ssl_expect :: "string \<Rightarrow> unit cm" where
  "ssl_expect pre = bindM ssl_getline (\<lambda>line. if \<not> is_prefix line pre then stopM (Longjmp 1) else retM ())"

definition smtp_client_plain :: "string \<Rightarrow> string \<Rightarrow> unit cm" where
  "smtp_client_plain user pass =
    bindM (base64_1 ([0] @ raw user @ [0] @ raw pass)) (\<lambda>encoded. case encoded of
        None \<Rightarrow> stopM (Longjmp 1)
      | Some e \<Rightarrow> seqM (ssl_putline (''AUTH PLAIN '' @ e)) (ssl_expect ''235 ''))"

definition smtp_client_login :: "string \<Rightarrow> string \<Rightarrow> unit cm" where
  "smtp_client_login user pass =
    seqM (ssl_putline ''AUTH LOGIN'')
    (seqM (ssl_expect ''334 '')
    (bindM (base64_1 (raw user)) (\<lambda>u. case u of None \<Rightarrow> stopM (Longjmp 1) | Some eu \<Rightarrow>
      seqM (ssl_putline eu)
      (seqM (ssl_expect ''334 '')
      (bindM (base64_1 (raw pass)) (\<lambda>p. case p of None \<Rightarrow> stopM (Longjmp 1) | Some ep \<Rightarrow>
        seqM (ssl_putline ep) (ssl_expect ''235 '')))))))"

definition smtp_client :: "phase \<Rightarrow> string option cm" where
  "smtp_client ph = (case ph of
      PROTOCOL_MIDDLE \<Rightarrow> seqM smtp_client_negotiate (retM None)
    | PROTOCOL_LATE \<Rightarrow> bindM (getM opt) (\<lambda>z. case (o_protocol_username z, o_protocol_password z) of
          (Some user, Some pass) \<Rightarrow>
            seqM (if strcaseeq (o_protocol_authentication z) ''LOGIN'' then smtp_client_login user pass
                  else smtp_client_plain user pass) (retM None)
        | _ \<Rightarrow> retM None)
    | _ \<Rightarrow> retM None)"

text \<open>Wait 200 ms for the client to speak first: 0 when it does not.\<close>

definition client_speaks :: "int cm" where
  "client_speaks =
    seqM poll_init (bindM (getM local_rd) (\<lambda>f. seqM (poll_add f True False) (s_poll_wait 0 200)))"

text \<open>The server protocols need \<open>c->remote_fd\<close> before TLS.\<close>

definition want_connect :: "phase \<Rightarrow> unit cm" where
  "want_connect ph = whenM (ph = PROTOCOL_CHECK)
    (modM (\<lambda>c. c\<lparr>opt := (opt c)\<lparr>o_connect_before_ssl := True\<rparr>\<rparr>))"

text \<open>The greeting the client gets: the code, the domain name and what follows it.\<close>

definition smtp_greeting :: "string \<Rightarrow> string" where
  "smtp_greeting line =
    (let domain = drop 4 line; line4 = take 4 line
     in case strchr domain CHR '' '' of
          Some rest \<Rightarrow> line4 @ takeWhile (\<lambda>x. x \<noteq> CHR '' '') domain @ '' stunnel for '' @ tl rest
        | None \<Rightarrow> line4 @ domain @ '' stunnel'')"

definition smtp_domain :: "string \<Rightarrow> string" where
  "smtp_domain line = takeWhile (\<lambda>x. x \<noteq> CHR '' '') (drop 4 line)"

definition smtp_server_greeting :: "string cm" where
  "smtp_server_greeting =
    bindM (getM remote) (\<lambda>r. bindM (getM local_wr) (\<lambda>w.
    bindM (fd_getline r) (\<lambda>line.
      if \<not> (is_prefix line ''220 '' \<or> is_prefix line ''220-'') then stopM (Longjmp 1) else
    seqM (fd_putline w (smtp_greeting line))
    (if is_prefix line ''220-'' then bindM (copy_reply r w ''220-'') (\<lambda>_. retM (smtp_domain line))
     else retM (smtp_domain line)))))"

definition smtp_server_ehlo :: "string \<Rightarrow> unit cm" where
  "smtp_server_ehlo domain =
    bindM (getM local_rd) (\<lambda>f. bindM (getM local_wr) (\<lambda>w.
    bindM (fd_getline f) (\<lambda>line.
      if \<not> is_prefix line ''EHLO '' then stopM (Longjmp 1) else
    seqM (fd_putline w (''250-'' @ domain))
    (seqM (fd_putline w ''250 STARTTLS'')
    (bindM (fd_getline f) (\<lambda>line.
      if \<not> is_prefix line ''STARTTLS'' then stopM (Longjmp 1) else
      fd_putline w ''220 Go ahead''))))))"

definition smtp_server :: "phase \<Rightarrow> string option cm" where
  "smtp_server ph =
    seqM (want_connect ph)
    (if ph \<noteq> PROTOCOL_MIDDLE then retM None
     else bindM client_speaks (\<lambda>n.
       if n = 1 then retM None
       else if n \<noteq> 0 then stopM (Longjmp 1)
       else bindM smtp_server_greeting (\<lambda>domain. seqM (smtp_server_ehlo domain) (retM None))))"

section \<open>POP3\<close>

definition pop3_client :: "phase \<Rightarrow> string option cm" where
  "pop3_client ph =
    (if ph \<noteq> PROTOCOL_MIDDLE then retM None
     else bindM (getM remote) (\<lambda>r. bindM (getM local_wr) (\<lambda>w.
       bindM (fd_getline r) (\<lambda>line.
         if \<not> is_prefix line ''+OK '' then stopM (Longjmp 1) else
       seqM (fd_putline w line)
       (seqM (fd_putline r ''STLS'')
       (bindM (fd_getline r) (\<lambda>line.
         if \<not> is_prefix line ''+OK '' then stopM (Longjmp 1) else retM None)))))))"

definition pop3_server :: "phase \<Rightarrow> string option cm" where
  "pop3_server ph =
    seqM (want_connect ph)
    (if ph \<noteq> PROTOCOL_MIDDLE then retM None
     else bindM (getM remote) (\<lambda>r. bindM (getM local_rd) (\<lambda>f. bindM (getM local_wr) (\<lambda>w.
       bindM (fd_getline r) (\<lambda>line.
       seqM (fd_putline w (line @ '' + stunnel''))
       (bindM (fd_getline f) (\<lambda>line.
       bindM (if is_prefix line ''CAPA'' then
           seqM (fd_putline w ''+OK Stunnel capability list follows'')
           (seqM (fd_putline w ''STLS'') (seqM (fd_putline w ''.'') (fd_getline f)))
         else retM line) (\<lambda>line.
       if \<not> is_prefix line ''STLS'' then stopM (Longjmp 1)
       else seqM (fd_putline w ''+OK Stunnel starts TLS negotiation'') (retM None)))))))))"

section \<open>IMAP\<close>

definition imap_client :: "phase \<Rightarrow> string option cm" where
  "imap_client ph =
    (if ph \<noteq> PROTOCOL_MIDDLE then retM None
     else bindM (getM remote) (\<lambda>r. bindM (getM local_wr) (\<lambda>w.
       bindM (fd_getline r) (\<lambda>line.
         if \<not> is_prefix line ''* OK'' then stopM (Longjmp 1) else
       seqM (fd_putline w line)
       (seqM (fd_putline r ''stunnel STARTTLS'')
       (bindM (fd_getline r) (\<lambda>line.
         if \<not> is_prefix line ''stunnel OK'' then
           seqM (fd_putline w ''* BYE stunnel: Server does not support TLS'') (stopM (Longjmp 2))
         else retM None)))))))"

text \<open>The first \<open>CAPABILITY\<close> of the greeting, in upper or else in lower case, is made unreadable.\<close>

definition hide_capability :: "string \<Rightarrow> string" where
  "hide_capability line =
    (case strstr_at line ''CAPABILITY'' 0 of
       Some i \<Rightarrow> line[i := CHR ''K'']
     | None \<Rightarrow> (case strstr_at line ''capability'' 0 of Some i \<Rightarrow> line[i := CHR ''K''] | None \<Rightarrow> line))"

definition starred :: "string \<Rightarrow> bool" where
  "starred line \<longleftrightarrow> line \<noteq> [] \<and> hd line = CHR ''*''"

text \<open>The answer to CAPABILITY: the capabilities with STARTTLS added, then the status line. \<open>False\<close>
  ends the command loop.\<close>

definition imap_capability :: "string \<Rightarrow> bool cm" where
  "imap_capability cmd =
    bindM (getM remote) (\<lambda>r. bindM (getM local_wr) (\<lambda>w.
    seqM (fd_putline r cmd)
    (bindM (fd_getline r) (\<lambda>line.
    bindM (if starred line then seqM (fd_putline w (line @ '' STARTTLS'')) (fd_getline r)
           else retM line) (\<lambda>line.
    seqM (fd_putline w line)
    (if (case strchr line CHR '' '' of None \<Rightarrow> True | Some t \<Rightarrow> \<not> is_prefix (tl t) ''OK'')
     then seqM (fd_putline w ''* BYE unexpected server response'') (retM False)
     else retM True))))))"

text \<open>One client command: \<open>Inl True\<close> is STARTTLS, \<open>Inl False\<close> the end of the session.\<close>

definition imap_command :: "(bool + unit) cm" where
  "imap_command =
    bindM (getM local_rd) (\<lambda>f. bindM (getM local_wr) (\<lambda>w.
    bindM (fd_getline f) (\<lambda>line.
    let id = takeWhile (\<lambda>x. x \<noteq> CHR '' '') line in
    case strchr line CHR '' '' of
      None \<Rightarrow> retM (Inl False)
    | Some rest \<Rightarrow> let tail = tl rest in
        if is_prefix tail ''STARTTLS'' then
          seqM (fd_putline w (id @ '' OK Begin TLS negotiation now'')) (retM (Inl True))
        else if is_prefix tail ''CAPABILITY'' then
          bindM (imap_capability line) (\<lambda>ok. retM (if ok then Inr () else Inl False))
        else if is_prefix tail ''LOGOUT'' then
          seqM (fd_putline w ''* BYE server terminating'')
          (seqM (fd_putline w (id @ '' OK LOGOUT completed'')) (retM (Inl False)))
        else
          seqM (fd_putline w ''* BYE stunnel: unexpected command'')
          (seqM (fd_putline w (id @ '' BAD '' @ tail @ '' unexpected'')) (retM (Inl False))))))"

definition imap_shutdown :: "string option cm" where
  "imap_shutdown =
    bindM (getM remote) (\<lambda>r.
    seqM (fd_putline r ''stunnel LOGOUT'')
    (bindM (fd_getline r) (\<lambda>line.
    bindM (if starred line then fd_getline r else retM line) (\<lambda>_. stopM (Longjmp 2)))))"

definition imap_server :: "phase \<Rightarrow> string option cm" where
  "imap_server ph =
    seqM (want_connect ph)
    (if ph \<noteq> PROTOCOL_MIDDLE then retM None
     else bindM client_speaks (\<lambda>n.
       if n = 1 then retM None
       else if n \<noteq> 0 then stopM (Longjmp 1)
       else bindM (getM remote) (\<lambda>r. bindM (getM local_wr) (\<lambda>w.
         bindM (fd_getline r) (\<lambda>line.
           if \<not> is_prefix line ''* OK'' then stopM (Longjmp 1) else
         seqM (fd_putline w (hide_capability line @ '' (stunnel)''))
         (bindM (loopM (\<lambda>_. imap_command) ()) (\<lambda>tls.
           if tls then retM None else imap_shutdown)))))))"

section \<open>NNTP\<close>

definition nntp_client :: "phase \<Rightarrow> string option cm" where
  "nntp_client ph =
    (if ph \<noteq> PROTOCOL_MIDDLE then retM None
     else bindM (getM remote) (\<lambda>r. bindM (getM local_wr) (\<lambda>w.
       bindM (fd_getline r) (\<lambda>line.
         if \<not> is_prefix line ''200 '' \<and> \<not> is_prefix line ''201 '' then stopM (Longjmp 1) else
       seqM (fd_putline w line)
       (seqM (fd_putline r ''STARTTLS'')
       (bindM (fd_getline r) (\<lambda>line.
         if \<not> is_prefix line ''382 '' then stopM (Longjmp 1) else retM None)))))))"

section \<open>Replies of several lines\<close>

text \<open>The lines of one reply: all but the last have the prefix.\<close>

definition reply_lines :: "string \<Rightarrow> string list \<Rightarrow> bool" where
  "reply_lines pre lines \<longleftrightarrow> lines \<noteq> [] \<and> (\<forall>s \<in> set (butlast lines). is_prefix s pre) \<and>
     \<not> is_prefix (last lines) pre"

definition wire_lines :: "string list \<Rightarrow> byte list \<Rightarrow> bool" where
  "wire_lines lines w \<longleftrightarrow> (\<exists>ws. list_all2 wire_line lines ws \<and> w = concat ws)"

lemma wire_lines_Nil [simp]: "wire_lines [] []"
  by (simp add: wire_lines_def)

lemma wire_lines_append: "wire_lines ls w \<Longrightarrow> wire_line s v \<Longrightarrow> wire_lines (ls @ [s]) (w @ v)"
proof -
  assume "wire_lines ls w" "wire_line s v"
  then obtain ws where "list_all2 wire_line (ls @ [s]) (ws @ [v])" "w @ v = concat (ws @ [v])"
    by (auto simp: wire_lines_def intro: list_all2_appendI)
  then show ?thesis unfolding wire_lines_def by blast
qed

lemma adding_adding [simp]: "adding (adding m ch a) ch b = adding m ch (a @ b)"
  by (simp add: adding_def)

lemma adding_nil [simp]: "adding m ch [] = m"
  by (simp add: adding_def)

lemma adding_swap: "a \<noteq> b \<Longrightarrow> adding (adding m a x) b y = adding (adding m b y) a x"
  by (auto simp: adding_def fun_upd_twist)

lemma wp_skip_reply:
  assumes "os_ok (os (env c))" "flow c m c1"
    and Q: "\<And>lines w c2. reply_lines pre lines \<Longrightarrow> wire_lines lines w \<Longrightarrow>
      flow c (adding m (In f) w) c2 \<Longrightarrow> io_le c1 c2 \<Longrightarrow> Q (last lines) c2"
    and E: "\<And>k c2. k \<in> aborts \<Longrightarrow> E k c2"
  shows "wp (skip_reply f pre) Q E c1"
  unfolding skip_reply_def
proof (rule wp_loopM [where I = "\<lambda>_ c2. io_le c1 c2 \<and> (\<exists>lines w. (\<forall>s \<in> set lines. is_prefix s pre) \<and>
    wire_lines lines w \<and> flow c (adding m (In f) w) c2)"], goal_cases)
  case 1
  then show ?case using assms(2) by (auto simp: io.refl intro!: exI [of _ "[]"])
next
  case (2 a c2)
  then obtain lines w where l: "\<forall>s \<in> set lines. is_prefix s pre" "wire_lines lines w"
    "flow c (adding m (In f) w) c2" "io_le c1 c2" by blast
  show ?case
    unfolding wp_bindM wp_retM
  proof (rule wp_getline [OF assms(1) l(3)])
    fix s v c3
    assume s: "wire_line s v" "flow c (adding (adding m (In f) w) (In f) v) c3" "io_le c2 c3"
    have io: "io_le c1 c3" using l(4) s(3) by (rule io.trans)
    have w: "wire_lines (lines @ [s]) (w @ v)" using l(2) s(1) by (rule wire_lines_append)
    show "case if is_prefix s pre then Inr () else Inl s of Inl b \<Rightarrow> Q b c3
        | Inr a \<Rightarrow> io_le c1 c3 \<and> (\<exists>lines w. (\<forall>s \<in> set lines. is_prefix s pre) \<and> wire_lines lines w \<and>
            flow c (adding m (In f) w) c3)"
    proof (cases "is_prefix s pre")
      case True
      then have "\<forall>x \<in> set (lines @ [s]). is_prefix x pre" using l(1) by auto
      then show ?thesis using True w s(2) io by (auto intro!: exI [of _ "lines @ [s]"] exI [of _ "w @ v"])
    next
      case False
      then have "reply_lines pre (lines @ [s])" using l(1) by (simp add: reply_lines_def)
      then show ?thesis using False Q [OF _ w _ io] s(2) by simp
    qed
  qed (rule E)
qed (use E in auto)

lemma wp_copy_reply:
  assumes "os_ok (os (env c))" "flow c m c1"
    and Q: "\<And>lines w c2. reply_lines pre lines \<Longrightarrow> wire_lines lines w \<Longrightarrow>
      flow c (adding (adding m (In f) w) (Out g) (concat (map as_line lines))) c2 \<Longrightarrow> io_le c1 c2 \<Longrightarrow> Q (last lines) c2"
    and E: "\<And>k c2. k \<in> aborts \<Longrightarrow> E k c2"
  shows "wp (copy_reply f g pre) Q E c1"
  unfolding copy_reply_def
proof (rule wp_loopM [where I = "\<lambda>_ c2. io_le c1 c2 \<and> (\<exists>lines w. (\<forall>s \<in> set lines. is_prefix s pre) \<and>
    wire_lines lines w \<and> flow c (adding (adding m (In f) w) (Out g) (concat (map as_line lines))) c2)"], goal_cases)
  case 1
  then show ?case using assms(2) by (auto simp: io.refl intro!: exI [of _ "[]"])
next
  case (2 a c2)
  then obtain lines w where l: "\<forall>s \<in> set lines. is_prefix s pre" "wire_lines lines w"
    "flow c (adding (adding m (In f) w) (Out g) (concat (map as_line lines))) c2" "io_le c1 c2" by blast
  show ?case
    unfolding wp_bindM wp_seqM wp_retM
  proof (rule wp_getline [OF assms(1) l(3)], erule wp_putline [OF assms(1)])
    fix s v c3 u c4
    assume s: "wire_line s v" "io_le c2 c3" "io_le c3 c4"
      "flow c (adding (adding (adding (adding m (In f) w) (Out g) (concat (map as_line lines))) (In f) v) (Out g) (as_line s)) c4"
    have io: "io_le c1 c4" using l(4) s(2,3) io.trans by blast
    have w: "wire_lines (lines @ [s]) (w @ v)" using l(2) s(1) by (rule wire_lines_append)
    have f: "flow c (adding (adding m (In f) (w @ v)) (Out g) (concat (map as_line (lines @ [s])))) c4"
      using s(4) adding_swap [of "Out g" "In f" "adding m (In f) w"] by simp
    show "case if is_prefix s pre then Inr () else Inl s of Inl b \<Rightarrow> Q b c4
        | Inr a \<Rightarrow> io_le c1 c4 \<and> (\<exists>lines w. (\<forall>s \<in> set lines. is_prefix s pre) \<and> wire_lines lines w \<and>
            flow c (adding (adding m (In f) w) (Out g) (concat (map as_line lines))) c4)"
    proof (cases "is_prefix s pre")
      case True
      then have "\<forall>x \<in> set (lines @ [s]). is_prefix x pre" using l(1) by auto
      then show ?thesis using True w f io by (auto intro!: exI [of _ "lines @ [s]"] exI [of _ "w @ v"])
    next
      case False
      then have "reply_lines pre (lines @ [s])" using l(1) by (simp add: reply_lines_def)
      then show ?thesis using False Q [OF _ w f io] by simp
    qed
  qed (rule E, assumption)+
qed (use E in auto)

section \<open>STARTTLS as the client\<close>

text \<open>The server was asked for TLS with exactly the commands \<open>cmds\<close>, the last thing read from it is
  the line that agrees, no more was taken from it, and no other peer was read.\<close>

definition starttls_client :: "cli \<Rightarrow> string list \<Rightarrow> string \<Rightarrow> cli \<Rightarrow> bool" where
  "starttls_client c cmds pre c' \<longleftrightarrow> (\<exists>m s w. flow c m c' \<and> wire_line s w \<and> is_prefix s pre \<and>
     suffix w (m (In (remote c))) \<and>
     (local_wr c \<noteq> remote c \<longrightarrow> m (Out (remote c)) = concat (map as_line cmds)) \<and>
     (\<forall>f. f \<noteq> remote c \<longrightarrow> m (In f) = []) \<and> m Tls_in = [] \<and> m Tls_out = [])"

lemma starttls_clientI:
  assumes "flow c (adding m (In (remote c)) w) c'" "wire_line s w" "is_prefix s pre"
    and "local_wr c \<noteq> remote c \<Longrightarrow> m (Out (remote c)) = concat (map as_line cmds)"
    and "\<And>f. f \<noteq> remote c \<Longrightarrow> m (In f) = []" "m Tls_in = []" "m Tls_out = []"
  shows "starttls_client c cmds pre c'"
  unfolding starttls_client_def using assms
  by (intro exI [of _ "adding m (In (remote c)) w"] exI [of _ s] exI [of _ w]) (auto simp: adding_apply suffix_def)

lemma wire_lines_last: 
  assumes "wire_lines ls w" "ls \<noteq> []"
  obtains v where "wire_line (last ls) v" "suffix v w"
proof -
  obtain ws where ws: "list_all2 wire_line ls ws" "w = concat ws" using assms(1) by (auto simp: wire_lines_def)
  then have "ws \<noteq> []" using assms(2) by auto
  then have "w = concat (butlast ws) @ last ws"
    using append_butlast_last_id [of ws] ws(2) concat_append [of "butlast ws" "[last ws]"] by simp
  moreover have "wire_line (last ls) (last ws)"
    using ws(1) assms(2) \<open>ws \<noteq> []\<close> by (simp add: list_all2_conv_all_nth last_conv_nth)
  ultimately show ?thesis using that by (auto intro: suffixI)
qed

lemma adding_simps [simp]: "adding m ch w ch = m ch @ w" "ch \<noteq> h \<Longrightarrow> adding m ch w h = m h" "nothing ch = []"
  by (simp_all add: adding_apply nothing_def)

lemma aborts_refuses_mem: "k \<in> aborts \<Longrightarrow> k \<in> refuses"
  by (auto simp: aborts_def refuses_def)

text \<open>The rules as eliminations: the streams known so far are replaced by the new ones.\<close>

text \<open>The streams moved, and the descriptors the negotiations name are still the same.\<close>

definition moved_on :: "cli \<Rightarrow> (chan \<Rightarrow> byte list) \<Rightarrow> cli \<Rightarrow> bool" where
  "moved_on c m c' \<longleftrightarrow> flow c m c' \<and> local_rd c' = local_rd c \<and> local_wr c' = local_wr c \<and> remote c' = remote c"

lemma flow_moved_on: "flow c m c' \<Longrightarrow> moved_on c m c'"
  by (simp add: moved_on_def flow_def local_rd_def local_wr_def remote_def)

lemma moved_onE [elim!]:
  assumes "moved_on c m c'"
    and "flow c m c' \<Longrightarrow> local_rd c' = local_rd c \<Longrightarrow> local_wr c' = local_wr c \<Longrightarrow> remote c' = remote c \<Longrightarrow> P"
  shows P
  using assms by (simp add: moved_on_def)

lemma flow_steps:
  assumes "flow c m c1" "os_ok (os (env c))" "\<And>k c2. k \<in> aborts \<Longrightarrow> E k c2"
  shows "(\<And>s w c2. moved_on c (adding m (In f) w) c2 \<Longrightarrow> wire_line s w \<Longrightarrow> Q s c2) \<Longrightarrow> wp (fd_getline f) Q E c1"
    "(\<And>u c2. moved_on c (adding m (Out f) (as_line t)) c2 \<Longrightarrow> R u c2) \<Longrightarrow> wp (fd_putline f t) R E c1"
    "(\<And>lines w c2. moved_on c (adding m (In f) w) c2 \<Longrightarrow> reply_lines pre lines \<Longrightarrow> wire_lines lines w \<Longrightarrow>
      Q (last lines) c2) \<Longrightarrow> wp (skip_reply f pre) Q E c1"
    "(\<And>lines w c2. moved_on c (adding (adding m (In f) w) (Out g) (concat (map as_line lines))) c2 \<Longrightarrow>
      reply_lines pre lines \<Longrightarrow> wire_lines lines w \<Longrightarrow> Q (last lines) c2) \<Longrightarrow> wp (copy_reply f g pre) Q E c1"
  by (rule wp_getline [OF assms(2,1)] wp_putline [OF assms(2,1)] wp_skip_reply [OF assms(2,1)]
      wp_copy_reply [OF assms(2,1)]; auto intro: flow_moved_on assms(3))+

lemma starttls_clientI2:
  assumes "flow c (adding m (In (remote c)) w) c'" "is_prefix (last ls) pre" "wire_lines ls w" "reply_lines q ls"
    and "local_wr c \<noteq> remote c \<Longrightarrow> m (Out (remote c)) = concat (map as_line cmds)"
    and "\<And>f. f \<noteq> remote c \<Longrightarrow> m (In f) = []" "m Tls_in = []" "m Tls_out = []"
  shows "starttls_client c cmds pre c'"
proof -
  obtain v u where "wire_line (last ls) v" "w = u @ v"
    using wire_lines_last [OF assms(3)] assms(4) unfolding reply_lines_def by (metis suffix_def)
  then show ?thesis
    using assms starttls_clientI [of c "adding m (In (remote c)) u" v c' "last ls" pre cmds]
    by (simp add: adding_apply)
qed

lemma starttls_clients:
  assumes ok: "os_ok (os (env c))"
  shows "wp (pop3_client PROTOCOL_MIDDLE) (\<lambda>r c'. r = None \<and> starttls_client c [''STLS''] ''+OK '' c')
      (\<lambda>k _. k \<in> refuses) c"
    "wp (nntp_client PROTOCOL_MIDDLE) (\<lambda>r c'. r = None \<and> starttls_client c [''STARTTLS''] ''382 '' c')
      (\<lambda>k _. k \<in> refuses) c"
    "wp (imap_client PROTOCOL_MIDDLE) (\<lambda>r c'. r = None \<and> starttls_client c [''stunnel STARTTLS''] ''stunnel OK'' c')
      (\<lambda>k _. k \<in> refuses) c"
  unfolding pop3_client_def nntp_client_def imap_client_def
  using flow_refl [of c]
  by (auto simp: wp_eqs aborts_refuses_mem simp del: flow_refl
      elim!: flow_steps [OF _ ok] starttls_clientI)

lemma smtp_client_starttls:
  assumes ok: "os_ok (os (env c))"
  shows "wp (smtp_client PROTOCOL_MIDDLE)
      (\<lambda>r c'. r = None \<and> starttls_client c [''EHLO localhost'', ''STARTTLS''] ''220 '' c') (\<lambda>k _. k \<in> refuses) c"
  unfolding smtp_client_def smtp_client_negotiate_def
  using flow_refl [of c]
  by (auto simp: wp_eqs aborts_refuses_mem simp del: flow_refl
      elim!: flow_steps [OF _ ok] starttls_clientI2)

section \<open>STARTTLS as the server\<close>

text \<open>The last line taken from the client is the command that asks for TLS, nothing after it was
  read, and the last line sent to the client is the one that agrees.\<close>

definition starttls_server :: "cli \<Rightarrow> (string \<Rightarrow> bool) \<Rightarrow> (string \<Rightarrow> string) \<Rightarrow> cli \<Rightarrow> bool" where
  "starttls_server c wants go c' \<longleftrightarrow> (\<exists>m s w. flow c m c' \<and> wire_line s w \<and> wants s \<and>
     suffix w (m (In (local_rd c))) \<and> suffix (as_line (go s)) (m (Out (local_wr c))) \<and>
     m Tls_in = [] \<and> m Tls_out = [])"

lemma starttls_serverI:
  assumes "flow c (adding (adding m (In (local_rd c)) w) (Out (local_wr c)) (as_line t)) c'"
    and "wire_line s w" "wants s" "t = go s" "m Tls_in = []" "m Tls_out = []"
  shows "starttls_server c wants go c'"
  unfolding starttls_server_def using assms
  by (intro exI [of _ "adding (adding m (In (local_rd c)) w) (Out (local_wr c)) (as_line t)"] exI [of _ s]
      exI [of _ w]) (auto simp: adding_apply suffix_def)

text \<open>A client that speaks first starts TLS itself: nothing is read or written.\<close>

definition untouched :: "cli \<Rightarrow> cli \<Rightarrow> bool" where
  "untouched c c' \<longleftrightarrow> flow c nothing c'"

lemma client_speaks_frames:
  "keeps hush client_speaks" "stops aborts client_speaks"
  unfolding client_speaks_def
  by (auto intro!: hush.rules frame_intros)
    (auto intro!: stops_rules frame_intros simp: poll_init_def poll_add_def)

lemma flow_speaks:
  assumes "flow c m c1" "os_ok (os (env c))" "\<And>k c2. k \<in> aborts \<Longrightarrow> E k c2"
  shows "(\<And>n c2. moved_on c m c2 \<Longrightarrow> Q n c2) \<Longrightarrow> wp client_speaks Q E c1"
proof -
  assume Q: "\<And>n c2. moved_on c m c2 \<Longrightarrow> Q n c2"
  have "wp client_speaks (\<lambda>_ c2. flow c m c2) (\<lambda>_ _. True) c1"
    by (rule wp_flow_hush [OF client_speaks_frames(1) assms(1)]) auto
  from wp_stops [OF client_speaks_frames(2) this] show ?thesis
    by (rule wp_mono) (auto intro: Q flow_moved_on assms(3))
qed

lemma want_connect_late [simp]: "want_connect PROTOCOL_MIDDLE = retM ()"
  by (simp add: want_connect_def whenM_def)

lemma smtp_server_starttls:
  assumes ok: "os_ok (os (env c))"
  shows "wp (smtp_server PROTOCOL_MIDDLE) (\<lambda>r c'. r = None \<and>
      (starttls_server c (\<lambda>s. is_prefix s ''STARTTLS'') (\<lambda>_. ''220 Go ahead'') c' \<or> untouched c c')) (\<lambda>k _. k \<in> refuses) c"
  unfolding smtp_server_def smtp_server_greeting_def smtp_server_ehlo_def
  using flow_refl [of c]
  by (auto simp: wp_eqs aborts_refuses_mem untouched_def simp del: flow_refl
      elim!: flow_speaks [OF _ ok] flow_steps [OF _ ok] starttls_serverI)

lemma pop3_server_starttls:
  assumes ok: "os_ok (os (env c))"
  shows "wp (pop3_server PROTOCOL_MIDDLE) (\<lambda>r c'. r = None \<and>
      starttls_server c (\<lambda>s. is_prefix s ''STLS'') (\<lambda>_. ''+OK Stunnel starts TLS negotiation'') c') (\<lambda>k _. k \<in> refuses) c"
  unfolding pop3_server_def
  using flow_refl [of c]
  by (auto simp: wp_eqs aborts_refuses_mem simp del: flow_refl
      elim!: flow_steps [OF _ ok] starttls_serverI)

text \<open>The command loop of IMAP.\<close>

definition imap_asks :: "string \<Rightarrow> bool" where
  "imap_asks s \<longleftrightarrow> (\<exists>rest. strchr s CHR '' '' = Some rest \<and> is_prefix (tl rest) ''STARTTLS'')"

definition imap_agrees :: "string \<Rightarrow> string" where
  "imap_agrees s = takeWhile (\<lambda>x. x \<noteq> CHR '' '') s @ '' OK Begin TLS negotiation now''"

definition plain_only :: "cli \<Rightarrow> cli \<Rightarrow> bool" where
  "plain_only c c' \<longleftrightarrow> (\<exists>m. moved_on c m c' \<and> m Tls_in = [] \<and> m Tls_out = [])"

lemma plain_onlyI: "flow c m c' \<Longrightarrow> m Tls_in = [] \<Longrightarrow> m Tls_out = [] \<Longrightarrow> plain_only c c'"
  using flow_moved_on by (auto simp: plain_only_def)

lemma imap_command_starttls:
  assumes ok: "os_ok (os (env c))" and c1: "plain_only c c1"
  shows "wp imap_command (\<lambda>r c2. case r of
      Inl True \<Rightarrow> starttls_server c imap_asks imap_agrees c2
    | _ \<Rightarrow> plain_only c c2) (\<lambda>k _. k \<in> refuses) c1"
proof -
  obtain m where m: "moved_on c m c1" "m Tls_in = []" "m Tls_out = []"
    using c1 unfolding plain_only_def by (elim exE conjE) (rule that)
  show ?thesis
    unfolding imap_command_def imap_capability_def
    using m
    by (auto simp: wp_eqs aborts_refuses_mem Let_def imap_asks_def imap_agrees_def simp del: flow_refl
        elim!: flow_steps [OF _ ok] starttls_serverI plain_onlyI split: option.splits) simp_all
qed

lemma imap_shutdown_stops:
  assumes ok: "os_ok (os (env c))"
  shows "wp imap_shutdown Q (\<lambda>k _. k \<in> refuses) c"
  unfolding imap_shutdown_def
  using flow_refl [of c]
  by (auto simp: wp_eqs aborts_refuses_mem simp del: flow_refl elim!: flow_steps [OF _ ok])

lemma plain_only_os: "plain_only c c' \<Longrightarrow> os (env c') = os (env c)"
  by (auto simp: plain_only_def flow_def)

lemma imap_server_starttls:
  assumes ok: "os_ok (os (env c))"
  shows "wp (imap_server PROTOCOL_MIDDLE) (\<lambda>r c'. r = None \<and>
      (starttls_server c imap_asks imap_agrees c' \<or> untouched c c')) (\<lambda>k _. k \<in> refuses) c"
proof -
  have loop: "wp (loopM (\<lambda>_. imap_command) ()) (\<lambda>tls c2. if tls then starttls_server c imap_asks imap_agrees c2
      else plain_only c c2) (\<lambda>k _. k \<in> refuses) c1" if "plain_only c c1" for c1
    by (rule wp_loopM [where I = "\<lambda>_. plain_only c"])
      (auto simp: that intro!: wp_mono [OF imap_command_starttls [OF ok]] split: sum.split_asm sum.split bool.split_asm)
  show ?thesis
    unfolding imap_server_def
    using flow_refl [of c]
    by (auto simp: wp_eqs aborts_refuses_mem untouched_def simp del: flow_refl
        elim!: flow_speaks [OF _ ok] flow_steps [OF _ ok] plain_onlyI
        intro!: wp_mono [OF loop] imap_shutdown_stops simp: plain_only_os ok)
qed

section \<open>Credentials\<close>

lemma base64_1_frames:
  "keeps hush (base64_1 bs)" "stops {Blocked, Fatal} (base64_1 bs)"
  "returns (\<lambda>r. r = None \<or> r = base64_encode bs) (base64_1 bs)"
  unfolding base64_1_def base64_with_def
  by (auto intro!: hush.rules stops_rules returns_rules frame_intros simp: quiet_def)

lemma flow_tls_steps:
  assumes "flow c m c1" "os_ok (os (env c))" "\<And>k c2. k \<in> refuses \<Longrightarrow> E k c2"
  shows "(\<And>s w c2. moved_on c (adding m Tls_in w) c2 \<Longrightarrow> wire_line s w \<Longrightarrow> Q s c2) \<Longrightarrow> wp ssl_getline Q E c1"
    "(\<And>u c2. moved_on c (adding m Tls_out (as_line t)) c2 \<Longrightarrow> R u c2) \<Longrightarrow> wp (ssl_putline t) R E c1"
    "(\<And>r c2. moved_on c m c2 \<Longrightarrow> r = None \<or> r = base64_encode bs \<Longrightarrow> S r c2) \<Longrightarrow> wp (base64_1 bs) S E c1"
proof -
  show "(\<And>s w c2. moved_on c (adding m Tls_in w) c2 \<Longrightarrow> wire_line s w \<Longrightarrow> Q s c2) \<Longrightarrow> wp ssl_getline Q E c1"
    by (rule wp_ssl_getline [OF assms(2,1)]) (auto intro: flow_moved_on assms(3) aborts_refuses_mem)
  show "(\<And>u c2. moved_on c (adding m Tls_out (as_line t)) c2 \<Longrightarrow> R u c2) \<Longrightarrow> wp (ssl_putline t) R E c1"
    by (rule wp_ssl_putline [OF assms(2,1)]) (auto intro: flow_moved_on assms(3) aborts_refuses_mem)
  assume S: "\<And>r c2. moved_on c m c2 \<Longrightarrow> r = None \<or> r = base64_encode bs \<Longrightarrow> S r c2"
  have "wp (base64_1 bs) (\<lambda>_ c2. flow c m c2) (\<lambda>_ _. True) c1"
    by (rule wp_flow_hush [OF base64_1_frames(1) assms(1)]) auto
  from wp_returns [OF base64_1_frames(3) wp_stops [OF base64_1_frames(2) this]]
  show "wp (base64_1 bs) S E c1"
    by (rule wp_mono) (auto intro!: S flow_moved_on assms(3))
qed

text \<open>What authentication sends and the answer it takes for success.\<close>

lemma smtp_client_plain_sends:
  assumes ok: "os_ok (os (env c))"
  shows "wp (smtp_client_plain user pass) (\<lambda>_ c'. \<exists>e s w.
      base64_encode ([0] @ raw user @ [0] @ raw pass) = Some e \<and>
      flow c (adding (adding nothing Tls_out (as_line (''AUTH PLAIN '' @ e))) Tls_in w) c' \<and>
      wire_line s w \<and> is_prefix s ''235 '') (\<lambda>k _. k \<in> refuses) c"
  unfolding smtp_client_plain_def ssl_expect_def
  using flow_refl [of c]
  by (auto simp: wp_eqs aborts_refuses_mem base64_encode_eq simp del: flow_refl
      elim!: flow_tls_steps [OF _ ok] split: option.splits) blast

lemma smtp_client_login_sends:
  assumes ok: "os_ok (os (env c))"
  shows "wp (smtp_client_login user pass) (\<lambda>_ c'. \<exists>eu ep m.
      base64_encode (raw user) = Some eu \<and> base64_encode (raw pass) = Some ep \<and> flow c m c' \<and>
      m Tls_out = as_line ''AUTH LOGIN'' @ as_line eu @ as_line ep) (\<lambda>k _. k \<in> refuses) c"
  unfolding smtp_client_login_def ssl_expect_def
  using flow_refl [of c]
  by (auto simp: wp_eqs aborts_refuses_mem base64_encode_eq simp del: flow_refl
      elim!: flow_tls_steps [OF _ ok] split: option.splits) (rule exI, rule conjI, assumption, simp)

section \<open>Frames\<close>

lemma base64_civil [frame_intros]: "civil (base64_with r)" "civil (base64_1 bs)"
  unfolding base64_1_def base64_with_def by (auto intro!: civil_rules simp: fd_neutral_def)

lemma base64_safe [frame_intros]: "safe (base64_with r)" "safe (base64_1 bs)"
  unfolding base64_1_def base64_with_def by (auto intro!: safe_rules)

lemma reply_civil [frame_intros]: "civil (skip_reply f p)" "civil (copy_reply f w p)"
  unfolding skip_reply_def copy_reply_def
  by (rule civil_loopM; auto intro!: civil_rules frame_intros mv.rules)+

lemma reply_safe [frame_intros]: "safe (skip_reply f p)" "safe (copy_reply f w p)"
  unfolding skip_reply_def copy_reply_def by (auto intro!: safe_rules frame_intros)

lemma mail_parts_civil [frame_intros]:
  "civil smtp_client_negotiate" "civil (ssl_expect p)" "civil (smtp_client_plain u x)"
  "civil (smtp_client_login u x)" "civil client_speaks" "civil (want_connect ph)"
  "civil smtp_server_greeting" "civil (smtp_server_ehlo d)" "civil (imap_capability s)"
  "civil imap_command" "civil imap_shutdown"
  unfolding smtp_client_negotiate_def ssl_expect_def smtp_client_plain_def smtp_client_login_def
    client_speaks_def want_connect_def smtp_server_greeting_def smtp_server_ehlo_def imap_capability_def
    imap_command_def imap_shutdown_def whenM_def
  by (auto intro!: civil_rules frame_intros simp: Let_def split: option.split)

lemma mail_parts_safe [frame_intros]:
  "safe smtp_client_negotiate" "safe (ssl_expect p)" "safe (smtp_client_plain u x)"
  "safe (smtp_client_login u x)" "safe client_speaks" "safe (want_connect ph)"
  "safe smtp_server_greeting" "safe (smtp_server_ehlo d)" "safe (imap_capability s)"
  "safe imap_command" "safe imap_shutdown"
  unfolding smtp_client_negotiate_def ssl_expect_def smtp_client_plain_def smtp_client_login_def
    client_speaks_def want_connect_def smtp_server_greeting_def smtp_server_ehlo_def imap_capability_def
    imap_command_def imap_shutdown_def whenM_def
  by (auto intro!: safe_rules frame_intros simp: Let_def split: option.split)

lemma imap_command_moves: "keeps moves imap_command" "rounds imap_command"
proof -
  show "keeps moves imap_command"
    using mail_parts_civil by (simp add: civil_def)
  have "keeps moves (imap_capability s)" for s
    using mail_parts_civil by (simp add: civil_def)
  then show "rounds imap_command"
    unfolding imap_command_def by (auto intro!: frame_intros mv.rules simp: Let_def split: option.split)
qed

lemma imap_loop_civil [frame_intros]: "civil (loopM (\<lambda>_. imap_command) x)"
  by (auto intro!: civil_loopM frame_intros imap_command_moves)

lemma mail_civil [frame_intros]:
  "civil (smtp_client ph)" "civil (smtp_server ph)" "civil (pop3_client ph)" "civil (pop3_server ph)"
  "civil (imap_client ph)" "civil (imap_server ph)" "civil (nntp_client ph)"
  unfolding smtp_client_def smtp_server_def pop3_client_def pop3_server_def imap_client_def imap_server_def
    nntp_client_def
  by (auto intro!: civil_rules frame_intros simp: Let_def split: phase.split option.split)

lemma mail_safe [frame_intros]:
  "safe (smtp_client ph)" "safe (smtp_server ph)" "safe (pop3_client ph)" "safe (pop3_server ph)"
  "safe (imap_client ph)" "safe (imap_server ph)" "safe (nntp_client ph)"
  unfolding smtp_client_def smtp_server_def pop3_client_def pop3_server_def imap_client_def imap_server_def
    nntp_client_def
  by (auto intro!: safe_rules frame_intros simp: Let_def split: phase.split option.split)

end
