(* ===== verification/Ntlm.thy ===== *)
theory Ntlm
  imports Mail
begin

unbundle bit_operations_syntax

text \<open>
  NTLM authentication to an HTTP proxy (protocol.c: \<open>ntlm1\<close>, \<open>ntlm3\<close>, \<open>crypt_DES\<close>), with DES key parity
  from OpenSSL's set_key.c. MD4 and the DES block are requests. The theorems: the message is built
  inside its 146 bytes whatever the configuration and the challenge are, its offsets point at what
  they name, and the DES keys carry the 56 bits they are made from.
\<close>

section \<open>DES keys\<close>

definition odd_parity :: "byte list" where
  "odd_parity = [
    1, 1, 2, 2, 4, 4, 7, 7, 8, 8, 11, 11, 13, 13, 14, 14,
    16, 16, 19, 19, 21, 21, 22, 22, 25, 25, 26, 26, 28, 28, 31, 31,
    32, 32, 35, 35, 37, 37, 38, 38, 41, 41, 42, 42, 44, 44, 47, 47,
    49, 49, 50, 50, 52, 52, 55, 55, 56, 56, 59, 59, 61, 61, 62, 62,
    64, 64, 67, 67, 69, 69, 70, 70, 73, 73, 74, 74, 76, 76, 79, 79,
    81, 81, 82, 82, 84, 84, 87, 87, 88, 88, 91, 91, 93, 93, 94, 94,
    97, 97, 98, 98, 100, 100, 103, 103, 104, 104, 107, 107, 109, 109, 110, 110,
    112, 112, 115, 115, 117, 117, 118, 118, 121, 121, 122, 122, 124, 124, 127, 127,
    128, 128, 131, 131, 133, 133, 134, 134, 137, 137, 138, 138, 140, 140, 143, 143,
    145, 145, 146, 146, 148, 148, 151, 151, 152, 152, 155, 155, 157, 157, 158, 158,
    161, 161, 162, 162, 164, 164, 167, 167, 168, 168, 171, 171, 173, 173, 174, 174,
    176, 176, 179, 179, 181, 181, 182, 182, 185, 185, 186, 186, 188, 188, 191, 191,
    193, 193, 194, 194, 196, 196, 199, 199, 200, 200, 203, 203, 205, 205, 206, 206,
    208, 208, 211, 211, 213, 213, 214, 214, 217, 217, 218, 218, 220, 220, 223, 223,
    224, 224, 227, 227, 229, 229, 230, 230, 233, 233, 234, 234, 236, 236, 239, 239,
    241, 241, 242, 242, 244, 244, 247, 247, 248, 248, 251, 251, 253, 253, 254, 254]"

definition DES_set_odd_parity :: "byte list \<Rightarrow> byte list" where
  "DES_set_odd_parity key = map (\<lambda>b. odd_parity ! unat b) key"

text \<open>\<open>crypt_DES\<close> spreads 56 bits over eight bytes, the low bit of each left to parity.\<close>

definition des_spread :: "byte list \<Rightarrow> byte list" where
  "des_spread hash =
    [hash ! 0,
     push_bit 7 (hash ! 0 AND 1) OR drop_bit 1 (hash ! 1),
     push_bit 6 (hash ! 1 AND 3) OR drop_bit 2 (hash ! 2),
     push_bit 5 (hash ! 2 AND 7) OR drop_bit 3 (hash ! 3),
     push_bit 4 (hash ! 3 AND 15) OR drop_bit 4 (hash ! 4),
     push_bit 3 (hash ! 4 AND 31) OR drop_bit 5 (hash ! 5),
     push_bit 2 (hash ! 5 AND 63) OR drop_bit 6 (hash ! 6),
     push_bit 1 (hash ! 6 AND 127)]"

definition crypt_DES :: "byte list \<Rightarrow> byte list \<Rightarrow> byte list cm" where
  "crypt_DES block hash =
    (if length hash < 7 \<or> length block < 8 then stopM Overflow
     else bindM (sys (Des_ecb (DES_set_odd_parity (des_spread hash)) (take 8 block))) (\<lambda>a. retM (a_data a)))"

section \<open>Messages\<close>

text \<open>A store into a buffer, checked against its size.\<close>

definition store :: "byte list \<Rightarrow> nat \<Rightarrow> byte list \<Rightarrow> byte list cm" where
  "store buf off bs = (if off + length bs > length buf then stopM Overflow else retM (memcpy_at buf off bs))"

definition ntlmssp :: "byte list" where
  "ntlmssp = raw ''NTLMSSP'' @ [0]"

definition ntlm1 :: "string option cm" where
  "ntlm1 = bindM (store (replicate 32 0) 0 ntlmssp) (\<lambda>phase1. base64_1 (phase1[8 := 1, 12 := 2, 13 := 2]))"

definition ntlm_off :: nat where "ntlm_off = 64"
definition ntlm_len :: nat where "ntlm_len = 24"

text \<open>The header of the phase 3 message, for a domain and a user name of the given lengths.\<close>

definition phase3_header :: "nat \<Rightarrow> nat \<Rightarrow> byte list \<Rightarrow> byte list" where
  "phase3_header domain_len user_len buf =
    (let domain_off = ntlm_off + ntlm_len; user_off = domain_off + domain_len; end_off = user_off + user_len
     in buf[8 := 3, 16 := of_nat end_off, 20 := of_nat ntlm_len, 22 := of_nat ntlm_len, 24 := of_nat ntlm_off,
        28 := of_nat domain_len, 30 := of_nat domain_len, 32 := of_nat domain_off,
        36 := of_nat user_len, 38 := of_nat user_len, 40 := of_nat user_off,
        48 := of_nat end_off, 56 := of_nat end_off, 60 := 2, 61 := 2])"

text \<open>The password as UTF-16, one character at a time.\<close>

definition utf16 :: "string \<Rightarrow> byte list" where
  "utf16 password = concat (map (\<lambda>b. [b, 0]) (raw password))"

text \<open>The three DES responses to the challenge, and the two names behind them.\<close>

definition ntlm3_fill :: "string \<Rightarrow> string \<Rightarrow> byte list \<Rightarrow> byte list \<Rightarrow> byte list \<Rightarrow> byte list cm" where
  "ntlm3_fill domain user m1 challenge md4_hash =
    (let domain_off = ntlm_off + ntlm_len; user_off = domain_off + length domain
     in bindM (crypt_DES challenge md4_hash) (\<lambda>r1. bindM (store m1 ntlm_off r1) (\<lambda>m2.
        bindM (crypt_DES challenge (drop 7 md4_hash)) (\<lambda>r2. bindM (store m2 (ntlm_off + 8) r2) (\<lambda>m3.
        bindM (crypt_DES challenge (drop 14 md4_hash)) (\<lambda>r3. bindM (store m3 (ntlm_off + 16) r3) (\<lambda>m4.
        bindM (store m4 domain_off (raw domain)) (\<lambda>m5. store m5 user_off (raw user)))))))))"

text \<open>The message before it is encoded; \<open>None\<close> when it does not fit or the challenge cannot be decoded.\<close>

definition ntlm3_message :: "string \<Rightarrow> string \<Rightarrow> string \<Rightarrow> string \<Rightarrow> byte list option cm" where
  "ntlm3_message domain user password phase2 =
    (let end_off = ntlm_off + ntlm_len + length domain + length user
     in if end_off > 146 then retM None
     else bindM (store (replicate 146 0) 0 ntlmssp) (\<lambda>m0.
       let m1 = phase3_header (length domain) (length user) m0 in
       bindM (sys (Md4 (utf16 password))) (\<lambda>md4.
       let md4_hash = a_data md4 @ replicate 5 0 in
       bindM (base64_with (base64_decode phase2)) (\<lambda>decoded. case decoded of
           None \<Rightarrow> retM None
         | Some d \<Rightarrow> bindM (ntlm3_fill domain user m1 (drop 24 d) md4_hash) (\<lambda>m. retM (Some (take end_off m)))))))"

text \<open>Without \<open>protocolDomain\<close> the domain is NULL, and \<open>ntlm3\<close> measures it first.\<close>

definition ntlm3 :: "string option \<Rightarrow> string \<Rightarrow> string \<Rightarrow> string \<Rightarrow> string option cm" where
  "ntlm3 domain user password phase2 =
    (case domain of None \<Rightarrow> stopM Null_deref | Some d \<Rightarrow>
       bindM (ntlm3_message d user password phase2) (\<lambda>m. case m of
           None \<Rightarrow> retM None
         | Some msg \<Rightarrow> base64_1 msg))"

section \<open>Key bits\<close>

text \<open>Bit \<open>i\<close> of the hash, from the most significant bit of its first byte.\<close>

definition msb_bit :: "byte list \<Rightarrow> nat \<Rightarrow> bool" where
  "msb_bit bs i = bit (bs ! (i div 8)) (7 - i mod 8)"

lemma and_masks:
  "x AND 1 = take_bit 1 x" "x AND 3 = take_bit 2 x" "x AND 7 = take_bit 3 x" "x AND 15 = take_bit 4 x"
  "x AND 31 = take_bit 5 x" "x AND 63 = take_bit 6 x" "x AND 127 = take_bit 7 x" for x :: byte
  by (simp_all add: take_bit_eq_mask mask_eq_exp_minus_1)

lemma des_spread_at:
  "des_spread h ! 0 = h ! 0"
  "des_spread h ! 1 = push_bit 7 (take_bit 1 (h ! 0)) OR drop_bit 1 (h ! 1)"
  "des_spread h ! 2 = push_bit 6 (take_bit 2 (h ! 1)) OR drop_bit 2 (h ! 2)"
  "des_spread h ! 3 = push_bit 5 (take_bit 3 (h ! 2)) OR drop_bit 3 (h ! 3)"
  "des_spread h ! 4 = push_bit 4 (take_bit 4 (h ! 3)) OR drop_bit 4 (h ! 4)"
  "des_spread h ! 5 = push_bit 3 (take_bit 5 (h ! 4)) OR drop_bit 5 (h ! 5)"
  "des_spread h ! 6 = push_bit 2 (take_bit 6 (h ! 5)) OR drop_bit 6 (h ! 6)"
  "des_spread h ! 7 = push_bit 1 (take_bit 7 (h ! 6))"
  unfolding des_spread_def and_masks by simp_all

lemma des_spread_nth:
  assumes "k < 8"
  shows "des_spread hash ! k = (if k = 0 then 0 else push_bit (8 - k) (take_bit k (hash ! (k - 1)))) OR
     (if k = 7 then 0 else drop_bit k (hash ! k))"
proof -
  consider "k = 0" | "k = 1" | "k = 2" | "k = 3" | "k = 4" | "k = 5" | "k = 6" | "k = 7"
    using assms by linarith
  then show ?thesis
  proof cases
    case 1 then show ?thesis by (simp add: des_spread_at)
  next
    case 2 then show ?thesis by (simp add: des_spread_at del: One_nat_def)
  next
    case 3 then show ?thesis by (simp add: des_spread_at)
  next
    case 4 then show ?thesis by (simp add: des_spread_at)
  next
    case 5 then show ?thesis by (simp add: des_spread_at)
  next
    case 6 then show ?thesis by (simp add: des_spread_at)
  next
    case 7 then show ?thesis by (simp add: des_spread_at)
  next
    case 8 then show ?thesis by (simp add: des_spread_at)
  qed
qed

lemma byte_high: "8 \<le> n \<Longrightarrow> \<not> bit b n" for b :: byte
  by (auto dest: bit_imp_le_length)

lemma div_mod_8: "n = 8 * q + r \<Longrightarrow> r < 8 \<Longrightarrow> n div 8 = q \<and> n mod 8 = r" for n :: nat
  by simp

lemma des_spread_bits:
  assumes "k < 8" "j < 7"
  shows "bit (des_spread hash ! k) (7 - j) = msb_bit hash (7 * k + j)"
proof (cases "j < k")
  case True
  then have e: "7 * k + j = 8 * (k - 1) + (8 - k + j)" "8 - k + j < 8" using assms by auto
  note d = div_mod_8 [OF e]
  have i: "7 - (8 - k + j) = k - Suc j" "7 - j - (8 - k) = k - Suc j" "8 - k \<le> 7 - j" "k - Suc j < k" "k \<noteq> 0"
    using True assms by auto
  have "bit (push_bit (8 - k) (take_bit k x)) (7 - j) = bit x (k - Suc j)" for x :: byte
    using assms(2) by (simp only: bit_push_bit_iff bit_take_bit_iff possible_bit_word i) auto
  moreover have "\<not> bit (if k = 7 then 0 else drop_bit k (hash ! k)) (7 - j)"
    using True by (cases "k = 7") (simp_all add: bit_drop_bit_eq byte_high)
  ultimately show ?thesis
    by (simp only: des_spread_nth [OF assms(1)] bit_or_iff i if_False msb_bit_def d simp_thms)
next
  case False
  then have e: "7 * k + j = 8 * k + (j - k)" "j - k < 8" using assms by auto
  note d = div_mod_8 [OF e]
  have k: "k \<noteq> 7" "k + (7 - j) = 7 - (j - k)" using False assms by simp_all
  have "\<not> bit (if k = 0 then 0 else push_bit (8 - k) (take_bit k (hash ! (k - 1)))) (7 - j)"
  proof -
    have "\<not> 8 - k \<le> 7 - j" using False assms by linarith
    then show ?thesis by (simp only: bit_push_bit_iff bit_0_eq bot_fun_def split: if_split) simp
  qed
  then show ?thesis
    using k(1) by (simp only: des_spread_nth [OF assms(1)] bit_or_iff if_False bit_drop_bit_eq o_def k(2) msb_bit_def d simp_thms)
qed

text \<open>The parity table sets the low bit of a byte so that the number of its bits is odd.\<close>

definition ones :: "byte \<Rightarrow> nat list \<Rightarrow> nat" where
  "ones b ns = length (filter (bit b) ns)"

definition with_parity :: "byte \<Rightarrow> byte" where
  "with_parity b = (if odd (ones b [1, 2, 3, 4, 5, 6, 7]) then b AND 0xFE else b OR 1)"

lemma odd_parity_table: "odd_parity = map (\<lambda>i. with_parity (word_of_int i)) [0..255]"
  by code_simp

lemma odd_parity_nth: "odd_parity ! unat b = with_parity b" for b :: byte
proof -
  have l: "unat b < 256" by (rule byte_less)
  then have "[0..255] ! unat b = 0 + int (unat b)" by (intro nth_upto) linarith
  with l show ?thesis by (simp add: odd_parity_table)
qed

lemma parity_bit: "bit (if q then b AND 0xFE else b OR 1) n = (if n = 0 then \<not> q else bit b n)" for b :: byte
proof -
  have e: "(0xFE :: byte) = NOT 1" by simp
  have l: "n < 8" if "bit b n" using that by (auto dest: bit_imp_le_length)
  show ?thesis
  proof (cases q)
    case True
    then show ?thesis
      using l by (cases "n = 0")
        (simp_all only: e if_True bit_and_iff bit_not_iff possible_bit_word bit_1_iff simp_thms if_False, auto)
  next
    case False
    then show ?thesis
      by (cases "n = 0") (simp_all only: if_False bit_or_iff bit_1_iff possible_bit_word simp_thms if_True)
  qed
qed

lemma with_parity_bit: "1 \<le> n \<Longrightarrow> bit (with_parity b) n = bit b n"
  unfolding with_parity_def parity_bit by simp

lemma with_parity_odd: "odd (ones (with_parity b) [0, 1, 2, 3, 4, 5, 6, 7])"
proof -
  have "filter (bit (with_parity b)) [1, 2, 3, 4, 5, 6, 7] = filter (bit b) [1, 2, 3, 4, 5, 6, 7]"
    by (intro filter_cong) (auto intro!: with_parity_bit)
  then have "ones (with_parity b) [1, 2, 3, 4, 5, 6, 7] = ones b [1, 2, 3, 4, 5, 6, 7]"
    by (simp only: ones_def)
  moreover have "ones x (0 # ns) = (if bit x 0 then 1 else 0) + ones x ns" for x ns
    by (simp add: ones_def)
  moreover have "bit (with_parity b) 0 = even (ones b [1, 2, 3, 4, 5, 6, 7])"
    unfolding with_parity_def parity_bit by simp
  ultimately show ?thesis by (cases "even (ones b [1, 2, 3, 4, 5, 6, 7])") (simp_all only: if_True if_False even_add odd_one even_zero simp_thms)
qed

section \<open>The message fits\<close>

lemma base64_decode_length: "base64_decode t = Some d \<Longrightarrow> 32 \<le> length d"
  by (auto simp: base64_decode_def memcpy_at_def Let_def split: prod.splits if_splits)

lemma length_phase3_header [simp]: "length (phase3_header d u buf) = length buf"
  by (simp add: phase3_header_def Let_def)

lemma phase3_header_append: "length h = 64 \<Longrightarrow> phase3_header d u (h @ t) = phase3_header d u h @ t"
  by (simp add: phase3_header_def Let_def list_update_append1)

lemma wp_store:
  assumes "length a = off" "length bs \<le> n" "Q ((a @ bs) @ replicate (n - length bs) 0) c"
  shows "wp (store (a @ replicate n 0) off bs) Q E c"
  using assms by (simp add: store_def wp_simps memcpy_at_def)

lemma wp_des:
  assumes "os_ok (os (env c))" "8 \<le> length b" "7 \<le> length h"
    and "\<And>r c2. length r = 8 \<Longrightarrow> os (env c2) = os (env c) \<Longrightarrow> Q r c2" "\<And>c2. E Blocked c2"
  shows "wp (crypt_DES b h) Q E c"
  using assms os_okD [OF assms(1), of "Des_ecb (DES_set_odd_parity (des_spread h)) (take 8 b)" "now (env c)"]
  by (simp add: crypt_DES_def wp_eqs wp_sys_step del: wp_sys)

definition phase3_start :: "nat \<Rightarrow> nat \<Rightarrow> byte list" where
  "phase3_start d u = phase3_header d u (ntlmssp @ replicate 56 0)"

definition phase3_of :: "string \<Rightarrow> string \<Rightarrow> byte list \<Rightarrow> byte list" where
  "phase3_of domain user response = phase3_start (length domain) (length user) @ response @ raw domain @ raw user"

lemma length_ntlmssp [simp]: "length ntlmssp = 8"
  by (simp add: ntlmssp_def)

lemma length_phase3_start [simp]: "length (phase3_start d u) = 64"
  by (simp add: phase3_start_def)

lemma phase3_header_start:
  "phase3_header d u (ntlmssp @ replicate 138 0) = phase3_start d u @ replicate 82 0"
proof -
  have "replicate 138 (0 :: byte) = replicate 56 0 @ replicate 82 0" by (simp flip: replicate_add)
  then show ?thesis by (simp add: phase3_start_def phase3_header_append flip: append_assoc)
qed

lemma wp_base64_with:
  assumes "\<And>x c2. x = None \<or> x = r \<Longrightarrow> os (env c2) = os (env c) \<Longrightarrow> Q x c2" "\<And>c2. E Blocked c2" "\<And>c2. E Fatal c2"
  shows "wp (base64_with r) Q E c"
  using assms by (simp add: base64_with_def wp_eqs wp_sys_step del: wp_sys)

lemma wp_md4:
  assumes "os_ok (os (env c))" "\<And>a c2. length (a_data a) = 16 \<Longrightarrow> os (env c2) = os (env c) \<Longrightarrow> Q a c2" "\<And>c2. E Blocked c2"
  shows "wp (sys (Md4 x)) Q E c"
  using assms os_okD [OF assms(1), of "Md4 x" "now (env c)"] by (simp add: wp_sys_step del: wp_sys)

text \<open>The response and the names are stored one after the other behind the header.\<close>

lemma wp_ntlm3_fill:
  assumes ok: "os_ok (os (env c))" and fits: "88 + length domain + length user \<le> 146"
    and l: "8 \<le> length b" "length h = 21"
    and Q: "\<And>r t c2. length r = 24 \<Longrightarrow> os (env c2) = os (env c) \<Longrightarrow> Q (phase3_of domain user r @ t) c2"
    and E: "\<And>c2. E Blocked c2"
  shows "wp (ntlm3_fill domain user (phase3_start (length domain) (length user) @ replicate 82 0) b h) Q E c"
  unfolding ntlm3_fill_def Let_def ntlm_off_def ntlm_len_def wp_bindM
  apply (rule wp_des [OF ok l(1)], use l(2) in simp)
   apply (rule wp_store, simp, simp)
   apply (rule wp_des [OF _ l(1)], use ok in simp, use l(2) in simp)
    apply (rule wp_store, simp, simp)
    apply (rule wp_des [OF _ l(1)], use ok in simp, use l(2) in simp)
     apply (rule wp_store, simp, simp)
     apply (rule wp_store, simp, use fits in simp)
     apply (rule wp_store, simp, use fits in simp)
  subgoal premises p for r1 c1 r2 c2 r3 c3
    using Q [of "r1 @ r2 @ r3" c3] p by (simp add: phase3_of_def)
    apply (rule E)+
  done

lemma ntlm3_message_layout:
  assumes ok: "os_ok (os (env c))"
  shows "wp (ntlm3_message domain user password phase2)
    (\<lambda>r c'. os (env c') = os (env c) \<and> (\<forall>msg. r = Some msg \<longrightarrow> length msg \<le> 146 \<and>
       (\<exists>response. length response = 24 \<and> msg = phase3_of domain user response)))
    (\<lambda>k _. k \<in> {Blocked, Fatal}) c"
    (is "wp _ ?Q ?E c")
proof (cases "88 + length domain + length user > 146")
  case True
  then show ?thesis by (simp add: ntlm3_message_def Let_def ntlm_off_def ntlm_len_def wp_retM)
next
  case False
  have s0: "wp (store (replicate 146 0) 0 ntlmssp) Q E c = Q (ntlmssp @ replicate 138 0) c" for Q E
    by (simp add: store_def wp_simps memcpy_at_def ntlmssp_def)
  have l: "length (phase3_of domain user r) = 88 + length domain + length user" if "length r = 24" for r
    using that by (simp add: phase3_of_def)
  show ?thesis
    unfolding ntlm3_message_def Let_def ntlm_off_def ntlm_len_def wp_bindM wp_if s0 phase3_header_start
    using False
    apply simp
    apply (rule wp_md4 [OF ok])
     apply (rule wp_base64_with)
    subgoal for a c1 d c2
      by (auto simp: wp_retM wp_bindM ok l split: option.split dest!: base64_decode_length [OF sym]
          intro!: wp_ntlm3_fill)
    by simp_all
qed

section \<open>What the receiver reads\<close>

text \<open>A security buffer of the message: its length at \<open>p\<close>, allocated size at \<open>p + 2\<close> and offset at \<open>p + 4\<close>.\<close>

definition field :: "byte list \<Rightarrow> nat \<Rightarrow> byte list" where
  "field msg p = take (unat (msg ! p)) (drop (unat (msg ! (p + 4))) msg)"

lemma of_nat_unat: "n < 256 \<Longrightarrow> unat (of_nat n :: byte) = n"
  by (simp add: unat_of_nat)

lemma phase3_start_at:
  "phase3_start d u ! 8 = 3" "phase3_start d u ! 20 = of_nat 24" "phase3_start d u ! 24 = of_nat 64"
  "phase3_start d u ! 28 = of_nat d" "phase3_start d u ! 32 = of_nat 88"
  "phase3_start d u ! 36 = of_nat u" "phase3_start d u ! 40 = of_nat (88 + d)"
  by (simp_all add: phase3_start_def phase3_header_def ntlm_off_def ntlm_len_def Let_def)

lemma phase3_of_fields:
  assumes "length response = 24" "88 + length domain + length user \<le> 146"
  shows "field (phase3_of domain user response) 20 = response"
    "field (phase3_of domain user response) 28 = raw domain"
    "field (phase3_of domain user response) 36 = raw user"
  using assms
  by (simp_all add: field_def phase3_of_def nth_append phase3_start_at of_nat_unat del: of_nat_add)

section \<open>Frames\<close>

lemma ntlm_safe [frame_intros]: "safe ntlm1" "safe (ntlm3 (Some domain) user password phase2)"
proof -
  have s: "store (replicate 32 0) 0 ntlmssp = retM (ntlmssp @ replicate 24 0)"
    by (simp add: store_def memcpy_at_def ntlmssp_def)
  show "safe ntlm1"
    unfolding ntlm1_def s by (auto intro!: safe_rules frame_intros)
  have "safe (ntlm3_message domain user password phase2)"
    unfolding safe_def
    by (auto intro!: wp_mono [OF ntlm3_message_layout] simp: refuses_def)
  then show "safe (ntlm3 (Some domain) user password phase2)"
    unfolding ntlm3_def by (auto intro!: safe_rules frame_intros split: option.split)
qed

lemma ntlm_civil [frame_intros]: "civil ntlm1" "civil (ntlm3 domain user password phase2)"
  unfolding ntlm1_def ntlm3_def ntlm3_message_def ntlm3_fill_def crypt_DES_def store_def
  by (auto intro!: civil_rules frame_intros simp: fd_neutral_def Let_def split: option.split)

end
