(* ===== verification/Http.thy ===== *)
theory Http
  imports Ntlm
begin

text \<open>
  HTTP CONNECT (protocol.c: \<open>connect_server\<close>, \<open>connect_client\<close>, \<open>ntlm\<close>): stunnel as the proxy that
  takes the request before TLS, and as the client that asks a proxy for a tunnel, with no, basic or
  NTLM authentication.
\<close>

section \<open>Server\<close>

text \<open>Headers are read up to the empty line.\<close>

definition read_headers :: "int \<Rightarrow> unit cm" where
  "read_headers f = loopM (\<lambda>_. bindM (fd_getline f) (\<lambda>header.
     retM (if header \<noteq> [] then Inr () else Inl ()))) ()"

definition http_reply :: "string \<Rightarrow> unit cm" where
  "http_reply status =
    bindM (getM local_wr) (\<lambda>w.
    seqM (fd_putline w status) (seqM (fd_putline w ''Server: stunnel/5.40'') (fd_putline w [])))"

definition connect_server :: "phase \<Rightarrow> string option cm" where
  "connect_server ph =
    (if ph \<noteq> PROTOCOL_EARLY then retM None
     else bindM (getM local_rd) (\<lambda>f. bindM (fd_getline f) (\<lambda>request.
       if \<not> is_prefix request ''CONNECT '' then
         seqM (http_reply ''HTTP/1.0 400 Bad Request Method'') (stopM (Longjmp 1))
       else if \<not> (case strchr (drop 8 request) CHR '' '' of None \<Rightarrow> False | Some proto \<Rightarrow> is_prefix proto '' HTTP/'') then
         seqM (http_reply ''HTTP/1.0 400 Bad Request Protocol'') (stopM (Longjmp 1))
       else
       seqM (read_headers f)
       (bindM (getM connect_addr) (\<lambda>l.
       bindM (name2addrlist l (takeWhile (\<lambda>x. x \<noteq> CHR '' '') (drop 8 request))) (\<lambda>(l', n).
       seqM (modM (\<lambda>c. c\<lparr>connect_addr := l'\<rparr>))
       (if n = 0 then seqM (http_reply ''HTTP/1.0 404 Not Found'') (stopM (Longjmp 1))
        else seqM (http_reply ''HTTP/1.0 200 OK'') (retM None))))))))"

section \<open>NTLM authentication\<close>

text \<open>The number after \<open>Content-Length:\<close>, which may be followed by white space only.\<close>

definition content_length :: "string \<Rightarrow> int option" where
  "content_length t =
    (let (n, rest) = strtol t;
         tmpstr = (if length rest < length t then dropWhile is_space rest else rest)
     in if rest = t \<or> tmpstr \<noteq> [] \<or> n < 0 then None else Some n)"

text \<open>The challenge and the length of the content, the last of each in the headers.\<close>

definition ntlm_header :: "int \<Rightarrow> string option \<times> int \<Rightarrow> ((string option \<times> int) + (string option \<times> int)) cm" where
  "ntlm_header r = (\<lambda>(ntlm2_txt, len).
     bindM (fd_getline r) (\<lambda>line.
     bindM (if is_prefix line ''Proxy-Authenticate: NTLM '' then retM (Some (drop 25 line), len)
            else if is_prefix line ''Content-Length: '' then
              (case content_length (drop 16 line) of None \<Rightarrow> stopM (Longjmp 1) | Some n \<Rightarrow> retM (ntlm2_txt, n))
            else retM (ntlm2_txt, len)) (\<lambda>s.
     retM (if line \<noteq> [] then Inr s else Inl s))))"

definition BUFSIZ :: nat where "BUFSIZ = 8192"

definition skip_content :: "int \<Rightarrow> int \<Rightarrow> unit cm" where
  "skip_content r = loopM (\<lambda>content_length.
     if content_length > 0 then
       let n = min (nat content_length) BUFSIZ in
       bindM (s_read r n) (\<lambda>_. retM (Inr (content_length - int n)))
     else retM (Inl ()))"

definition connect_lines :: "int \<Rightarrow> string \<Rightarrow> unit cm" where
  "connect_lines r host =
    seqM (fd_putline r (''CONNECT '' @ host @ '' HTTP/1.1'')) (fd_putline r (''Host: '' @ host))"

definition is_http :: "string \<Rightarrow> string \<Rightarrow> bool" where
  "is_http line status \<longleftrightarrow> is_prefix line (''HTTP/1.0 '' @ status) \<or> is_prefix line (''HTTP/1.1 '' @ status)"

definition ntlm :: "string \<Rightarrow> string option \<Rightarrow> string \<Rightarrow> string \<Rightarrow> unit cm" where
  "ntlm host domain user password =
    bindM (getM remote) (\<lambda>r.
    seqM (fd_putline r ''Proxy-Connection: keep-alive'')
    (bindM ntlm1 (\<lambda>ntlm1_txt. case ntlm1_txt of None \<Rightarrow> stopM (Longjmp 1) | Some t1 \<Rightarrow>
    seqM (fd_putline r (''Proxy-Authorization: NTLM '' @ t1))
    (seqM (fd_putline r [])
    (bindM (fd_getline r) (\<lambda>line.
      if \<not> is_http line ''407'' then seqM (read_headers r) (stopM (Longjmp 1)) else
    bindM (loopM (ntlm_header r) (None, 0)) (\<lambda>(ntlm2_txt, content_length).
    case ntlm2_txt of None \<Rightarrow> stopM (Longjmp 1) | Some t2 \<Rightarrow>
    seqM (skip_content r content_length)
    (seqM (connect_lines r host)
    (bindM (ntlm3 domain user password t2) (\<lambda>ntlm3_txt. case ntlm3_txt of None \<Rightarrow> stopM (Longjmp 1) | Some t3 \<Rightarrow>
      fd_putline r (''Proxy-Authorization: NTLM '' @ t3)))))))))))"

section \<open>Client\<close>

definition basic_auth :: "string \<Rightarrow> string \<Rightarrow> unit cm" where
  "basic_auth user password =
    bindM (getM remote) (\<lambda>r.
    bindM (base64_1 (raw (user @ '':'' @ password))) (\<lambda>encoded. case encoded of None \<Rightarrow> stopM (Longjmp 1) | Some e \<Rightarrow>
      fd_putline r (''Proxy-Authorization: basic '' @ e)))"

definition uses_ntlm :: "service \<Rightarrow> bool" where
  "uses_ntlm z \<longleftrightarrow> strcaseeq (o_protocol_authentication z) ''ntlm''"

definition proxy_auth :: "service \<Rightarrow> string \<Rightarrow> unit cm" where
  "proxy_auth z host = (case (o_protocol_username z, o_protocol_password z) of
      (Some user, Some pass) \<Rightarrow>
        if uses_ntlm z then ntlm host (o_protocol_domain z) user pass else basic_auth user pass
    | _ \<Rightarrow> retM ())"

definition connect_request :: "service \<Rightarrow> unit cm" where
  "connect_request z = (case o_protocol_host z of None \<Rightarrow> stopM (Longjmp 1) | Some host \<Rightarrow>
    bindM (getM remote) (\<lambda>r.
    seqM (connect_lines r host)
    (seqM (proxy_auth z host)
    (seqM (fd_putline r [])
    (bindM (fd_getline r) (\<lambda>line.
      seqM (read_headers r)
      (if \<not> is_http line ''2'' then stopM (Longjmp 1) else retM ())))))))"

definition connect_client :: "phase \<Rightarrow> string option cm" where
  "connect_client ph =
    (if ph \<noteq> PROTOCOL_MIDDLE then retM None
     else bindM (getM opt) (\<lambda>z. seqM (connect_request z) (retM None)))"

section \<open>Headers\<close>

text \<open>The bytes of a header section: lines, then the empty one.\<close>

definition header_section :: "byte list \<Rightarrow> bool" where
  "header_section w \<longleftrightarrow> (\<exists>lines. wire_lines (lines @ [[]]) w \<and> [] \<notin> set lines)"

lemma wp_read_headers:
  assumes "os_ok (os (env c))" "flow c m c1"
    and Q: "\<And>w u c2. header_section w \<Longrightarrow> flow c (adding m (In f) w) c2 \<Longrightarrow> io_le c1 c2 \<Longrightarrow> Q u c2"
    and E: "\<And>k c2. k \<in> aborts \<Longrightarrow> E k c2"
  shows "wp (read_headers f) Q E c1"
  unfolding read_headers_def
proof (rule wp_loopM [where I = "\<lambda>_ c2. io_le c1 c2 \<and> (\<exists>lines w. [] \<notin> set lines \<and> wire_lines lines w \<and>
    flow c (adding m (In f) w) c2)"], goal_cases)
  case 1
  then show ?case using assms(2) by (auto simp: io.refl intro!: exI [of _ "[]"])
next
  case (2 a c2)
  then obtain lines w where l: "[] \<notin> set lines" "wire_lines lines w" "flow c (adding m (In f) w) c2" "io_le c1 c2"
    by blast
  show ?case
    unfolding wp_bindM wp_retM
  proof (rule wp_getline [OF assms(1) l(3)])
    fix s v c3
    assume s: "wire_line s v" "flow c (adding (adding m (In f) w) (In f) v) c3" "io_le c2 c3"
    have io: "io_le c1 c3" using l(4) s(3) by (rule io.trans)
    have w: "wire_lines (lines @ [s]) (w @ v)" using l(2) s(1) by (rule wire_lines_append)
    have h: "header_section (w @ v)" if "s = []" using w l(1) that by (auto simp: header_section_def)
    show "case if s \<noteq> [] then Inr () else Inl () of Inl b \<Rightarrow> Q b c3
        | Inr a \<Rightarrow> io_le c1 c3 \<and> (\<exists>lines w. [] \<notin> set lines \<and> wire_lines lines w \<and> flow c (adding m (In f) w) c3)"
      using w s(2) io h l(1)
      by (auto intro!: Q exI [of _ "lines @ [s]"] exI [of _ "w @ v"])
  qed (rule E)
qed (use E in auto)

lemma flow_headers:
  assumes "flow c m c1" "os_ok (os (env c))" "\<And>k c2. k \<in> aborts \<Longrightarrow> E k c2"
  shows "(\<And>w u c2. moved_on c (adding m (In f) w) c2 \<Longrightarrow> header_section w \<Longrightarrow> Q u c2) \<Longrightarrow> wp (read_headers f) Q E c1"
  by (rule wp_read_headers [OF assms(2,1)]) (auto intro: flow_moved_on assms(3))

section \<open>The server's tunnel\<close>

definition reply_lines_of :: "string \<Rightarrow> byte list" where
  "reply_lines_of status = as_line status @ as_line ''Server: stunnel/5.40'' @ as_line []"

lemma flow_http_reply:
  assumes "flow c m c1" "os_ok (os (env c))" "\<And>k c2. k \<in> aborts \<Longrightarrow> E k c2"
  shows "(\<And>u c2. moved_on c (adding m (Out (local_wr c)) (reply_lines_of status)) c2 \<Longrightarrow>
    connect_addr c2 = connect_addr c1 \<Longrightarrow> Q u c2) \<Longrightarrow> wp (http_reply status) Q E c1"
proof -
  assume Q: "\<And>u c2. moved_on c (adding m (Out (local_wr c)) (reply_lines_of status)) c2 \<Longrightarrow>
    connect_addr c2 = connect_addr c1 \<Longrightarrow> Q u c2"
  have "wp (http_reply status) (\<lambda>_. moved_on c (adding m (Out (local_wr c)) (reply_lines_of status)))
      (\<lambda>k _. k \<in> aborts) c1"
    unfolding http_reply_def
    using flow_moved_on [OF assms(1)]
    by (auto simp: wp_eqs reply_lines_of_def simp del: flow_refl elim!: flow_steps [OF _ assms(2)] intro!: flow_moved_on)
  then show ?thesis
    by (rule wp_frame_io [rotated]) (auto intro!: Q flow_moved_on assms(3) io.rules frame_intros simp: http_reply_def io_le_fields)
qed

lemmas flow_http_reply_at =
  flow_http_reply [where ?c1.0 = "c1\<lparr>connect_addr := l\<rparr>" for c1 l, unfolded flow_fields cli.simps]

text \<open>A request line for a tunnel: the method, the name and the protocol.\<close>

definition connect_line :: "string \<Rightarrow> bool" where
  "connect_line s \<longleftrightarrow> is_prefix s ''CONNECT '' \<and>
     (\<exists>proto. strchr (drop 8 s) CHR '' '' = Some proto \<and> is_prefix proto '' HTTP/'')"

lemma flow_name2addrlist:
  assumes "flow c m c1" "os_ok (os (env c))" "\<And>k c2. k \<in> aborts \<Longrightarrow> E k c2"
  shows "(\<And>l' n c2. moved_on c m c2 \<Longrightarrow> (\<exists>new. grown l l' new \<and> n = length new) \<Longrightarrow> Q (l', n) c2) \<Longrightarrow>
    wp (name2addrlist l h) Q E c1"
proof -
  assume Q: "\<And>l' n c2. moved_on c m c2 \<Longrightarrow> (\<exists>new. grown l l' new \<and> n = length new) \<Longrightarrow> Q (l', n) c2"
  have "stops aborts (name2addrlist l h)" by (rule name2addrlist_stops) (simp add: aborts_def)
  moreover have "wp (name2addrlist l h) (\<lambda>_ c2. flow c m c2) (\<lambda>_ _. True) c1"
    by (rule wp_flow_hush [OF name2addrlist_hush assms(1)]) auto
  ultimately have "wp (name2addrlist l h) (\<lambda>_ c2. flow c m c2) (\<lambda>k _. k \<in> aborts \<and> True) c1"
    by (rule wp_stops)
  from wp_returns [OF name2addrlist_grows [unfolded grows_def] this] show ?thesis
    by (rule wp_mono) (auto intro!: Q flow_moved_on assms(3))
qed

lemma grown_num: "grown l l' new \<Longrightarrow> al_num l' = al_num l + length new"
  by (simp add: grown_def al_num_def)

lemma connect_server_tunnels:
  assumes ok: "os_ok (os (env c))"
  shows "wp (connect_server PROTOCOL_EARLY) (\<lambda>r c'. r = None \<and> al_num (connect_addr c') > 0 \<and>
      (\<exists>request v w. wire_line request v \<and> connect_line request \<and> header_section w \<and>
        flow c (adding (adding nothing (In (local_rd c)) (v @ w)) (Out (local_wr c))
          (reply_lines_of ''HTTP/1.0 200 OK'')) c'))
      (\<lambda>k _. k \<in> refuses) c"
  unfolding connect_server_def
  using flow_refl [of c]
  by (auto simp: wp_eqs aborts_refuses_mem connect_line_def grown_num simp del: flow_refl
      elim!: flow_steps [OF _ ok] flow_headers [OF _ ok] flow_name2addrlist [OF _ ok] flow_http_reply [OF _ ok]
        flow_http_reply_at [OF _ ok]
      split: option.split) blast

section \<open>The client's tunnel\<close>

lemma wp_flow_read:
  assumes "os_ok (os (env c))" "flow c m c1"
    and "\<And>bs c2. length bs = n \<Longrightarrow> flow c (adding m (In f) bs) c2 \<Longrightarrow> Q bs c2"
    and "\<And>k c2. k \<in> aborts \<Longrightarrow> E k c2"
  shows "wp (s_read f n) Q E c1"
proof (rule wp_frame_io [OF s_read_io, where ?Q0.0 = "\<lambda>bs c2. length bs = n \<and> extends c1 c2 (In f) bs"])
  have "receives (In f) n (s_read f n) c1"
    using s_read_receives flow_os_ok [OF assms(2,1)] by auto
  from wp_stops [OF _ this [unfolded receives_def]]
  show "wp (s_read f n) (\<lambda>bs c2. length bs = n \<and> extends c1 c2 (In f) bs) (\<lambda>k _. k \<in> aborts) c1"
    by (rule wp_mono) (auto intro: frame_intros)
qed (auto intro: flow_extends [OF assms(2)] assms(3,4))

text \<open>Only the proxy was read and written.\<close>

definition proxy_only :: "cli \<Rightarrow> cli \<Rightarrow> bool" where
  "proxy_only c c' \<longleftrightarrow> (\<exists>m. moved_on c m c' \<and> (\<forall>h. h \<notin> {In (remote c), Out (remote c)} \<longrightarrow> m h = []))"

lemma proxy_onlyI: "flow c m c' \<Longrightarrow> (\<And>h. h \<noteq> In (remote c) \<Longrightarrow> h \<noteq> Out (remote c) \<Longrightarrow> m h = []) \<Longrightarrow> proxy_only c c'"
  using flow_moved_on unfolding proxy_only_def by blast

lemma proxy_onlyE:
  assumes "proxy_only c c'"
  obtains m where "flow c m c'" "\<And>h. h \<noteq> In (remote c) \<Longrightarrow> h \<noteq> Out (remote c) \<Longrightarrow> m h = []" "remote c' = remote c"
  using assms unfolding proxy_only_def by (auto elim!: moved_onE)

lemma proxy_steps:
  assumes "proxy_only c c1" "os_ok (os (env c))" "\<And>k c2. k \<in> refuses \<Longrightarrow> E k c2"
  shows "(\<And>s c2. proxy_only c c2 \<Longrightarrow> Q s c2) \<Longrightarrow> wp (fd_getline (remote c)) Q E c1"
    "(\<And>u c2. proxy_only c c2 \<Longrightarrow> R u c2) \<Longrightarrow> wp (fd_putline (remote c) t) R E c1"
    "(\<And>u c2. proxy_only c c2 \<Longrightarrow> R u c2) \<Longrightarrow> wp (read_headers (remote c)) R E c1"
    "(\<And>bs c2. proxy_only c c2 \<Longrightarrow> S bs c2) \<Longrightarrow> wp (s_read (remote c) n) S E c1"
    "keeps hush p \<Longrightarrow> safe p \<Longrightarrow> (\<And>a c2. proxy_only c c2 \<Longrightarrow> T a c2) \<Longrightarrow> wp p T E c1"
proof -
  obtain m where m: "flow c m c1" "\<And>h. h \<noteq> In (remote c) \<Longrightarrow> h \<noteq> Out (remote c) \<Longrightarrow> m h = []"
    using assms(1) by (rule proxy_onlyE) blast
  note E = assms(3) [OF aborts_refuses_mem]
  have po: "flow c (adding m (In (remote c)) w) c2 \<Longrightarrow> proxy_only c c2"
    "flow c (adding m (Out (remote c)) w) c2 \<Longrightarrow> proxy_only c c2" for w c2
    by (auto elim!: proxy_onlyI simp: adding_apply m(2))
  show "(\<And>s c2. proxy_only c c2 \<Longrightarrow> Q s c2) \<Longrightarrow> wp (fd_getline (remote c)) Q E c1"
    by (rule wp_getline [OF assms(2) m(1)]) (blast intro: E po)+
  show "(\<And>u c2. proxy_only c c2 \<Longrightarrow> R u c2) \<Longrightarrow> wp (fd_putline (remote c) t) R E c1"
    by (rule wp_putline [OF assms(2) m(1)]) (blast intro: E po)+
  show "(\<And>u c2. proxy_only c c2 \<Longrightarrow> R u c2) \<Longrightarrow> wp (read_headers (remote c)) R E c1"
    by (rule wp_read_headers [OF assms(2) m(1)]) (blast intro: E po)+
  show "(\<And>bs c2. proxy_only c c2 \<Longrightarrow> S bs c2) \<Longrightarrow> wp (s_read (remote c) n) S E c1"
    by (rule wp_flow_read [OF assms(2) m(1)]) (blast intro: E po)+
  assume p: "keeps hush p" "safe p" and T: "\<And>a c2. proxy_only c c2 \<Longrightarrow> T a c2"
  have "wp p (\<lambda>_ c2. flow c m c2) (\<lambda>_ _. True) c1"
    by (rule wp_flow_hush [OF p(1) m(1)]) auto
  moreover have "wp p (\<lambda>_ _. True) (\<lambda>k _. k \<in> refuses) c1"
    using p(2) flow_os_ok [OF m(1) assms(2)] unfolding safe_def by (auto elim: wp_mono)
  ultimately have "wp p (\<lambda>_ c2. flow c m c2 \<and> True) (\<lambda>k _. True \<and> k \<in> refuses) c1"
    by (rule wp_conj)
  then show "wp p T E c1"
    by (rule wp_mono) (auto intro!: T assms(3) elim: proxy_onlyI dest: m(2))
qed

lemma ntlm_hush [frame_intros]: "keeps hush ntlm1" "keeps hush (ntlm3 domain user password phase2)"
  unfolding ntlm1_def ntlm3_def ntlm3_message_def ntlm3_fill_def crypt_DES_def store_def base64_1_def base64_with_def
  by (auto intro!: hush.rules frame_intros simp: quiet_def Let_def split: option.split)

lemmas proxy_moves = proxy_steps(1-4)
  proxy_steps(5) [OF _ _ _ ntlm_hush(1) ntlm_safe(1)] proxy_steps(5) [OF _ _ _ ntlm_hush(2) ntlm_safe(2)]
  proxy_steps(5) [OF _ _ _ base64_1_frames(1) base64_safe(2)]

lemma proxy_loops:
  assumes "proxy_only c c1" "os_ok (os (env c))" "\<And>k c2. k \<in> refuses \<Longrightarrow> E k c2"
  shows "(\<And>s c2. proxy_only c c2 \<Longrightarrow> Q s c2) \<Longrightarrow> wp (loopM (ntlm_header (remote c)) x) Q E c1"
    "(\<And>u c2. proxy_only c c2 \<Longrightarrow> R u c2) \<Longrightarrow> wp (skip_content (remote c) n) R E c1"
proof -
  show "(\<And>s c2. proxy_only c c2 \<Longrightarrow> Q s c2) \<Longrightarrow> wp (loopM (ntlm_header (remote c)) x) Q E c1"
    by (rule wp_loopM [where I = "\<lambda>_. proxy_only c"])
      (auto simp: assms(1,3) ntlm_header_def wp_eqs elim!: proxy_moves [OF _ assms(2)]
        split: option.split)
  show "(\<And>u c2. proxy_only c c2 \<Longrightarrow> R u c2) \<Longrightarrow> wp (skip_content (remote c) n) R E c1"
    unfolding skip_content_def
    by (rule wp_loopM [where I = "\<lambda>_. proxy_only c"])
      (auto simp: assms(1) wp_eqs Let_def intro: assms(3) elim!: proxy_moves [OF _ assms(2)])
qed

lemma connect_lines_proxy:
  assumes "proxy_only c c1" "os_ok (os (env c))" "\<And>k c2. k \<in> refuses \<Longrightarrow> E k c2"
    "\<And>u c2. proxy_only c c2 \<Longrightarrow> R u c2"
  shows "wp (connect_lines (remote c) host) R E c1"
  using assms(1) unfolding connect_lines_def
  by (auto simp: wp_eqs intro: assms(3,4) elim!: proxy_moves [OF _ assms(2)])

lemma ntlm_proxy:
  assumes "proxy_only c c1" "os_ok (os (env c))"
  shows "wp (ntlm host (Some d) user password) (\<lambda>_. proxy_only c) (\<lambda>k _. k \<in> refuses) c1"
proof -
  have r: "remote c1 = remote c" using assms(1) by (auto elim: proxy_onlyE)
  show ?thesis
    using assms(1) unfolding ntlm_def
    by (auto simp: wp_eqs r is_http_def elim!: proxy_moves [OF _ assms(2)] proxy_loops [OF _ assms(2)] connect_lines_proxy [OF _ assms(2)]
        intro: frame_intros split: option.split)
qed

lemma proxy_auth_proxy:
  assumes "proxy_only c c1" "os_ok (os (env c))" "o_protocol_domain z \<noteq> None \<or> \<not> uses_ntlm z"
  shows "wp (proxy_auth z host) (\<lambda>_. proxy_only c) (\<lambda>k _. k \<in> refuses) c1"
proof -
  have r: "remote c1 = remote c" using assms(1) by (auto elim: proxy_onlyE)
  have b: "wp (basic_auth u p) (\<lambda>_. proxy_only c) (\<lambda>k _. k \<in> refuses) c1" for u p
    using assms(1) unfolding basic_auth_def
    by (auto simp: wp_eqs r elim!: proxy_moves [OF _ assms(2)] split: option.split)
  show ?thesis
    using assms(1,3) unfolding proxy_auth_def
    by (auto simp: wp_eqs intro: ntlm_proxy [OF assms(1,2)] b split: option.split)
qed

text \<open>The proxy accepted: the last that was read from it is a 2xx answer with its headers, and no
  other stream moved.\<close>

definition proxy_accepted :: "cli \<Rightarrow> cli \<Rightarrow> bool" where
  "proxy_accepted c c' \<longleftrightarrow> (\<exists>m s v w. flow c m c' \<and> wire_line s v \<and> is_http s ''2'' \<and> header_section w \<and>
     suffix (v @ w) (m (In (remote c))) \<and> (\<forall>h. h \<notin> {In (remote c), Out (remote c)} \<longrightarrow> m h = []))"

lemma proxy_acceptedI:
  assumes "flow c (adding m (In (remote c)) (v @ w)) c'" "wire_line s v" "is_http s ''2''" "header_section w"
    and "\<And>h. h \<noteq> In (remote c) \<Longrightarrow> h \<noteq> Out (remote c) \<Longrightarrow> m h = []"
  shows "proxy_accepted c c'"
  unfolding proxy_accepted_def
  using assms by (intro exI [of _ "adding m (In (remote c)) (v @ w)"] exI [of _ s] exI [of _ v] exI [of _ w])
    (auto simp: adding_apply suffix_def)

lemma connect_client_accepted:
  assumes ok: "os_ok (os (env c))" and "o_protocol_domain (opt c) \<noteq> None \<or> \<not> uses_ntlm (opt c)"
  shows "wp (connect_client PROTOCOL_MIDDLE) (\<lambda>r c'. r = None \<and> proxy_accepted c c') (\<lambda>k _. k \<in> refuses) c"
proof -
  have last: "wp (bindM (fd_getline (remote c)) (\<lambda>line. seqM (read_headers (remote c))
      (if \<not> is_http line ''2'' then stopM (Longjmp 1) else retM ()))) (\<lambda>_. proxy_accepted c) (\<lambda>k _. k \<in> refuses) c1"
    if c1: "proxy_only c c1" for c1
  proof -
    obtain m where m: "flow c m c1" "\<And>h. h \<noteq> In (remote c) \<Longrightarrow> h \<noteq> Out (remote c) \<Longrightarrow> m h = []"
      using c1 by (rule proxy_onlyE) blast
    then show ?thesis
      by (auto simp: wp_eqs aborts_refuses_mem simp del: flow_refl
          elim!: flow_steps [OF _ ok] flow_headers [OF _ ok] proxy_acceptedI)
  qed
  have start: "proxy_only c c" using flow_refl [of c] by (auto elim: proxy_onlyI simp: nothing_def simp del: flow_refl)
  show ?thesis
    using start unfolding connect_client_def connect_request_def
    by (auto simp: wp_eqs intro!: wp_mono [OF proxy_auth_proxy [OF _ ok]] wp_mono [OF last]
       elim!: proxy_moves [OF _ ok] connect_lines_proxy [OF _ ok] split: option.split)
      (use assms(2) in auto)
qed

text \<open>Without NTLM the request is exactly these lines.\<close>

definition connect_lines_of :: "string \<Rightarrow> string \<Rightarrow> byte list" where
  "connect_lines_of host auth = as_line (''CONNECT '' @ host @ '' HTTP/1.1'') @ as_line (''Host: '' @ host) @
     (if auth = [] then [] else as_line auth) @ as_line []"

definition basic_header :: "string \<Rightarrow> string \<Rightarrow> string option" where
  "basic_header user password =
    map_option (\<lambda>e. ''Proxy-Authorization: basic '' @ e) (base64_encode (raw (user @ '':'' @ password)))"

lemma connect_client_sends:
  assumes ok: "os_ok (os (env c))" and "o_protocol_host (opt c) = Some host" "o_protocol_username (opt c) = Some user"
    "o_protocol_password (opt c) = Some password" "\<not> uses_ntlm (opt c)"
  shows "wp (connect_client PROTOCOL_MIDDLE) (\<lambda>_ c'. \<exists>m auth. flow c m c' \<and>
      basic_header user password = Some auth \<and> m (Out (remote c)) = connect_lines_of host auth) (\<lambda>k _. k \<in> refuses) c"
  unfolding connect_client_def connect_request_def proxy_auth_def basic_auth_def connect_lines_def
  using flow_refl [of c]
  by (auto simp: wp_eqs assms(2-5) aborts_refuses_mem simp del: flow_refl
      elim!: flow_steps [OF _ ok] flow_tls_steps [OF _ ok] flow_headers [OF _ ok] split: option.splits)
    (auto simp: connect_lines_of_def basic_header_def)

section \<open>Frames\<close>

lemma http_civil [frame_intros]: "civil (read_headers f)" "civil (http_reply s)" "civil (connect_lines f h)"
  "civil (skip_content f n)" "civil (loopM (ntlm_header f) x)"
proof -
  show "civil (read_headers f)" "civil (skip_content f n)" "civil (loopM (ntlm_header f) x)"
    unfolding read_headers_def skip_content_def ntlm_header_def
    by (auto intro!: civil_loopM civil_rules frame_intros mv.rules rounds_ticks [OF ticks_bind1 [OF ticks_read(1)]]
        simp: Let_def BUFSIZ_def split: option.split)
qed (auto intro!: civil_rules frame_intros simp: http_reply_def connect_lines_def)

lemma http_safe [frame_intros]: "safe (read_headers f)" "safe (http_reply s)" "safe (connect_lines f h)"
  "safe (skip_content f n)" "safe (loopM (ntlm_header f) x)"
  unfolding read_headers_def http_reply_def connect_lines_def skip_content_def ntlm_header_def
  by (auto intro!: safe_rules frame_intros simp: Let_def split: option.split)

lemma connect_civil [frame_intros]: "civil (connect_server ph)" "civil (connect_client ph)"
  unfolding connect_server_def connect_client_def connect_request_def proxy_auth_def ntlm_def basic_auth_def
  by (auto intro!: civil_rules frame_intros split: option.split)

lemma connect_safe [frame_intros]: "safe (connect_server ph)"
  "o_protocol_domain z \<noteq> None \<or> \<not> uses_ntlm z \<Longrightarrow> safe (connect_request z)"
  unfolding connect_server_def connect_request_def proxy_auth_def ntlm_def basic_auth_def
  by (auto intro!: safe_rules frame_intros split: option.split)

end
