(* ===== verification/Protocol.thy ===== *)
theory Protocol
  imports Http
begin

text \<open>
  The dispatcher of protocol.c: the negotiation of the configured protocol, in each of its four phases.
  The theorems: the check of the configuration only decides, each protocol talks in its own phases
  only, and a negotiation returns, gives up or waits.
\<close>

datatype proto = P_socks | P_proxy | P_cifs | P_pgsql | P_smtp | P_pop3 | P_imap | P_nntp | P_connect

definition find_protocol :: "string \<Rightarrow> proto option" where
  "find_protocol p =
    (if strcaseeq p ''socks'' then Some P_socks
     else if strcaseeq p ''proxy'' then Some P_proxy
     else if strcaseeq p ''cifs'' then Some P_cifs
     else if strcaseeq p ''pgsql'' then Some P_pgsql
     else if strcaseeq p ''smtp'' then Some P_smtp
     else if strcaseeq p ''pop3'' then Some P_pop3
     else if strcaseeq p ''imap'' then Some P_imap
     else if strcaseeq p ''nntp'' then Some P_nntp
     else if strcaseeq p ''connect'' then Some P_connect
     else None)"

fun negotiate :: "bool \<Rightarrow> proto \<Rightarrow> phase \<Rightarrow> string option cm" where
  "negotiate client P_socks ph = (if client then socks_client ph else socks_server ph)"
| "negotiate client P_proxy ph =
    (if client then retM (Some ''The 'proxy' protocol is not supported in the client mode'')
     else proxy_server ph)"
| "negotiate client P_cifs ph = (if client then cifs_client ph else cifs_server ph)"
| "negotiate client P_pgsql ph = (if client then pgsql_client ph else pgsql_server ph)"
| "negotiate client P_smtp ph = (if client then smtp_client ph else smtp_server ph)"
| "negotiate client P_pop3 ph = (if client then pop3_client ph else pop3_server ph)"
| "negotiate client P_imap ph = (if client then imap_client ph else imap_server ph)"
| "negotiate client P_nntp ph =
    (if client then nntp_client ph
     else retM (Some ''The 'nntp' protocol is not supported in the server mode''))"
| "negotiate client P_connect ph = (if client then connect_client ph else connect_server ph)"

definition protocol :: "phase \<Rightarrow> string option cm" where
  "protocol ph =
    seqM (whenM (ph = PROTOCOL_CHECK)
      (modM (\<lambda>c. c\<lparr>opt := (opt c)\<lparr>o_connect_before_ssl := o_client (opt c)\<rparr>\<rparr>)))
    (bindM (getM opt) (\<lambda>z. case o_protocol z of
        None \<Rightarrow> retM None
      | Some name \<Rightarrow> (case find_protocol name of
            None \<Rightarrow> retM (Some ''Protocol not supported'')
          | Some p \<Rightarrow> negotiate (o_client z) p ph)))"

section \<open>Frames\<close>

lemma negotiate_civil: "civil (negotiate client p ph)"
  by (cases p) (auto intro!: frame_intros)

lemma protocol_civil [frame_intros]: "civil (protocol ph)"
  unfolding protocol_def whenM_def
  by (auto intro!: civil_rules negotiate_civil split: option.split)

text \<open>NTLM needs a domain: without one \<open>ntlm3\<close> follows a NULL pointer.\<close>

definition domain_given :: "service \<Rightarrow> bool" where
  "domain_given z \<longleftrightarrow> o_protocol_domain z \<noteq> None \<or> \<not> uses_ntlm z"

lemma safeD: "safe m \<Longrightarrow> os_ok (os (env c)) \<Longrightarrow> wp m (\<lambda>_ c'. os (env c') = os (env c)) (\<lambda>k _. k \<in> refuses) c"
  by (simp add: safe_def)

lemma connect_client_safe:
  assumes "os_ok (os (env c))" "domain_given (opt c)"
  shows "wp (connect_client ph) (\<lambda>_ c'. os (env c') = os (env c)) (\<lambda>k _. k \<in> refuses) c"
proof -
  have "safe (connect_request (opt c))"
    using assms(2) by (intro connect_safe) (simp add: domain_given_def)
  from safeD [OF this assms(1)] show ?thesis
    using assms(1) by (auto simp: connect_client_def wp_bindM wp_seqM wp_getM wp_retM elim!: wp_mono)
qed

lemma negotiate_safe:
  assumes "os_ok (os (env c))" "domain_given (opt c)"
  shows "wp (negotiate client p ph) (\<lambda>_ c'. os (env c') = os (env c)) (\<lambda>k _. k \<in> refuses) c"
  using assms by (cases p) (auto intro!: safeD frame_intros connect_client_safe)

lemma protocol_safe:
  assumes "os_ok (os (env c))" "domain_given (opt c)"
  shows "wp (protocol ph) (\<lambda>_ c'. os (env c') = os (env c)) (\<lambda>k _. k \<in> refuses) c"
proof -
  have d: "domain_given ((opt c)\<lparr>o_connect_before_ssl := b\<rparr>)" for b
    using assms(2) by (simp add: domain_given_def uses_ntlm_def)
  have "wp (negotiate z p ph) (\<lambda>_ c'. os (env c') = os (env c)) (\<lambda>k _. k \<in> refuses)
      (c\<lparr>opt := (opt c)\<lparr>o_connect_before_ssl := b\<rparr>\<rparr>)" for z p b
    using negotiate_safe [of "c\<lparr>opt := (opt c)\<lparr>o_connect_before_ssl := b\<rparr>\<rparr>" z p ph] assms(1) d by simp
  with negotiate_safe [OF assms] assms(1) show ?thesis
    by (auto simp: protocol_def wp_eqs split: option.split)
qed

section \<open>Phases\<close>

text \<open>What the check of the configuration decides: the protocols it knows, and those whose server is
  connected before TLS.\<close>

fun known :: "bool \<Rightarrow> proto \<Rightarrow> bool" where
  "known client P_proxy \<longleftrightarrow> \<not> client"
| "known client P_nntp \<longleftrightarrow> client"
| "known client _ \<longleftrightarrow> True"

definition plain_first :: "proto \<Rightarrow> bool" where
  "plain_first p \<longleftrightarrow> p \<in> {P_smtp, P_pop3, P_imap}"

text \<open>The phases in which a protocol talks.\<close>

fun active :: "bool \<Rightarrow> proto \<Rightarrow> phase list" where
  "active client P_socks = (if client then [PROTOCOL_LATE] else [PROTOCOL_MIDDLE])"
| "active client P_proxy = [PROTOCOL_LATE]"
| "active client P_cifs = (if client then [PROTOCOL_MIDDLE] else [PROTOCOL_EARLY])"
| "active client P_pgsql = (if client then [PROTOCOL_MIDDLE] else [PROTOCOL_EARLY])"
| "active client P_connect = (if client then [PROTOCOL_MIDDLE] else [PROTOCOL_EARLY])"
| "active client P_smtp = (if client then [PROTOCOL_MIDDLE, PROTOCOL_LATE] else [PROTOCOL_MIDDLE])"
| "active client _ = [PROTOCOL_MIDDLE]"

definition service_protocol :: "service \<Rightarrow> proto option" where
  "service_protocol z = Option.bind (o_protocol z) find_protocol"

definition checked :: "service \<Rightarrow> service" where
  "checked z = z\<lparr>
     o_connect_before_ssl := o_client z \<or> (\<exists>p. service_protocol z = Some p \<and> plain_first p),
     o_protocol_endpoint := o_protocol_endpoint z \<or> (\<not> o_client z \<and> service_protocol z = Some P_socks)\<rparr>"

lemmas protocols = socks_client_def socks_server_def proxy_server_def cifs_client_def cifs_server_def
  pgsql_client_def pgsql_server_def smtp_client_def smtp_server_def pop3_client_def pop3_server_def
  imap_client_def imap_server_def nntp_client_def connect_client_def connect_server_def want_connect_def

lemma negotiate_check:
  "\<exists>r. negotiate client p PROTOCOL_CHECK c = Ok r (c\<lparr>opt := (opt c)\<lparr>
       o_connect_before_ssl := o_connect_before_ssl (opt c) \<or> \<not> client \<and> plain_first p,
       o_protocol_endpoint := o_protocol_endpoint (opt c) \<or> (\<not> client \<and> p = P_socks)\<rparr>\<rparr>) \<and>
     (r = None \<longleftrightarrow> known client p)"
  by (cases p; cases client) (simp_all add: protocols mdefs plain_first_def)

lemma protocol_check:
  "\<exists>r. protocol PROTOCOL_CHECK c = Ok r (c\<lparr>opt := checked (opt c)\<rparr>) \<and>
     (r = None \<longleftrightarrow> o_protocol (opt c) = None \<or>
       (\<exists>p. service_protocol (opt c) = Some p \<and> known (o_client (opt c)) p))"
proof (cases "service_protocol (opt c)")
  case None
  then show ?thesis
    by (auto simp: protocol_def mdefs checked_def service_protocol_def split: option.split option.split_asm)
next
  case (Some p)
  then obtain name where name: "o_protocol (opt c) = Some name" "find_protocol name = Some p"
    by (auto simp: service_protocol_def bind_eq_Some_conv)
  let ?c = "c\<lparr>opt := (opt c)\<lparr>o_connect_before_ssl := o_client (opt c)\<rparr>\<rparr>"
  obtain r where r: "negotiate (o_client (opt c)) p PROTOCOL_CHECK ?c = Ok r (?c\<lparr>opt := (opt ?c)\<lparr>
       o_connect_before_ssl := o_connect_before_ssl (opt ?c) \<or> \<not> o_client (opt c) \<and> plain_first p,
       o_protocol_endpoint := o_protocol_endpoint (opt ?c) \<or> (\<not> o_client (opt c) \<and> p = P_socks)\<rparr>\<rparr>)"
    "r = None \<longleftrightarrow> known (o_client (opt c)) p"
    using negotiate_check [of "o_client (opt c)" p ?c] by blast
  have "protocol PROTOCOL_CHECK c = negotiate (o_client (opt c)) p PROTOCOL_CHECK ?c"
    by (simp add: protocol_def mdefs name)
  moreover have "?c\<lparr>opt := (opt ?c)\<lparr>
       o_connect_before_ssl := o_connect_before_ssl (opt ?c) \<or> \<not> o_client (opt c) \<and> plain_first p,
       o_protocol_endpoint := o_protocol_endpoint (opt ?c) \<or> (\<not> o_client (opt c) \<and> p = P_socks)\<rparr>\<rparr> =
      c\<lparr>opt := checked (opt c)\<rparr>"
    using Some by (cases "o_client (opt c)") (auto simp: checked_def)
  ultimately show ?thesis
    using r name(1) Some by auto
qed

text \<open>Outside its phases a protocol does nothing at all.\<close>

lemma negotiate_quiet:
  "known client p \<Longrightarrow> ph \<noteq> PROTOCOL_CHECK \<Longrightarrow> ph \<notin> set (active client p) \<Longrightarrow> negotiate client p ph c = Ok None c"
  by (cases p; cases client; cases ph) (simp_all add: protocols mdefs)

lemma protocol_quiet:
  assumes "service_protocol (opt c) = Some p" "known (o_client (opt c)) p"
    and "ph \<noteq> PROTOCOL_CHECK" "ph \<notin> set (active (o_client (opt c)) p)"
  shows "protocol ph c = Ok None c"
  using negotiate_quiet [OF assms(2-4)] assms(1,3)
  by (auto simp: protocol_def mdefs service_protocol_def bind_eq_Some_conv)

end
