(* ===== verification/Client.thy ===== *)
theory Client
  imports Protocol Transfer_Loop
begin

unbundle bit_operations_syntax

text \<open>
  The life of one connection (client.c): accepting it, the TLS handshake with the session caches,
  the connection to the server with its failover, and the cleanup that every way out goes through.
  The theorems: no way out leaks a descriptor or forgets to count the client out, all addresses are
  tried, and a peer that fails verification gets to the redirection target only.

  The bundled OpenSSL is 1.0.2, outside the versions \<open>unsafe_openssl\<close> is about. The child's
  environment (\<open>env_alloc\<close>) and the log are left out; \<open>libwrap_auth\<close> is one request.
\<close>

section \<open>Connecting\<close>

definition REDIRECT_ON :: nat where "REDIRECT_ON = 1"
definition REDIRECT_OFF :: nat where "REDIRECT_OFF = 2"

text \<open>\<open>c->connect_addr.parent\<close>, the list whose session and round-robin slots are used.\<close>

definition parent_list :: "cli \<Rightarrow> addrlist" where
  "parent_list c = (case al_parent (connect_addr c) of
      Own \<Rightarrow> connect_addr c
    | Opt_connect \<Rightarrow> o_connect_addr (opt c)
    | Opt_redirect \<Rightarrow> o_redirect_addr (opt c))"

definition set_parent :: "(addrlist \<Rightarrow> addrlist) \<Rightarrow> unit cm" where
  "set_parent g = modM (\<lambda>c. case al_parent (connect_addr c) of
      Own \<Rightarrow> c\<lparr>connect_addr := g (connect_addr c)\<rparr>
    | Opt_connect \<Rightarrow> c\<lparr>opt := (opt c)\<lparr>o_connect_addr := g (o_connect_addr (opt c))\<rparr>\<rparr>
    | Opt_redirect \<Rightarrow> c\<lparr>opt := (opt c)\<lparr>o_redirect_addr := g (o_redirect_addr (opt c))\<rparr>\<rparr>)"

definition set_tmp :: "int \<Rightarrow> unit cm" where
  "set_tmp f = modM (\<lambda>c. c\<lparr>tmp_fd := f\<rparr>)"

text \<open>\<open>c->fd\<close> is closed when it is open, and forgotten.\<close>

definition close_tmp :: "unit cm" where
  "close_tmp = bindM (getM tmp_fd) (\<lambda>f.
     seqM (whenM (f \<noteq> INVALID_SOCKET) (closesocket f)) (set_tmp INVALID_SOCKET))"

text \<open>The process that an \<open>exec\<close> service runs; the child's side of \<open>fork\<close> is not followed.\<close>

definition connect_local :: "int cm" where
  "connect_local =
    bindM (getM (\<lambda>c. o_pty (opt c))) (\<lambda>pty.
    bindM (if pty
           then bindM (sys Pty_allocate) (\<lambda>a.
             if a_ret a \<noteq> 0 then stopM (Longjmp 1) else retM (a_fds a ! 0, a_fds a ! 1))
           else bindM make_sockets (\<lambda>p. case p of None \<Rightarrow> stopM (Longjmp 1) | Some q \<Rightarrow> retM q)) (\<lambda>(f0, f1).
    bindM (sys (Set_nonblock f1 False)) (\<lambda>_.
    bindM (sys (Fork_exec f1)) (\<lambda>pid.
      if a_ret pid = -1 then seqM (closesocket f0) (seqM (closesocket f1) (stopM (Longjmp 1)))
      else seqM (closesocket f1) (retM f0)))))"

text \<open>The targets: a redirected connection's, else those set by the protocol, else the original
  destination, else the service's.\<close>

definition connect_setup :: "unit cm" where
  "connect_setup =
    bindM (getM redirect) (\<lambda>rd. bindM (getM opt) (\<lambda>z. bindM (getM connect_addr) (\<lambda>l.
    if rd = REDIRECT_ON then
      bindM (addrlist_dup Opt_redirect (o_redirect_addr z)) (\<lambda>(dst, _). modM (\<lambda>c. c\<lparr>connect_addr := dst\<rparr>))
    else if al_num l \<noteq> 0 then retM ()
    else if o_transparent_dst z then
      seqM (modM (\<lambda>c. c\<lparr>connect_addr := l\<lparr>al_addr := [AF_OTHER 0]\<rparr>\<rparr>))
        (bindM (getM (\<lambda>c. fd (local_rfd c))) (\<lambda>f.
         bindM (original_dst f) (\<lambda>r. case r of
             None \<Rightarrow> stopM (Longjmp 1)
           | Some a \<Rightarrow> modM (\<lambda>c. c\<lparr>connect_addr := l\<lparr>al_addr := [a]\<rparr>\<rparr>))))
    else bindM (addrlist_dup Opt_connect (o_connect_addr z)) (\<lambda>(dst, _). modM (\<lambda>c. c\<lparr>connect_addr := dst\<rparr>)))))"

fun set_port :: "sockaddr \<Rightarrow> byte list \<Rightarrow> sockaddr" where
  "set_port (AF_INET a p) q = AF_INET a q"
| "set_port (AF_INET6 a p) q = AF_INET6 a q"
| "set_port a q = a"

text \<open>The binding of the connecting socket: a port from 1024 on is tried first, then an ephemeral
  one.\<close>

definition bind_local :: "int \<Rightarrow> sockaddr \<Rightarrow> bool cm" where
  "bind_local f addr =
    (let ephemeral = bindM (sys (Bind f (set_port addr [0, 0]))) (\<lambda>b. retM (a_ret b = 0))
     in if be_nat (sin_port addr) \<ge> 1024
        then bindM (sys (Bind f addr)) (\<lambda>b.
          if a_ret b = 0 then retM True
          else if a_errno b \<noteq> EADDRINUSE then retM False
          else ephemeral)
        else ephemeral)"

definition socket_bound :: "sockaddr option \<Rightarrow> int \<Rightarrow> bool cm" where
  "socket_bound ba f = (case ba of None \<Rightarrow> retM True | Some a \<Rightarrow>
     bindM (getM (\<lambda>c. o_transparent_src (opt c))) (\<lambda>tsrc.
     seqM (whenM tsrc (bindM (sys (Setsockopt f ''IP_TRANSPARENT'')) (\<lambda>t.
             if a_ret t \<noteq> 0 then bindM (sys (Setsockopt f ''IP_FREEBIND'')) (\<lambda>_. retM ()) else retM ())))
       (bind_local f a)))"

definition connect_init :: "nat \<Rightarrow> bool cm" where
  "connect_init domain =
    bindM (getM bind_addr) (\<lambda>ba.
    if (case ba of None \<Rightarrow> False | Some a \<Rightarrow> sa_family a \<noteq> domain) then retM False
    else bindM (s_socket domain) (\<lambda>f. seqM (set_tmp f)
      (if f = INVALID_SOCKET then retM False else socket_bound ba f)))"

definition print_bound_address :: "unit cm" where
  "print_bound_address =
    bindM (getM (\<lambda>c. o_log_level (opt c))) (\<lambda>level. if level < 5 then retM ()
    else bindM (getM tmp_fd) (\<lambda>f. bindM (sys (Getsockname f)) (\<lambda>a.
      if a_ret a \<noteq> 0 then retM () else bindM (s_ntop (a_addr a) (nat (a_val a))) (\<lambda>_. retM ()))))"

text \<open>The address a TLS session was last connected to, kept with the session.\<close>

definition idx_cache_save :: "sockaddr \<Rightarrow> unit cm" where
  "idx_cache_save addr =
    bindM (sys Ssl_get_session) (\<lambda>s.
    bindM (s_ntop addr (addr_len addr)) (\<lambda>_.
    seqM (lock ''ADDR'')
    (seqM (modM (\<lambda>c. c\<lparr>sess_addr := (sess_addr c)(nat (a_val s) := Some addr)\<rparr>))
      (unlock ''ADDR''))))"

fun index_of :: "sockaddr \<Rightarrow> sockaddr list \<Rightarrow> nat option" where
  "index_of a [] = None"
| "index_of a (x # xs) = (if x = a then Some 0 else map_option Suc (index_of a xs))"

definition failover_start :: "nat cm" where
  "failover_start =
    bindM (getM (\<lambda>c. o_failover (opt c))) (\<lambda>fo. case fo of
        FAILOVER_PRIO \<Rightarrow> retM 0
      | FAILOVER_RR \<Rightarrow>
          bindM (getM (\<lambda>c. al_rr (parent_list c))) (\<lambda>i.
          bindM (getM (\<lambda>c. al_num (connect_addr c))) (\<lambda>num.
            seqM (set_parent (\<lambda>l. l\<lparr>al_rr := (i + 1) mod num\<rparr>)) (retM i))))"

definition cached_address :: "sockaddr option cm" where
  "cached_address =
    bindM (getM ssl) (\<lambda>tls. if \<not> tls then retM None
    else bindM (sys Ssl_session_reused) (\<lambda>r. if a_ret r = 0 then retM None
    else seqM (lock ''ADDR'')
      (bindM (sys Ssl_get_session) (\<lambda>s.
       bindM (getM (\<lambda>c. sess_addr c (nat (a_val s)))) (\<lambda>a.
       seqM (unlock ''ADDR'') (retM a))))))"

definition idx_cache_retrieve :: "nat cm" where
  "idx_cache_retrieve =
    bindM cached_address (\<lambda>ca. case ca of
        None \<Rightarrow> failover_start
      | Some a \<Rightarrow> bindM (getM (\<lambda>c. index_of a (al_addr (connect_addr c)))) (\<lambda>i.
          bindM (s_ntop a (addr_len a)) (\<lambda>_.
            case i of Some n \<Rightarrow> retM n | None \<Rightarrow> failover_start)))"

text \<open>One address: \<open>True\<close> when the connection to it is up.\<close>

definition connect_one :: "sockaddr \<Rightarrow> bool cm" where
  "connect_one a =
    bindM (connect_init (sa_family a)) (\<lambda>ok.
      if ok then bindM (s_connect a) (\<lambda>r. retM (r = 0)) else retM False)"

primrec try_addresses :: "nat list \<Rightarrow> int cm" where
  "try_addresses [] = stopM (Longjmp 1)"
| "try_addresses (i # is) =
    seqM (modM (\<lambda>c. c\<lparr>idx := i\<rparr>))
    (bindM (getM (\<lambda>c. al_addr (connect_addr c) ! i)) (\<lambda>a.
     bindM (connect_one a) (\<lambda>up.
       if up then
         bindM (getM ssl) (\<lambda>tls.
         seqM (whenM tls (idx_cache_save a))
         (seqM print_bound_address
         (bindM (getM tmp_fd) (\<lambda>f. seqM (set_tmp INVALID_SOCKET) (retM f)))))
       else seqM close_tmp (try_addresses is))))"

text \<open>\<open>(idx_start + idx_try) % num\<close> for \<open>idx_try\<close> from 0 to \<open>num - 1\<close>.\<close>

definition rotation :: "nat \<Rightarrow> nat \<Rightarrow> nat list" where
  "rotation start num = map (\<lambda>t. (start + t) mod num) [0..<num]"

definition connect_remote :: "int cm" where
  "connect_remote =
    seqM connect_setup
    (bindM (getM (\<lambda>c. al_num (connect_addr c))) (\<lambda>num.
       if num = 0 then stopM (Longjmp 1)
       else bindM (if num = 1 then retM 0 else idx_cache_retrieve) (\<lambda>start.
         try_addresses (rotation start num))))"

definition remote_start :: "unit cm" where
  "remote_start =
    bindM (getM opt) (\<lambda>z.
    seqM (modM (\<lambda>c. c\<lparr>bind_addr := (if o_local z then Some (o_source_addr z)
                               else if o_transparent_src z then Some (peer_addr c) else None)\<rparr>))
    (bindM (if o_exec_name z \<noteq> None \<and> al_names (o_connect_addr z) = [] then connect_local else connect_remote) (\<lambda>f.
     seqM (modM (\<lambda>c. c\<lparr>remote_fd := (remote_fd c)\<lparr>fd := f\<rparr>\<rparr>))
     (if o_pty z then modM (\<lambda>c. c\<lparr>remote_fd := (remote_fd c)\<lparr>is_socket := False\<rparr>\<rparr>)
      else seqM (modM (\<lambda>c. c\<lparr>remote_fd := (remote_fd c)\<lparr>is_socket := True\<rparr>\<rparr>))
        (bindM (set_socket_options f 2) (\<lambda>_. retM ()))))))"

section \<open>Accepting\<close>

text \<open>The user an IDENT answer names.\<close>

definition ident_user :: "string \<Rightarrow> string option" where
  "ident_user line = (case strchr line CHR '':'' of None \<Rightarrow> None | Some t \<Rightarrow>
    (case strchr (tl t) CHR '':'' of None \<Rightarrow> None | Some s \<Rightarrow>
      if takeWhile (\<lambda>x. x \<noteq> CHR '':'') (tl t) \<noteq> '' USERID '' then None
      else (case strchr (tl s) CHR '':'' of None \<Rightarrow> None | Some u \<Rightarrow>
        Some (dropWhile (\<lambda>x. x = CHR '' '') (tl u)))))"

text \<open>\<open>s_port\<close> is in network byte order in the low half of an \<open>int\<close>; IDENT's own port is 113.\<close>

definition service_port :: "ans \<Rightarrow> byte list" where
  "service_port a =
    (if a_ret a \<noteq> 0 then let w = word_of_int (a_val a) :: 16 word in [ucast w, ucast (drop_bit 8 w)]
     else [0, 113])"

definition ident_query :: "cli \<Rightarrow> string" where
  "ident_query c = dec (be_nat (sin_port (peer_addr c))) @ '' , '' @ dec (be_nat (sin_port (o_local_addr (opt c))))"

text \<open>The dialog with the IDENT server over the socket \<open>f\<close>.\<close>

definition ident_check :: "string \<Rightarrow> sockaddr \<Rightarrow> int \<Rightarrow> unit cm" where
  "ident_check name peer f =
    bindM (sys (Getservbyname ''auth'')) (\<lambda>s.
    bindM (s_connect (set_port peer (service_port s))) (\<lambda>r.
    if r \<noteq> 0 then stopM (Longjmp 1)
    else bindM (getM ident_query) (\<lambda>query.
      seqM (fd_putline f query)
      (bindM (fd_getline f) (\<lambda>line.
       seqM (closesocket f) (seqM (set_tmp INVALID_SOCKET)
         (if ident_user line = Some name then retM () else stopM (Longjmp 1))))))))"

definition auth_user :: "unit cm" where
  "auth_user =
    bindM (getM (\<lambda>c. o_username (opt c))) (\<lambda>un. case un of None \<Rightarrow> retM () | Some name \<Rightarrow>
    bindM (getM peer_addr) (\<lambda>peer.
    if sa_family peer = 1 then retM ()
    else bindM (s_socket (sa_family peer)) (\<lambda>f. seqM (set_tmp f)
      (if f = INVALID_SOCKET then stopM (Longjmp 1) else ident_check name peer f))))"

text \<open>Whether a local descriptor is a socket, with the address of its peer; anything but
  \<open>ENOTSOCK\<close> gives up.\<close>

definition local_peer :: "int \<Rightarrow> ans option cm" where
  "local_peer f = bindM (sys (Getpeername f)) (\<lambda>a.
     if a_ret a = 0 then retM (Some a)
     else if a_errno a \<noteq> ENOTSOCK then stopM (Longjmp 1) else retM None)"

definition take_peer :: "ans \<Rightarrow> unit cm" where
  "take_peer a = modM (\<lambda>c. c\<lparr>peer_addr := a_addr a\<rparr>)"

definition local_start :: "unit cm" where
  "local_start =
    bindM (getM (\<lambda>c. fd (local_rfd c))) (\<lambda>rf. bindM (getM (\<lambda>c. fd (local_wfd c))) (\<lambda>wf.
    bindM (local_peer rf) (\<lambda>rp.
    seqM (modM (\<lambda>c. c\<lparr>local_rfd := (local_rfd c)\<lparr>is_socket := rp \<noteq> None\<rparr>\<rparr>))
    (seqM (case rp of None \<Rightarrow> retM () | Some a \<Rightarrow>
             seqM (take_peer a) (bindM (set_socket_options rf 1) (\<lambda>_. retM ())))
    (bindM (if rf = wf then retM rp else local_peer wf) (\<lambda>wp'.
     seqM (modM (\<lambda>c. c\<lparr>local_wfd := (local_wfd c)\<lparr>is_socket := wp' \<noteq> None\<rparr>\<rparr>))
     (seqM (case wp' of None \<Rightarrow> retM () | Some a \<Rightarrow>
              whenM (rf \<noteq> wf) (seqM (whenM (rp = None) (take_peer a))
                (bindM (set_socket_options wf 1) (\<lambda>_. retM ()))))
     (bindM (getM opt) (\<lambda>z.
      case (if rp = None then wp' else rp) of
        None \<Rightarrow> if o_transparent_src z then stopM (Longjmp 1) else retM ()
      | Some p \<Rightarrow>
          bindM (getM peer_addr) (\<lambda>peer.
          bindM (s_ntop peer (nat (a_val p))) (\<lambda>accepted.
          bindM (sys (Libwrap_auth accepted)) (\<lambda>w.
          if a_ret w = 0 then stopM (Longjmp 1) else auth_user))))))))))))"

section \<open>The TLS handshake\<close>

text \<open>\<open>verify_callback\<close> (verify.c) once \<open>verify_checks\<close> has its verdict: whether OpenSSL accepts the
  certificate, and \<open>c->redirect\<close>.\<close>

definition verify_callback :: "service \<Rightarrow> bool \<Rightarrow> nat \<Rightarrow> bool \<times> nat" where
  "verify_callback z good rd =
    (if good then (True, rd)
     else if o_client z \<or> o_protocol z \<noteq> None then (False, rd)
     else if al_names (o_redirect_addr z) \<noteq> [] then (True, REDIRECT_ON)
     else (False, rd))"

text \<open>\<open>info_callback\<close> (ctx.c) when the first handshake is done.\<close>

definition handshake_done :: "unit cm" where
  "handshake_done = modM (\<lambda>c. c\<lparr>reneg_state :=
     (if reneg_state c = RENEG_INIT then RENEG_ESTABLISHED else reneg_state c)\<rparr>)"

definition session_cache_retrieve :: "unit cm" where
  "session_cache_retrieve =
    seqM (lock ''SESSION'')
    (bindM (getM (\<lambda>c. al_session (parent_list c))) (\<lambda>sess. bindM (getM idx) (\<lambda>i.
     bindM (getM (\<lambda>c. o_session (opt c))) (\<lambda>own.
     case sess of
         None \<Rightarrow> stopM Null_deref
       | Some s \<Rightarrow> if i \<ge> length s then stopM Overflow
           else seqM (case s ! i of
               Some x \<Rightarrow> bindM (sys (Ssl_set_session x)) (\<lambda>_. retM ())
             | None \<Rightarrow> (case own of Some y \<Rightarrow> bindM (sys (Ssl_set_session y)) (\<lambda>_. retM ()) | None \<Rightarrow> retM ()))
           (unlock ''SESSION'')))))"

definition free_session :: "nat option \<Rightarrow> unit cm" where
  "free_session s = (case s of None \<Rightarrow> retM () | Some x \<Rightarrow> bindM (sys (Ssl_session_free x)) (\<lambda>_. retM ()))"

definition session_cache_save :: "unit cm" where
  "session_cache_save =
    seqM (lock ''SESSION'')
    (bindM (getM (\<lambda>c. al_session (parent_list c))) (\<lambda>sess. bindM (getM idx) (\<lambda>i.
     case sess of
         None \<Rightarrow> stopM Null_deref
       | Some s \<Rightarrow> if i \<ge> length s then stopM Overflow
           else bindM (sys Ssl_get_session) (\<lambda>n1.
             seqM (set_parent (\<lambda>l. l\<lparr>al_session := Some (s[i := Some (nat (a_val n1))])\<rparr>))
             (bindM (getM (\<lambda>c. o_session (opt c))) (\<lambda>old2.
              bindM (sys Ssl_get_session) (\<lambda>n2.
              seqM (modM (\<lambda>c. c\<lparr>opt := (opt c)\<lparr>o_session := Some (nat (a_val n2))\<rparr>\<rparr>))
              (seqM (unlock ''SESSION'')
                (seqM (free_session (s ! i)) (free_session old2))))))))))"

text \<open>The peer's certificates in PEM, kept for the user interface the first time there are any.\<close>

definition new_chain :: "unit cm" where
  "new_chain =
    bindM (getM opt) (\<lambda>z. if o_chain z \<noteq> None then retM ()
    else bindM (sys Bio_new) (\<lambda>b. if a_ret b = 0 then retM ()
    else bindM (sys Ssl_peer_chain) (\<lambda>sk.
      let chain = (if a_ret sk = 0 then [] else a_data sk) in
      bindM (if a_ret sk = 0 \<or> \<not> o_client z
             then bindM (sys Ssl_peer_cert) (\<lambda>p. retM (if a_ret p = 0 then chain else chain @ a_data p))
             else retM chain) (\<lambda>pem.
        if pem = [] then retM ()
        else modM (\<lambda>c. c\<lparr>opt := (opt c)\<lparr>o_chain := Some pem\<rparr>\<rparr>)))))"

text \<open>One \<open>SSL_connect\<close> or \<open>SSL_accept\<close>; \<open>a_val\<close> of the answer is not 0 when \<open>verify_checks\<close>, called
  back from it, rejected a certificate.\<close>

definition handshake_step :: "(unit + unit) cm" where
  "handshake_step =
    bindM (getM opt) (\<lambda>z.
    bindM (ssl_sys (Ssl_handshake (o_client z))) (\<lambda>a.
    bindM (getM redirect) (\<lambda>rd.
    let (accepted, rd') = verify_callback z (a_val a = 0) rd in
    seqM (modM (\<lambda>c. c\<lparr>redirect := rd'\<rparr>))
    (if \<not> accepted then stopM (Longjmp 1)
     else if a_ssl a = SSL_NONE then retM (Inl ())
     else if a_ssl a = SSL_WANT_READ \<or> a_ssl a = SSL_WANT_WRITE then
       seqM poll_init
       (bindM (getM (\<lambda>c. fd (get_fd c (ssl_rfd c)))) (\<lambda>f.
        seqM (poll_add f (a_ssl a = SSL_WANT_READ) (a_ssl a = SSL_WANT_WRITE))
        (bindM (s_poll_wait (o_timeout_busy z) 0) (\<lambda>r.
           if r = 1 then retM (Inr ()) else stopM (Longjmp 1)))))
     else if a_ssl a = SSL_SYSCALL \<and> (a_errno a = EINTR \<or> a_errno a = EWOULDBLOCK) then retM (Inr ())
     else stopM (Longjmp 1)))))"

definition handshake :: "unit cm" where
  "handshake = seqM (loopM (\<lambda>_. handshake_step) ()) handshake_done"

definition ssl_setup :: "unit cm" where
  "ssl_setup =
    bindM (sys Ssl_new) (\<lambda>n. if a_ret n = 0 then stopM (Longjmp 1) else
    seqM (modM (\<lambda>c. c\<lparr>ssl := True, ssl_sent := False, ssl_rcvd := False\<rparr>))
    (bindM (getM opt) (\<lambda>z.
     if o_client z then
       seqM (whenM (o_sni z \<noteq> []) (bindM (sys (Ssl_set_sni (o_sni z))) (\<lambda>a.
               if a_ret a = 0 then stopM (Longjmp 1) else retM ())))
       (seqM session_cache_retrieve
        (bindM (getM (\<lambda>c. fd (remote_fd c))) (\<lambda>f. bindM (sys (Ssl_set_fd f f)) (\<lambda>_. retM ()))))
     else bindM (getM (\<lambda>c. (fd (local_rfd c), fd (local_wfd c)))) (\<lambda>(r, w).
            bindM (sys (Ssl_set_fd r w)) (\<lambda>_. retM ())))))"

text \<open>After the handshake: a resumed session brings its redirection along, a new one is remembered
  with the redirection decided for it.\<close>

definition session_start :: "unit cm" where
  "session_start =
    bindM (getM opt) (\<lambda>z.
    bindM (sys Ssl_session_reused) (\<lambda>r.
    if a_ret r \<noteq> 0 then
      bindM (sys Ssl_get_session) (\<lambda>s.
      bindM (getM (\<lambda>c. sess_redirect c (nat (a_val s)))) (\<lambda>rd.
      seqM (modM (\<lambda>c. c\<lparr>redirect := rd\<rparr>))
        (if al_names (o_redirect_addr z) \<noteq> [] \<and> rd = 0 then stopM (Longjmp 1) else retM ())))
    else
      seqM new_chain
      (bindM (sys Ssl_peer_cert) (\<lambda>p.
       seqM (whenM (a_ret p = 0 \<and> al_names (o_redirect_addr z) \<noteq> [])
               (modM (\<lambda>c. c\<lparr>redirect := REDIRECT_ON\<rparr>)))
       (bindM (sys Ssl_get_session) (\<lambda>s.
        seqM (modM (\<lambda>c. c\<lparr>sess_redirect := (sess_redirect c)(nat (a_val s) := redirect c)\<rparr>))
          (if o_client z then session_cache_save
           else bindM (sys Ssl_get_session) (\<lambda>s2.
             bindM (sys (Ssl_ctx_add_session (nat (a_val s2)))) (\<lambda>_. retM ())))))))))"

definition ssl_start :: "unit cm" where
  "ssl_start = seqM ssl_setup (seqM handshake session_start)"

section \<open>The connection\<close>

definition negotiation :: "phase \<Rightarrow> unit cm" where
  "negotiation ph = bindM (protocol ph) (\<lambda>_. retM ())"

definition client_try :: "unit cm" where
  "client_try =
    seqM local_start
    (seqM (negotiation PROTOCOL_EARLY)
    (bindM (getM (\<lambda>c. o_connect_before_ssl (opt c))) (\<lambda>first.
     seqM (if first then seqM remote_start (seqM (negotiation PROTOCOL_MIDDLE) ssl_start)
           else seqM ssl_start (seqM (negotiation PROTOCOL_MIDDLE) remote_start))
     (seqM (negotiation PROTOCOL_LATE) transfer))))"

text \<open>\<open>setjmp\<close>: 0 when the computation returned, else the number given to \<open>longjmp\<close>.\<close>

definition setjmp :: "unit cm \<Rightarrow> nat cm" where
  "setjmp m c = (case m c of
      Ok _ c' \<Rightarrow> Ok 0 c'
    | Stop k c' \<Rightarrow> (case k of Longjmp n \<Rightarrow> Ok n c' | _ \<Rightarrow> Stop k c'))"

definition reset :: "int \<Rightarrow> unit cm" where
  "reset f = bindM (sys (Setsockopt f ''SO_LINGER'')) (\<lambda>_. retM ())"

definition count_clients :: "int \<Rightarrow> unit cm" where
  "count_clients d =
    seqM (lock ''CLIENTS'') (seqM (modM (\<lambda>c. c\<lparr>num_clients := num_clients c + d\<rparr>)) (unlock ''CLIENTS''))"

definition clean_start :: "cli \<Rightarrow> cli" where
  "clean_start c = c\<lparr>remote_fd := (remote_fd c)\<lparr>fd := INVALID_SOCKET\<rparr>, tmp_fd := INVALID_SOCKET,
     ssl := False, sock_bytes := 0, ssl_bytes := 0,
     sock_rfd := (if o_client (opt c) then Local_rfd else Remote_fd),
     sock_wfd := (if o_client (opt c) then Local_wfd else Remote_fd),
     ssl_rfd := (if o_client (opt c) then Remote_fd else Local_rfd),
     ssl_wfd := (if o_client (opt c) then Remote_fd else Local_wfd),
     fds := s_poll_alloc, connect_addr := addrlist_clear (connect_addr c) False\<rparr>"

definition free_ssl :: "unit cm" where
  "free_ssl = bindM (getM ssl) (\<lambda>tls. whenM tls
     (seqM (modM (\<lambda>c. c\<lparr>ssl_sent := True, ssl_rcvd := True\<rparr>))
       (bindM (sys Ssl_free) (\<lambda>_. modM (\<lambda>c. c\<lparr>ssl := False\<rparr>)))))"

definition close_remote :: "bool \<Rightarrow> unit cm" where
  "close_remote rst = bindM (getM remote_fd) (\<lambda>d. whenM (fd d \<noteq> INVALID_SOCKET)
     (seqM (whenM (rst \<and> is_socket d) (reset (fd d)))
     (seqM (closesocket (fd d))
       (modM (\<lambda>c. c\<lparr>remote_fd := (remote_fd c)\<lparr>fd := INVALID_SOCKET\<rparr>\<rparr>)))))"

definition close_local :: "bool \<Rightarrow> unit cm" where
  "close_local rst =
    bindM (getM local_rfd) (\<lambda>r. bindM (getM local_wfd) (\<lambda>w. whenM (fd r \<noteq> INVALID_SOCKET)
     (seqM (if fd r = fd w
            then seqM (whenM (rst \<and> is_socket r) (reset (fd r))) (closesocket (fd r))
            else seqM (whenM (rst \<and> is_socket r) (reset (fd r))) (whenM (rst \<and> is_socket w) (reset (fd w))))
       (modM (\<lambda>c. c\<lparr>local_rfd := (local_rfd c)\<lparr>fd := INVALID_SOCKET\<rparr>,
                    local_wfd := (local_wfd c)\<lparr>fd := INVALID_SOCKET\<rparr>\<rparr>)))))"

definition client_run :: "unit cm" where
  "client_run =
    seqM (count_clients 1)
    (seqM (modM clean_start)
    (bindM (setjmp client_try) (\<lambda>err.
     bindM (getM (\<lambda>c. err = 1 \<and> o_reset (opt c))) (\<lambda>rst.
     seqM close_tmp
     (seqM free_ssl
     (seqM (close_remote rst)
     (seqM (close_local rst)
     (seqM (count_clients (-1))
       (modM (\<lambda>c. c\<lparr>connect_addr := (connect_addr c)\<lparr>al_addr := []\<rparr>\<rparr>))))))))))"

section \<open>Sessions of a thread\<close>

text \<open>A fresh \<open>CLI\<close>: \<open>g\<close> carries what is global, the environment, the number of clients, the descriptor
  limit, the socket options and OpenSSL's sessions.\<close>

definition zero_client :: "cli \<Rightarrow> cli" where
  "zero_client g = g\<lparr>ssl := False, ssl_sent := False, ssl_rcvd := False,
     peer_addr := AF_OTHER 0, bind_addr := None, connect_addr := empty_addrlist, idx := 0,
     local_rfd := \<lparr>fd = 0, is_socket = False\<rparr>, local_wfd := \<lparr>fd = 0, is_socket = False\<rparr>,
     remote_fd := \<lparr>fd = 0, is_socket = False\<rparr>, tmp_fd := 0, reneg_state := RENEG_INIT,
     sock_buff := replicate BUFFSIZE 0, ssl_buff := replicate BUFFSIZE 0, sock_ptr := 0, ssl_ptr := 0,
     sock_bytes := 0, ssl_bytes := 0, redirect := 0\<rparr>"

definition alloc_client_session :: "service \<Rightarrow> int \<Rightarrow> int \<Rightarrow> cli \<Rightarrow> cli" where
  "alloc_client_session z rfd wfd g = (zero_client g)\<lparr>opt := z,
     local_rfd := \<lparr>fd = rfd, is_socket = False\<rparr>, local_wfd := \<lparr>fd = wfd, is_socket = False\<rparr>,
     redirect := REDIRECT_OFF\<rparr>"

text \<open>With \<open>exec\<close> and \<open>connect\<close> together the local side is a program, run again for each connection;
  when it cannot be started the loop ends.\<close>

definition exec_round :: "(unit + unit) cm" where
  "exec_round =
    seqM (modM zero_client)
    (bindM (setjmp (bindM connect_local (\<lambda>f.
        modM (\<lambda>c. c\<lparr>local_rfd := (local_rfd c)\<lparr>fd := f\<rparr>, local_wfd := (local_wfd c)\<lparr>fd := f\<rparr>\<rparr>)))) (\<lambda>err.
     if err \<noteq> 0 then retM (Inl ())
     else seqM client_run
       (bindM (getM (\<lambda>c. o_retry (opt c))) (\<lambda>again.
          if \<not> again then retM (Inl ())
          else bindM (sys Sleep) (\<lambda>_. retM (Inr ()))))))"

definition client_main :: "unit cm" where
  "client_main =
    bindM (getM opt) (\<lambda>z.
      if o_exec_name z \<noteq> None \<and> al_names (o_connect_addr z) \<noteq> []
      then loopM (\<lambda>_. exec_round) () else client_run)"

end
