(* ===== verification/Session.thy ===== *)
theory Session
  imports Client
begin

text \<open>
  Every way out of a connection: what each part of \<open>client_try\<close> opens is closed again or handed to
  \<open>c->fd\<close> and \<open>c->remote_fd\<close>, which \<open>client_run\<close> closes whether the connection ended normally or by
  a \<open>longjmp\<close>.
\<close>

section \<open>Calls that leave the descriptors alone\<close>

lemma fd_state_more [simp]:
  "fd_state (c\<lparr>ssl := b\<rparr>) = fd_state c" "fd_state (c\<lparr>ssl_sent := x, ssl_rcvd := y\<rparr>) = fd_state c"
  "fd_state (c\<lparr>ssl_sent := x\<rparr>) = fd_state c" "fd_state (c\<lparr>ssl_rcvd := x\<rparr>) = fd_state c"
  "fd_state (c\<lparr>ssl := b, ssl_sent := x, ssl_rcvd := y\<rparr>) = fd_state c"
  "fd_state (c\<lparr>redirect := n\<rparr>) = fd_state c" "fd_state (c\<lparr>sess_redirect := g\<rparr>) = fd_state c"
  "fd_state (c\<lparr>sess_addr := a\<rparr>) = fd_state c" "fd_state (c\<lparr>idx := n\<rparr>) = fd_state c"
  "fd_state (c\<lparr>bind_addr := b'\<rparr>) = fd_state c" "fd_state (c\<lparr>peer_addr := p\<rparr>) = fd_state c"
  "fd_state (c\<lparr>reneg_state := r\<rparr>) = fd_state c" "fd_state (c\<lparr>sock_ptr := i, ssl_ptr := j\<rparr>) = fd_state c"
  "fd_state (c\<lparr>sock_buff := u\<rparr>) = fd_state c" "fd_state (c\<lparr>ssl_buff := u\<rparr>) = fd_state c"
  "fd_state (c\<lparr>sock_ptr := i\<rparr>) = fd_state c" "fd_state (c\<lparr>ssl_ptr := i\<rparr>) = fd_state c"
  "fd_state (c\<lparr>sock_bytes := w\<rparr>) = fd_state c" "fd_state (c\<lparr>ssl_bytes := w\<rparr>) = fd_state c"
  "fd_state (c\<lparr>local_rfd := (local_rfd c)\<lparr>is_socket := s\<rparr>\<rparr>) = fd_state c"
  "fd_state (c\<lparr>local_wfd := (local_wfd c)\<lparr>is_socket := s\<rparr>\<rparr>) = fd_state c"
  "fd_state (c\<lparr>remote_fd := (remote_fd c)\<lparr>is_socket := s\<rparr>\<rparr>) = fd_state c"
  by (simp_all add: fd_state_def)

lemma civil_case:
  "(o' = None \<Longrightarrow> civil m) \<Longrightarrow> (\<And>x. o' = Some x \<Longrightarrow> civil (f x)) \<Longrightarrow> civil (case o' of None \<Rightarrow> m | Some x \<Rightarrow> f x)"
  by (cases o') auto

lemma civil_pair: "(\<And>x y. civil (f x y)) \<Longrightarrow> civil (case p of (x, y) \<Rightarrow> f x y)"
  by (cases p) auto

lemma civil_whenM: "(b \<Longrightarrow> civil m) \<Longrightarrow> civil (whenM b m)"
  by (simp add: whenM_def)

lemma civil_lock [frame_intros]: "civil (lock l)" "civil (unlock l)"
  unfolding lock_def unlock_def by (auto intro!: civil_rules simp: fd_neutral_def)

lemma civil_set_parent [frame_intros]: "civil (set_parent g)"
  unfolding set_parent_def by (rule civil_modM) (simp split: parent.split)

lemmas civil_all = civil_rules civil_case civil_pair civil_whenM

lemma civil_connecting [frame_intros]:
  "civil connect_setup" "civil (bind_local f a)" "civil print_bound_address" "civil (idx_cache_save a)"
  "civil failover_start" "civil cached_address"
  unfolding connect_setup_def bind_local_def print_bound_address_def idx_cache_save_def
    failover_start_def cached_address_def
  by (auto intro!: civil_all frame_intros simp: fd_neutral_def Let_def split: failover.split)

lemma civil_idx_cache_retrieve [frame_intros]: "civil idx_cache_retrieve"
  unfolding idx_cache_retrieve_def by (auto intro!: civil_all frame_intros)

lemma civil_tls [frame_intros]:
  "civil session_cache_retrieve" "civil session_cache_save" "civil new_chain" "civil ssl_setup"
  "civil (local_peer f)" "civil (take_peer a)" "civil handshake_done"
  unfolding session_cache_retrieve_def session_cache_save_def new_chain_def ssl_setup_def free_session_def
    local_peer_def take_peer_def handshake_done_def
  by (auto intro!: civil_all frame_intros simp: fd_neutral_def Let_def)

lemma civil_moves: "civil m \<Longrightarrow> keeps moves m"
  by (simp add: civil_def)

lemma civil_handshake_step [frame_intros]: "civil handshake_step"
  unfolding handshake_step_def
  by (auto intro!: civil_all frame_intros simp: fd_neutral_def Let_def split: prod.split)

lemma rounds_handshake_step: "rounds handshake_step"
  unfolding handshake_step_def
  by (rule rounds_getM, rule rounds_sys)
    (auto intro!: civil_moves civil_all frame_intros simp: Let_def split: prod.split)

lemma civil_handshake [frame_intros]: "civil handshake"
  unfolding handshake_def by (auto intro!: civil_seqM civil_loopM rounds_handshake_step frame_intros)

lemma civil_session_start [frame_intros]: "civil session_start"
  unfolding session_start_def by (auto intro!: civil_all frame_intros simp: fd_neutral_def)

lemma civil_ssl_start [frame_intros]: "civil ssl_start"
  unfolding ssl_start_def by (auto intro!: civil_all frame_intros)

lemma civil_negotiation [frame_intros]: "civil (negotiation ph)"
  unfolding negotiation_def by (auto intro!: civil_all protocol_civil)

lemma transfer_parts_hold:
  "keeps holds (update_wants v)" "keeps holds (setup_fds v)" "keeps holds (await_event v)" "keeps holds (retrieve v)"
  "keeps holds (exceptions v)" "keeps holds (hangups v)" "keeps holds check_renegotiation" "keeps holds (send_close_notify v)"
  "keeps holds parse_socket_error" "keeps holds (write_socket v)" "keeps holds (read_socket v)" "keeps holds (write_tls v)"
  "keeps holds (tls_readable v)" "keeps holds (tls_gone a p)" "keeps holds tls_zero_return" "keeps holds (tls_receive v)"
  "keeps holds (check_hangup v)" "keeps holds (close_socket_side v)" "keeps holds (close_tls_side v)" "keeps holds (check_watchdog v)"
proof -
  have m: "holds c (f c)" if "env (f c) = env c" "fd_state (f c) = fd_state c" for f and c :: cli
    using that by (simp add: holds_def held_def)
  show "keeps holds (update_wants v)" "keeps holds (setup_fds v)" "keeps holds (await_event v)" "keeps holds (retrieve v)"
    "keeps holds (exceptions v)" "keeps holds (hangups v)" "keeps holds check_renegotiation" "keeps holds (send_close_notify v)"
    "keeps holds parse_socket_error" "keeps holds (write_socket v)" "keeps holds (read_socket v)" "keeps holds (write_tls v)"
    "keeps holds (tls_readable v)" "keeps holds (tls_gone a p)" "keeps holds tls_zero_return" "keeps holds (tls_receive v)"
    "keeps holds (check_hangup v)" "keeps holds (close_socket_side v)" "keeps holds (close_tls_side v)" "keeps holds (check_watchdog v)"
    unfolding update_wants_def setup_fds_def await_event_def retrieve_def exceptions_def report_error_def
      hangups_def check_renegotiation_def send_close_notify_def tls_readable_def tls_gone_def
      tls_zero_return_def check_hangup_def close_socket_side_def close_tls_side_def check_watchdog_def
      hung_def drained_def set_shutdown_def parse_socket_error_def write_socket_def read_socket_def
      write_tls_def tls_receive_def
    by (auto intro!: holds.rules holds.modM frame_intros m simp: fd_neutral_def Let_def split: ssl_error.split)
qed

lemma transfer_holds: "keeps holds transfer"
  unfolding transfer_def transfer_round_def transfer_work_def transfer_moves_def check_shutdown_def read_tls_def
  by (auto intro!: holds.rules holds.modM transfer_parts_hold simp: holds_def held_def)

lemma civil_transfer [frame_intros]: "civil transfer"
proof -
  have "keeps moves transfer"
    unfolding transfer_def
    by (intro mv.seqM mv.modM mv.loopM sound_moves [OF sound_transfer_round]) (simp add: moves_def env_le_def)
  then show ?thesis by (simp add: civil_def transfer_holds live_transfer)
qed

section \<open>The descriptors a connection owns\<close>

lemma fd_state_env_step [simp]: "fd_state (env_step q c) = fd_state c"
  by (simp add: fd_state_def env_step_def)

text \<open>\<open>c->fd\<close> and \<open>c->remote_fd\<close> own what they hold. \<open>stands c0 t r c\<close>: they are \<open>t\<close> and \<open>r\<close>, and since
  \<open>c0\<close> everything else that was opened has been closed again.\<close>

definition owned :: "int \<Rightarrow> int \<Rightarrow> int \<Rightarrow> int" where
  "owned t r f = int (count_list (one_fd t) f) + int (count_list (one_fd r) f)"

definition stands :: "cli \<Rightarrow> int \<Rightarrow> int \<Rightarrow> cli \<Rightarrow> bool" where
  "stands c0 t r c \<longleftrightarrow> tmp_fd c = t \<and> fd (remote_fd c) = r \<and>
     (\<forall>f. held f c = held f c0 - owned (tmp_fd c0) (fd (remote_fd c0)) f + owned t r f) \<and>
     fd (local_rfd c) = fd (local_rfd c0) \<and> fd (local_wfd c) = fd (local_wfd c0) \<and>
     num_clients c = num_clients c0 \<and> os (env c) = os (env c0)"

definition bal :: "cli \<Rightarrow> cli \<Rightarrow> bool" where
  "bal c0 c \<longleftrightarrow> (\<exists>t r. stands c0 t r c)"

definition fixed :: "cli \<Rightarrow> cli \<Rightarrow> bool" where
  "fixed c c' \<longleftrightarrow> holds c c' \<and> os (env c') = os (env c)"

lemma stands_refl: "stands c (tmp_fd c) (fd (remote_fd c)) c"
  by (simp add: stands_def)

lemma stands_os: "stands c0 t r c \<Longrightarrow> os (env c) = os (env c0)"
  by (simp add: stands_def)

lemma stands_bal: "stands c0 t r c \<Longrightarrow> bal c0 c"
  by (auto simp: bal_def)

lemma stands_fixed: "stands c0 t r c \<Longrightarrow> fixed c c' \<Longrightarrow> stands c0 t r c'"
  by (simp add: stands_def fixed_def holds_def fd_state_def)

text \<open>A stop that \<open>setjmp\<close> catches.\<close>

definition jumps :: "stop \<Rightarrow> bool" where
  "jumps k \<longleftrightarrow> (\<exists>n. k = Longjmp n)"

lemma jumps_simps [simp]: "jumps (Longjmp n)" "\<not> jumps Blocked" "\<not> jumps Fatal" "\<not> jumps Null_deref" "\<not> jumps Overflow"
  by (simp_all add: jumps_def)

lemma wp_civil:
  assumes "civil m" "stands c0 t r c"
    and Q: "\<And>a c'. stands c0 t r c' \<Longrightarrow> Q a c'" and E: "\<And>k c'. bal c0 c' \<Longrightarrow> E k c'"
  shows "wp m Q E c"
proof -
  have "keeps (\<lambda>c c'. holds c c' \<and> moves c c') m"
    using assms(1) by (intro keeps_conj) (simp_all add: civil_def)
  then show ?thesis
  proof (rule wp_keeps)
    fix a and k and c' :: cli
    assume "holds c c' \<and> moves c c'"
    then have "stands c0 t r c'" using assms(2) by (auto simp: fixed_def moves_def env_le_def intro: stands_fixed)
    then show "Q a c'" "E k c'" by (auto intro: Q E stands_bal)
  qed
qed

lemma wp_civil_bind:
  assumes "stands c0 t r c" "civil m" "\<And>a c'. stands c0 t r c' \<Longrightarrow> wp (f a) Q E c'"
    and "\<And>k c'. bal c0 c' \<Longrightarrow> E k c'"
  shows "wp (bindM m f) Q E c"
  unfolding wp_bindM by (rule wp_civil [OF assms(2,1)]) (simp_all add: assms(3,4))

lemma wp_civil_seq:
  "stands c0 t r c \<Longrightarrow> civil m \<Longrightarrow> (\<And>c'. stands c0 t r c' \<Longrightarrow> wp m' Q E c') \<Longrightarrow>
   (\<And>k c'. bal c0 c' \<Longrightarrow> E k c') \<Longrightarrow> wp (seqM m m') Q E c"
  unfolding seqM_def by (rule wp_civil_bind)

lemma wp_opens:
  assumes y: "yields g m" "keeps io_le m" "stops {Blocked} m" and ok: "os_ok (os (env c))"
    and Q: "\<And>a c'. io_le c c' \<Longrightarrow> (\<And>f. held f c' = held f c + int (count_list (g a) f)) \<Longrightarrow> Q a c'"
    and E: "\<And>c'. E Blocked c'"
  shows "wp m Q E c"
proof -
  have "wp m (\<lambda>a c'. (\<forall>f. held f c' = held f c + int (count_list (g a) f)) \<and> io_le c c') (\<lambda>k c'. True \<and> io_le c c') c"
    using y(1,2) ok by (intro wp_conj) (auto simp: yields_def keeps_def)
  from wp_stops [OF y(3) this] show ?thesis
    by (rule wp_mono) (auto intro: Q E)
qed

lemma opens_stop:
  "stops {Blocked} (s_socket d)" "stops {Blocked} make_sockets"
  unfolding make_sockets_def s_socket_def s_accept_def setup_fd_def closesocket_def
  by (auto intro!: stops_rules simp: Let_def)

text \<open>A new socket goes into \<open>c->fd\<close>, which was empty.\<close>

lemma wp_socket:
  assumes "stands c0 INVALID_SOCKET r c" "os_ok (os (env c0))"
    and "\<And>f c'. stands c0 f r c' \<Longrightarrow> wp (m f) Q E c'" and "\<And>c'. E Blocked c'"
  shows "wp (bindM (s_socket d) (\<lambda>f. seqM (set_tmp f) (m f))) Q E c"
  unfolding wp_bindM wp_seqM set_tmp_def wp_modM
proof (rule wp_opens [OF one_fd_yields(1) _ opens_stop(1)])
  show "os_ok (os (env c))" using assms(1,2) by (simp add: stands_os)
next
  fix f c'
  assume io: "io_le c c'" and h: "\<And>g. held g c' = held g c + int (count_list (one_fd f) g)"
  have "os (env c') = os (env c)" using io by (simp add: io_le_def env_le_def)
  moreover have "held g (c'\<lparr>tmp_fd := f\<rparr>) = held g c'" for g by (simp add: held_def)
  ultimately have "stands c0 f r (c'\<lparr>tmp_fd := f\<rparr>)"
    using assms(1) h by (simp add: stands_def owned_def io_le_fields [OF io] one_fd_def)
  then show "wp (m f) Q E (c'\<lparr>tmp_fd := f\<rparr>)" by (rule assms(3))
qed (auto intro: assms(4) frame_intros)

text \<open>\<open>c->fd\<close> is closed and emptied.\<close>

lemma stands_drop:
  assumes "stands c0 f r c" "f \<noteq> INVALID_SOCKET"
  shows "stands c0 INVALID_SOCKET r ((env_step (Close f) c)\<lparr>tmp_fd := INVALID_SOCKET\<rparr>)"
  using assms by (auto simp: stands_def owned_def one_fd_def env_step_def held_def INVALID_SOCKET_def)

lemma wp_drop_tmp:
  assumes "stands c0 f r c" "f \<noteq> INVALID_SOCKET"
    and "\<And>c'. stands c0 INVALID_SOCKET r c' \<Longrightarrow> wp m Q E c'" and "\<And>c'. E Blocked c'"
  shows "wp (seqM (closesocket f) (seqM (set_tmp INVALID_SOCKET) m)) Q E c"
  using stands_drop [OF assms(1,2)] assms(3,4)
  by (simp add: wp_seqM wp_closesocket wp_sys_step set_tmp_def wp_modM)

lemma wp_close_tmp:
  assumes "stands c0 f r c" and "\<And>c'. stands c0 INVALID_SOCKET r c' \<Longrightarrow> Q () c'" and "\<And>c'. E Blocked c'"
  shows "wp close_tmp Q E c"
proof (cases "f = INVALID_SOCKET")
  case True
  with assms(1) have "stands c0 INVALID_SOCKET r (c\<lparr>tmp_fd := INVALID_SOCKET\<rparr>)" "tmp_fd c = INVALID_SOCKET"
    by (simp_all add: stands_def owned_def held_def)
  then show ?thesis
    using assms(2) by (simp add: close_tmp_def wp_bindM wp_getM wp_seqM wp_whenM set_tmp_def wp_modM)
next
  case False
  moreover have "tmp_fd c = f" using assms(1) by (simp add: stands_def)
  ultimately show ?thesis
    using stands_drop [OF assms(1) False] assms(2,3)
    by (simp add: close_tmp_def wp_bindM wp_getM wp_seqM wp_whenM wp_closesocket wp_sys_step set_tmp_def wp_modM)
qed

lemma wp_bind_getM: "wp (bindM (getM f) m) Q E c = wp (m (f c)) Q E c"
  by (simp add: wp_bindM wp_getM)

lemmas stand_steps = wp_civil_bind wp_civil_seq wp_drop_tmp wp_socket

lemma ident_check_stands:
  assumes "stands c0 f r c" "f \<noteq> INVALID_SOCKET"
  shows "wp (ident_check name peer f) (\<lambda>_. stands c0 INVALID_SOCKET r) (\<lambda>k c'. jumps k \<longrightarrow> bal c0 c') c"
  unfolding ident_check_def using assms
  by (auto simp: wp_if wp_stopM wp_retM stands_bal fd_neutral_def
      intro!: wp_civil_bind [of c0 f r] wp_civil_seq [of c0 f r] wp_drop_tmp [of c0 f r] civil_sys frame_intros)

lemma auth_user_stands:
  assumes "stands c0 INVALID_SOCKET r c" "os_ok (os (env c0))"
  shows "wp auth_user (\<lambda>_. stands c0 INVALID_SOCKET r) (\<lambda>k c'. jumps k \<longrightarrow> bal c0 c') c"
  unfolding auth_user_def wp_bind_getM using assms
  by (auto simp: wp_bind_getM wp_if wp_retM wp_stopM stands_bal simp del: wp_sys
      intro!: wp_socket [of c0 r] ident_check_stands split: option.split)

text \<open>A descriptor handed back to the caller, owned by nobody yet.\<close>

definition gives :: "cli \<Rightarrow> int \<Rightarrow> int \<Rightarrow> cli \<Rightarrow> bool" where
  "gives c0 f r c \<longleftrightarrow> stands c0 f r (c\<lparr>tmp_fd := f\<rparr>) \<and> tmp_fd c = INVALID_SOCKET \<and> f \<noteq> INVALID_SOCKET"

lemma civil_socket_bound [frame_intros]: "civil (socket_bound ba f)"
  unfolding socket_bound_def by (auto intro!: civil_all frame_intros simp: fd_neutral_def)

lemma connect_init_stands:
  assumes "stands c0 INVALID_SOCKET r c" "os_ok (os (env c0))"
  shows "wp (connect_init d) (\<lambda>ok c'. \<exists>f. stands c0 f r c' \<and> (ok \<longrightarrow> f \<noteq> INVALID_SOCKET)) (\<lambda>k c'. jumps k \<longrightarrow> bal c0 c') c"
proof -
  have "wp (socket_bound ba f) (\<lambda>ok c'. \<exists>f. stands c0 f r c' \<and> (ok \<longrightarrow> f \<noteq> INVALID_SOCKET)) (\<lambda>k c'. jumps k \<longrightarrow> bal c0 c') c1"
    if "stands c0 f r c1" "f \<noteq> INVALID_SOCKET" for ba f c1
    using that by (intro wp_civil [of "socket_bound ba f" c0 f r]) (auto intro: frame_intros)
  then show ?thesis
    unfolding connect_init_def wp_bind_getM using assms
    by (auto simp: wp_bind_getM wp_if wp_retM simp del: wp_sys intro!: wp_socket [of c0 r])
qed

lemma connect_one_stands:
  assumes "stands c0 INVALID_SOCKET r c" "os_ok (os (env c0))"
  shows "wp (connect_one a) (\<lambda>ok c'. \<exists>f. stands c0 f r c' \<and> (ok \<longrightarrow> f \<noteq> INVALID_SOCKET)) (\<lambda>k c'. jumps k \<longrightarrow> bal c0 c') c"
  unfolding connect_one_def wp_bindM
proof (rule wp_mono [OF connect_init_stands [OF assms]])
  fix ok and c' :: cli
  assume "\<exists>f. stands c0 f r c' \<and> (ok \<longrightarrow> f \<noteq> INVALID_SOCKET)"
  then obtain f where f: "stands c0 f r c'" "ok \<longrightarrow> f \<noteq> INVALID_SOCKET" by blast
  then show "wp (if ok then bindM (s_connect a) (\<lambda>r. retM (r = 0)) else retM False)
      (\<lambda>ok c'. \<exists>f. stands c0 f r c' \<and> (ok \<longrightarrow> f \<noteq> INVALID_SOCKET)) (\<lambda>k c'. jumps k \<longrightarrow> bal c0 c') c'"
    by (auto simp: wp_if wp_retM intro!: wp_civil_bind [OF f(1)] frame_intros)
qed auto

lemma try_addresses_gives:
  assumes "stands c0 INVALID_SOCKET r c" "os_ok (os (env c0))"
  shows "wp (try_addresses is) (\<lambda>f. gives c0 f r) (\<lambda>k c'. jumps k \<longrightarrow> bal c0 c') c"
  using assms(1)
proof (induction "is" arbitrary: c)
  case Nil
  then show ?case by (simp add: wp_stopM stands_bal)
next
  case (Cons i "is")
  have up: "wp (bindM (getM ssl) (\<lambda>tls.
         seqM (whenM tls (idx_cache_save a))
         (seqM print_bound_address
         (bindM (getM tmp_fd) (\<lambda>f. seqM (set_tmp INVALID_SOCKET) (retM f))))))
       (\<lambda>f. gives c0 f r) (\<lambda>k c'. jumps k \<longrightarrow> bal c0 c') c1"
    if f: "stands c0 f r c1" "f \<noteq> INVALID_SOCKET" for a f c1
  proof -
    have give: "wp (bindM (getM tmp_fd) (\<lambda>f. seqM (set_tmp INVALID_SOCKET) (retM f))) (\<lambda>f. gives c0 f r)
        (\<lambda>k c'. jumps k \<longrightarrow> bal c0 c') c2" if "stands c0 f r c2" for c2
      using that f(2) by (simp add: wp_bind_getM wp_seqM set_tmp_def wp_modM wp_retM gives_def stands_def held_def)
    have "wp (seqM (whenM tls (idx_cache_save a)) (seqM print_bound_address
         (bindM (getM tmp_fd) (\<lambda>f. seqM (set_tmp INVALID_SOCKET) (retM f)))))
       (\<lambda>f. gives c0 f r) (\<lambda>k c'. jumps k \<longrightarrow> bal c0 c') c2" if "stands c0 f r c2" for tls c2
      by (rule wp_civil_seq [OF that], intro civil_whenM frame_intros, rule wp_civil_seq, assumption, intro frame_intros,
          rule give) simp_all
    with f(1) show ?thesis by (simp add: wp_bind_getM)
  qed
  have down: "wp (seqM close_tmp (try_addresses is)) (\<lambda>f. gives c0 f r) (\<lambda>k c'. jumps k \<longrightarrow> bal c0 c') c1"
    if "stands c0 f r c1" for f c1
    unfolding wp_seqM by (rule wp_close_tmp [OF that]) (auto intro: Cons.IH)
  have "wp (bindM (connect_one a) (\<lambda>up.
       if up then
         bindM (getM ssl) (\<lambda>tls.
         seqM (whenM tls (idx_cache_save a))
         (seqM print_bound_address
         (bindM (getM tmp_fd) (\<lambda>f. seqM (set_tmp INVALID_SOCKET) (retM f)))))
       else seqM close_tmp (try_addresses is))) (\<lambda>f. gives c0 f r) (\<lambda>k c'. jumps k \<longrightarrow> bal c0 c') c1"
    if "stands c0 INVALID_SOCKET r c1" for a c1
    unfolding wp_bindM [of "connect_one a"]
    by (rule wp_mono [OF connect_one_stands [OF that assms(2)]]) (auto intro: up down)
  moreover have "stands c0 INVALID_SOCKET r (c\<lparr>idx := i\<rparr>)"
    using Cons.prems by (simp add: stands_def held_def)
  ultimately show ?case by (simp only: try_addresses.simps wp_seqM wp_modM wp_bind_getM)
qed

lemma connect_remote_gives:
  assumes "stands c0 INVALID_SOCKET r c" "os_ok (os (env c0))"
  shows "wp connect_remote (\<lambda>f. gives c0 f r) (\<lambda>k c'. jumps k \<longrightarrow> bal c0 c') c"
  unfolding connect_remote_def using assms
  by (auto simp: wp_stopM stands_bal intro!: wp_civil_bind [of c0 INVALID_SOCKET r] wp_civil_seq [of c0 INVALID_SOCKET r]
      try_addresses_gives frame_intros)

lemma make_sockets_valid: "returns (\<lambda>p. \<forall>a b. p = Some (a, b) \<longrightarrow> a \<noteq> INVALID_SOCKET \<and> b \<noteq> INVALID_SOCKET) make_sockets"
  unfolding make_sockets_def by (auto intro!: returns_rules simp: Let_def)

lemma pty_yields:
  assumes "os_ok (os (env c))"
  shows "let a = os (env c) (now (env c)) Pty_allocate in a_ret a = 0 \<longrightarrow> 0 \<le> a_fds a ! 0 \<and> 0 \<le> a_fds a ! 1"
  using os_okD [OF assms, of Pty_allocate "now (env c)"] by (simp add: Let_def) linarith

text \<open>The child's end is closed in the parent, both when there is no child.\<close>

definition made :: "cli \<Rightarrow> int \<Rightarrow> cli \<Rightarrow> bool" where
  "made c f c' \<longleftrightarrow> fd_state c' = fd_state c \<and> os (env c') = os (env c) \<and> f \<noteq> INVALID_SOCKET \<and>
     (\<forall>g. held g c' = held g c + int (count_list [f] g))"

lemma fork_made:
  assumes "fd_state c1 = fd_state c" "os (env c1) = os (env c)" "f0 \<noteq> INVALID_SOCKET"
    and "\<And>g. held g c1 = held g c + int (count_list [f0, f1] g)"
  shows "wp (bindM (sys (Set_nonblock f1 False)) (\<lambda>_.
    bindM (sys (Fork_exec f1)) (\<lambda>pid.
      if a_ret pid = -1 then seqM (closesocket f0) (seqM (closesocket f1) (stopM (Longjmp 1)))
      else seqM (closesocket f1) (retM f0)))) (made c) (\<lambda>k c'. jumps k \<longrightarrow> fixed c c') c1"
  using assms by (auto simp: wp_eqs made_def fixed_def holds_def simp del: wp_sys)

lemma connect_local_made:
  assumes ok: "os_ok (os (env c))"
  shows "wp connect_local (made c) (\<lambda>k c'. jumps k \<longrightarrow> fixed c c') c"
proof (cases "o_pty (opt c)")
  case True
  have "held g (env_step Pty_allocate c) = held g c + int (count_list (opens Pty_allocate (os (env c) (now (env c)) Pty_allocate)) g)" for g
    by simp
  then show ?thesis
    using os_okD [OF ok, of Pty_allocate "now (env c)"] True
    by (auto simp: connect_local_def wp_bind_getM wp_if wp_bindM [of "bindM a b" for a b] wp_bindM [of "sys Pty_allocate"]
        wp_sys_step wp_retM wp_stopM fixed_def holds_def INVALID_SOCKET_def simp del: wp_sys intro!: fork_made [unfolded fixed_def holds_def conj_assoc])
next
  case False
  have m: "wp make_sockets (\<lambda>p c'. (\<forall>a b. p = Some (a, b) \<longrightarrow> a \<noteq> INVALID_SOCKET) \<and> io_le c c' \<and>
      (\<forall>g. held g c' = held g c + int (count_list (two_fds p) g))) (\<lambda>k _. k = Blocked) c"
  proof (rule wp_returns [where P = "\<lambda>p. \<forall>a b. p = Some (a, b) \<longrightarrow> a \<noteq> INVALID_SOCKET"])
    show "returns (\<lambda>p. \<forall>a b. p = Some (a, b) \<longrightarrow> a \<noteq> INVALID_SOCKET) make_sockets"
      using make_sockets_valid by (auto simp: returns_def)
    show "wp make_sockets (\<lambda>p c'. io_le c c' \<and> (\<forall>g. held g c' = held g c + int (count_list (two_fds p) g))) (\<lambda>k _. k = Blocked) c"
      by (rule wp_opens [OF make_sockets_yields _ opens_stop(2) ok]) (auto intro: frame_intros)
  qed
  have os: "io_le c c' \<Longrightarrow> os (env c') = os (env c) \<and> fd_state c' = fd_state c" for c'
    by (simp add: io_le_fields fd_state_def) (simp add: io_le_def env_le_def)
  show ?thesis
    using False
    apply (simp add: connect_local_def wp_bind_getM wp_bindM [of "bindM a b" for a b] wp_bindM [of make_sockets])
    apply (rule wp_mono [OF m])
    by (auto simp: two_fds_def os wp_stopM wp_retM fixed_def holds_def
        intro!: fork_made [unfolded fixed_def holds_def conj_assoc] split: option.splits)
qed

lemma made_gives:
  assumes "stands c0 INVALID_SOCKET r c" "made c f c'"
  shows "gives c0 f r c'"
  using assms by (auto simp: gives_def stands_def made_def fd_state_def owned_def one_fd_def held_def)

lemma connect_local_gives:
  assumes "stands c0 INVALID_SOCKET r c" "os_ok (os (env c0))"
  shows "wp connect_local (\<lambda>f. gives c0 f r) (\<lambda>k c'. jumps k \<longrightarrow> bal c0 c') c"
proof -
  have "os_ok (os (env c))" using assms by (simp add: stands_os)
  from connect_local_made [OF this] show ?thesis
    by (rule wp_mono) (use assms(1) in \<open>auto intro: made_gives stands_bal stands_fixed\<close>)
qed

lemma gives_remote:
  assumes "gives c0 f INVALID_SOCKET c"
  shows "stands c0 INVALID_SOCKET f (c\<lparr>remote_fd := (remote_fd c)\<lparr>fd := f\<rparr>\<rparr>)"
  using assms by (simp add: gives_def stands_def owned_def one_fd_def held_def)

lemma remote_start_stands:
  assumes "stands c0 INVALID_SOCKET INVALID_SOCKET c" "os_ok (os (env c0))"
  shows "wp remote_start (\<lambda>_ c'. \<exists>r. stands c0 INVALID_SOCKET r c') (\<lambda>k c'. jumps k \<longrightarrow> bal c0 c') c"
proof -
  have tail: "wp (seqM (modM (\<lambda>c. c\<lparr>remote_fd := (remote_fd c)\<lparr>fd := f\<rparr>\<rparr>))
     (if pty then modM (\<lambda>c. c\<lparr>remote_fd := (remote_fd c)\<lparr>is_socket := False\<rparr>\<rparr>)
      else seqM (modM (\<lambda>c. c\<lparr>remote_fd := (remote_fd c)\<lparr>is_socket := True\<rparr>\<rparr>))
        (bindM (set_socket_options f 2) (\<lambda>_. retM ())))) (\<lambda>_ c'. \<exists>r. stands c0 INVALID_SOCKET r c')
     (\<lambda>k c'. jumps k \<longrightarrow> bal c0 c') c1" if "gives c0 f INVALID_SOCKET c1" for f c1 pty
    unfolding wp_seqM [of "modM g" for g] wp_modM
    by (rule wp_civil [OF _ gives_remote [OF that]]) (auto intro!: civil_all frame_intros)
  let ?c = "c\<lparr>bind_addr := b\<rparr>"
  have b: "stands c0 INVALID_SOCKET INVALID_SOCKET (c\<lparr>bind_addr := b\<rparr>)" for b
    using assms(1) by (simp add: stands_def held_def)
  show ?thesis
    unfolding remote_start_def wp_bind_getM wp_seqM [of "modM (\<lambda>c. c\<lparr>bind_addr := g c\<rparr>)" for g] wp_modM
      wp_bindM [of "if a then connect_local else connect_remote" for a]
  proof (rule wp_mono)
    show "wp (if o_exec_name (opt c) \<noteq> None \<and> al_names (o_connect_addr (opt c)) = [] then connect_local else connect_remote)
        (\<lambda>f. gives c0 f INVALID_SOCKET) (\<lambda>k c'. jumps k \<longrightarrow> bal c0 c') (c\<lparr>bind_addr := b\<rparr>)" for b
      by (simp add: b connect_local_gives connect_remote_gives assms(2))
  qed (simp_all add: tail)
qed

lemma local_start_stands:
  assumes "stands c0 INVALID_SOCKET r c" "os_ok (os (env c0))"
  shows "wp local_start (\<lambda>_. stands c0 INVALID_SOCKET r) (\<lambda>k c'. jumps k \<longrightarrow> bal c0 c') c"
proof -
  have m: "civil (case rp of None \<Rightarrow> retM () | Some a \<Rightarrow> seqM (take_peer a) (bindM (set_socket_options rf 1) (\<lambda>_. retM ())))" for rp rf
    by (auto intro!: civil_all frame_intros)
  show ?thesis
    unfolding local_start_def using assms
    by (auto simp: wp_retM wp_stopM stands_bal fd_neutral_def split: option.split
        intro!: wp_civil_bind [of c0 INVALID_SOCKET r] wp_civil_seq [of c0 INVALID_SOCKET r] auth_user_stands
          civil_all m frame_intros)
qed

lemma client_try_bal:
  assumes "stands c0 INVALID_SOCKET INVALID_SOCKET c" "os_ok (os (env c0))"
  shows "wp client_try (\<lambda>_. bal c0) (\<lambda>k c'. jumps k \<longrightarrow> bal c0 c') c"
proof -
  let ?E = "\<lambda>k c'. jumps k \<longrightarrow> bal c0 c'"
  have late: "wp (seqM (negotiation PROTOCOL_LATE) transfer) (\<lambda>_. bal c0) ?E c1" if "stands c0 INVALID_SOCKET r c1" for r c1
    by (rule wp_civil_seq [OF that]) (auto intro!: frame_intros wp_civil [of transfer c0 INVALID_SOCKET r] stands_bal)
  have connect: "wp (if first then seqM remote_start (seqM (negotiation PROTOCOL_MIDDLE) ssl_start)
           else seqM ssl_start (seqM (negotiation PROTOCOL_MIDDLE) remote_start))
      (\<lambda>_ c'. \<exists>r. stands c0 INVALID_SOCKET r c') ?E c1" if "stands c0 INVALID_SOCKET INVALID_SOCKET c1" for first c1
  proof (cases first)
    case True
    have "wp (seqM (negotiation PROTOCOL_MIDDLE) ssl_start) (\<lambda>_ c'. \<exists>r. stands c0 INVALID_SOCKET r c') ?E c2"
      if "stands c0 INVALID_SOCKET r c2" for r c2
      by (rule wp_civil_seq [OF that]) (auto intro!: frame_intros wp_civil [of ssl_start c0 INVALID_SOCKET r])
    then show ?thesis
      using True by (auto simp: wp_seqM [of remote_start] intro!: wp_mono [OF remote_start_stands [OF that assms(2)]])
  next
    case False
    then show ?thesis
      using that by (auto intro!: frame_intros remote_start_stands [OF _ assms(2)]
          wp_civil_seq [of c0 INVALID_SOCKET INVALID_SOCKET])
  qed
  have body: "wp (seqM (negotiation PROTOCOL_EARLY)
    (bindM (getM (\<lambda>c. o_connect_before_ssl (opt c))) (\<lambda>first.
     seqM (if first then seqM remote_start (seqM (negotiation PROTOCOL_MIDDLE) ssl_start)
           else seqM ssl_start (seqM (negotiation PROTOCOL_MIDDLE) remote_start))
     (seqM (negotiation PROTOCOL_LATE) transfer)))) (\<lambda>_. bal c0) ?E c1"
    if "stands c0 INVALID_SOCKET INVALID_SOCKET c1" for c1
    apply (rule wp_civil_seq [OF that civil_negotiation])
     apply (simp only: wp_bind_getM wp_seqM [of "if a then m else m'" for a m m'])
     apply (rule wp_mono [OF connect], assumption)
      apply (auto intro: late)
    done
  show ?thesis
    unfolding client_try_def wp_seqM [of local_start]
    by (rule wp_mono [OF local_start_stands [OF assms]]) (auto intro: body)
qed

section \<open>Cleaning up\<close>

lemma seqM_assoc: "seqM (seqM a b) d = seqM a (seqM b d)"
  by (simp add: seqM_def bindM_def fun_eq_iff split: res.split)

lemma wp_setjmp:
  "wp (setjmp m) Q E c = wp m (\<lambda>_. Q 0) (\<lambda>k c'. case k of Longjmp n \<Rightarrow> Q n c' | _ \<Rightarrow> E k c') c"
  by (auto simp: wp_def setjmp_def split: res.split stop.split)

lemma civil_free_ssl [frame_intros]: "civil free_ssl"
  unfolding free_ssl_def by (auto intro!: civil_all simp: fd_neutral_def)

lemma civil_reset [frame_intros]: "civil (reset f)"
  unfolding reset_def by (auto intro!: civil_all simp: fd_neutral_def)

text \<open>From here on only the normal end is followed: the cleanup never jumps.\<close>

lemma wp_close_remote:
  assumes "stands c0 t r c" and Q: "\<And>c'. stands c0 t INVALID_SOCKET c' \<Longrightarrow> Q () c'"
  shows "wp (close_remote rst) Q (\<lambda>_ _. True) c"
proof (cases "r = INVALID_SOCKET")
  case True
  with assms show ?thesis by (simp add: close_remote_def wp_bind_getM wp_whenM stands_def)
next
  case False
  have "stands c0 t INVALID_SOCKET ((env_step (Close r) c1)\<lparr>remote_fd := (remote_fd (env_step (Close r) c1))\<lparr>fd := INVALID_SOCKET\<rparr>\<rparr>)"
    if "stands c0 t r c1" for c1
    using that False by (auto simp: stands_def owned_def one_fd_def env_step_def held_def INVALID_SOCKET_def)
  then have close: "wp (seqM (closesocket r) (modM (\<lambda>c. c\<lparr>remote_fd := (remote_fd c)\<lparr>fd := INVALID_SOCKET\<rparr>\<rparr>))) Q (\<lambda>_ _. True) c1"
    if "stands c0 t r c1" for c1
    using that Q by (simp add: wp_eqs del: wp_sys)
  have "wp (seqM (whenM b (reset r)) (seqM (closesocket r)
      (modM (\<lambda>c. c\<lparr>remote_fd := (remote_fd c)\<lparr>fd := INVALID_SOCKET\<rparr>\<rparr>)))) Q (\<lambda>_ _. True) c" for b
    by (rule wp_civil_seq [OF assms(1)]) (auto intro: close civil_whenM frame_intros)
  moreover have "fd (remote_fd c) = r" using assms(1) by (simp add: stands_def)
  ultimately show ?thesis
    using False by (simp add: close_remote_def wp_bind_getM wp_whenM)
qed

lemma held_addr: "held f (c\<lparr>connect_addr := a\<rparr>) = held f c"
  by (simp add: held_def)

text \<open>What \<open>client_run\<close> closes of its caller's: the local descriptor when it is one.\<close>

definition given_up :: "cli \<Rightarrow> int \<Rightarrow> int" where
  "given_up c f = (if fd (local_rfd c) \<noteq> INVALID_SOCKET \<and> fd (local_rfd c) = fd (local_wfd c) \<and> f = fd (local_rfd c) then 1 else 0)"

definition closed :: "cli \<Rightarrow> cli \<Rightarrow> bool" where
  "closed c0 c \<longleftrightarrow> tmp_fd c = INVALID_SOCKET \<and> fd (remote_fd c) = INVALID_SOCKET \<and> fd (local_rfd c) = INVALID_SOCKET \<and>
     num_clients c = num_clients c0 \<and> os (env c) = os (env c0) \<and> (\<forall>f. held f c = held f c0 - given_up c0 f)"

lemma wp_close_local:
  assumes s: "stands c0 INVALID_SOCKET INVALID_SOCKET c" and c0: "tmp_fd c0 = INVALID_SOCKET" "fd (remote_fd c0) = INVALID_SOCKET"
    and Q: "\<And>c'. closed c0 c' \<Longrightarrow> Q () c'"
  shows "wp (close_local rst) Q (\<lambda>_ _. True) c"
proof -
  let ?f = "fd (local_rfd c0)" and ?w = "fd (local_wfd c0)"
  let ?forget = "\<lambda>c. c\<lparr>local_rfd := (local_rfd c)\<lparr>fd := INVALID_SOCKET\<rparr>, local_wfd := (local_wfd c)\<lparr>fd := INVALID_SOCKET\<rparr>\<rparr>"
  have l: "fd (local_rfd c1) = ?f" "fd (local_wfd c1) = ?w" if "stands c0 INVALID_SOCKET INVALID_SOCKET c1" for c1
    using that by (simp_all add: stands_def)
  have one: "wp (seqM (closesocket ?f) (modM ?forget)) Q (\<lambda>_ _. True) c1"
    if "stands c0 INVALID_SOCKET INVALID_SOCKET c1" "?f \<noteq> INVALID_SOCKET" "?f = ?w" for c1
  proof -
    have "closed c0 (?forget (env_step (Close ?f) c1))"
      using that c0 by (auto simp: closed_def stands_def owned_def one_fd_def given_up_def env_step_def held_def INVALID_SOCKET_def)
    then show ?thesis using Q by (simp add: wp_eqs del: wp_sys)
  qed
  have two: "wp (modM ?forget) Q (\<lambda>_ _. True) c1"
    if "stands c0 INVALID_SOCKET INVALID_SOCKET c1" "?f \<noteq> ?w" for c1
  proof -
    have "closed c0 (?forget c1)"
      using that c0 by (simp add: closed_def stands_def owned_def given_up_def held_def)
    then show ?thesis using Q by (simp add: wp_modM)
  qed
  have none: "closed c0 c" if "?f = INVALID_SOCKET"
    using s that c0 by (simp add: closed_def stands_def owned_def given_up_def)
  have r: "civil (whenM b (reset f))" for b f by (intro civil_whenM frame_intros)
  show ?thesis
  proof (cases "?f = ?w")
    case True
    have "wp (seqM (seqM (whenM b (reset ?f)) (closesocket ?f)) (modM ?forget)) Q (\<lambda>_ _. True) c" if "?f \<noteq> INVALID_SOCKET" for b
    proof -
      have "wp (seqM (whenM b (reset ?f)) (seqM (closesocket ?f) (modM ?forget))) Q (\<lambda>_ _. True) c"
        by (rule wp_civil_seq [OF s r], rule one) (use that True in simp_all)
      then show ?thesis using that by (simp only: seqM_assoc)
    qed
    then show ?thesis
      using none Q l [OF s] True by (simp add: close_local_def wp_bind_getM wp_whenM)
  next
    case False
    then show ?thesis
      using none Q l [OF s] s two
      by (auto simp: close_local_def wp_bind_getM wp_whenM intro!: wp_civil_seq [of c0 INVALID_SOCKET INVALID_SOCKET] civil_seqM r)
  qed
qed

lemma wp_count_clients:
  "(\<And>c'. c' = c\<lparr>env := env c', num_clients := num_clients c + d\<rparr> \<Longrightarrow> os (env c') = os (env c) \<Longrightarrow>
     (\<And>f. held f c' = held f c) \<Longrightarrow> Q () c') \<Longrightarrow> wp (count_clients d) Q (\<lambda>_ _. True) c"
  by (simp add: count_clients_def lock_def unlock_def wp_eqs env_step_def held_def del: wp_sys)

lemma cleanup_stops:
  "stops {Blocked} close_tmp" "stops {Blocked} free_ssl" "stops {Blocked} (close_remote b)"
  "stops {Blocked} (close_local b)" "stops {Blocked} (count_clients d)"
  unfolding close_tmp_def free_ssl_def close_remote_def close_local_def count_clients_def reset_def lock_def unlock_def
    set_tmp_def closesocket_def
  by (auto intro!: stops_rules)

lemma client_run_stops: "stops (- {k. jumps k}) client_run"
proof -
  have "stops (- {k. jumps k}) (setjmp client_try)"
    by (auto simp: stops_def setjmp_def split: res.splits stop.splits)
  then show ?thesis
    unfolding client_run_def
    by (auto intro!: stops_bindM stops_seqM cleanup_stops [THEN stops_mono])
qed

lemma client_run_closed:
  assumes "os_ok (os (env c))"
  shows "wp client_run (\<lambda>_. closed c) (\<lambda>k _. \<not> jumps k) c"
proof -
  have cleanup: "wp (bindM (getM (\<lambda>c. err = 1 \<and> o_reset (opt c))) (\<lambda>rst.
     seqM close_tmp (seqM free_ssl (seqM (close_remote rst) (seqM (close_local rst)
     (seqM (count_clients (-1))
       (modM (\<lambda>c. c\<lparr>connect_addr := (connect_addr c)\<lparr>al_addr := []\<rparr>\<rparr>)))))))) (\<lambda>_. closed c) (\<lambda>_ _. True) c2"
    if b: "bal c1 c2" and c1: "tmp_fd c1 = INVALID_SOCKET" "fd (remote_fd c1) = INVALID_SOCKET"
      "num_clients c1 = num_clients c + 1" "os (env c1) = os (env c)" "\<And>f. held f c1 = held f c"
      "fd (local_rfd c1) = fd (local_rfd c)" "fd (local_wfd c1) = fd (local_wfd c)" for err c1 c2
  proof -
    obtain t r where s: "stands c1 t r c2" using b by (auto simp: bal_def)
    have last: "wp (seqM (count_clients (-1)) (modM (\<lambda>c. c\<lparr>connect_addr := (connect_addr c)\<lparr>al_addr := []\<rparr>\<rparr>)))
        (\<lambda>_. closed c) (\<lambda>_ _. True) c3" if "closed c1 c3" for c3
      unfolding wp_seqM
      by (rule wp_count_clients)
        (use that in \<open>auto simp: wp_modM closed_def given_up_def c1 held_addr dest: arg_cong [where f = tmp_fd]
           arg_cong [where f = remote_fd] arg_cong [where f = local_rfd] arg_cong [where f = num_clients]\<close>)
    show ?thesis
      unfolding wp_bind_getM wp_seqM [of close_tmp]
      apply (rule wp_close_tmp [OF s])
       apply (rule wp_civil_seq, assumption, intro frame_intros)
        apply (unfold wp_seqM [of "close_remote b" for b] wp_seqM [of "close_local b" for b])
        apply (rule wp_close_remote, assumption)
        apply (rule wp_close_local, assumption)
          apply (auto simp: c1 intro: last)
      done
  qed
  have "wp client_run (\<lambda>_. closed c) (\<lambda>_ _. True) c"
    unfolding client_run_def wp_seqM [of "count_clients d" for d]
  proof (rule wp_count_clients)
    fix c' :: cli
    assume c': "c' = c\<lparr>env := env c', num_clients := num_clients c + 1\<rparr>" "os (env c') = os (env c)"
      and h: "\<And>f. held f c' = held f c"
    have f: "tmp_fd (clean_start c') = INVALID_SOCKET" "fd (remote_fd (clean_start c')) = INVALID_SOCKET"
      "num_clients (clean_start c') = num_clients c + 1" "os (env (clean_start c')) = os (env c)"
      "held f (clean_start c') = held f c" "fd (local_rfd (clean_start c')) = fd (local_rfd c)"
      "fd (local_wfd (clean_start c')) = fd (local_wfd c)" for f
      by (simp_all add: clean_start_def c'(2) h [unfolded held_def] held_def) (subst c'(1), simp)+
    have s: "stands (clean_start c') INVALID_SOCKET INVALID_SOCKET (clean_start c')"
      using stands_refl [of "clean_start c'"] by (simp add: f)
    show "wp (seqM (modM clean_start) (bindM (setjmp client_try) (\<lambda>err. bindM (getM (\<lambda>c. err = 1 \<and> o_reset (opt c))) (\<lambda>rst.
       seqM close_tmp (seqM free_ssl (seqM (close_remote rst) (seqM (close_local rst) (seqM (count_clients (-1))
         (modM (\<lambda>c. c\<lparr>connect_addr := (connect_addr c)\<lparr>al_addr := []\<rparr>\<rparr>)))))))))) (\<lambda>_. closed c) (\<lambda>_ _. True) c'"
      unfolding wp_seqM [of "modM clean_start"] wp_modM wp_bindM [of "setjmp m" for m] wp_setjmp
    proof (rule wp_mono [OF client_try_bal [OF s]])
      show "os_ok (os (env (clean_start c')))" by (simp add: f assms)
    next
      fix k s' assume "jumps k \<longrightarrow> bal (clean_start c') s'"
      then show "case k of Longjmp n \<Rightarrow> wp (bindM (getM (\<lambda>c. n = 1 \<and> o_reset (opt c))) (\<lambda>rst.
       seqM close_tmp (seqM free_ssl (seqM (close_remote rst) (seqM (close_local rst) (seqM (count_clients (-1))
         (modM (\<lambda>c. c\<lparr>connect_addr := (connect_addr c)\<lparr>al_addr := []\<rparr>\<rparr>)))))))) (\<lambda>_. closed c) (\<lambda>_ _. True) s' | _ \<Rightarrow> True"
        using cleanup [OF _ f] by (cases k) (simp_all del: One_nat_def)
    qed (rule cleanup [OF _ f])
  qed
  from wp_stops [OF client_run_stops this] show ?thesis by (rule wp_mono) auto
qed

end
