(* ===== verification/Failover.thy ===== *)
theory Failover
  imports Session
begin

text \<open>
  Where a connection goes: the order in which the addresses of a server are tried, and the user the
  IDENT server vouches for.
\<close>

section \<open>Attempts\<close>

fun dialled :: "req \<Rightarrow> sockaddr list" where
  "dialled (Connect f a) = [a]"
| "dialled q = []"

definition attempts :: "cli \<Rightarrow> sockaddr list" where
  "attempts c = concat (map (\<lambda>x. dialled (fst x)) (trace (env c)))"

text \<open>From \<open>c\<close> to \<open>c'\<close> connections to \<open>as\<close> were attempted, in this order.\<close>

definition goes :: "sockaddr list \<Rightarrow> cli \<Rightarrow> cli \<Rightarrow> bool" where
  "goes as c c' \<longleftrightarrow> attempts c' = attempts c @ as \<and> os (env c') = os (env c) \<and> bind_addr c' = bind_addr c \<and>
     max_fds c' = max_fds c \<and> connect_addr c' = connect_addr c \<and> idx c' = idx c"

lemma goes_trans: "goes as a b \<Longrightarrow> goes bs b c \<Longrightarrow> goes (as @ bs) a c"
  by (simp add: goes_def)

lemma goes_last: "goes as a b \<Longrightarrow> goes [] b c \<Longrightarrow> goes as a c"
  by (simp add: goes_def)

lemma goes_env_step: "goes (dialled q) c (env_step q c)"
  by (simp add: goes_def attempts_def env_step_def)

lemma goes_modM:
  "env (f c) = env c \<Longrightarrow> bind_addr (f c) = bind_addr c \<Longrightarrow> max_fds (f c) = max_fds c \<Longrightarrow>
   connect_addr (f c) = connect_addr c \<Longrightarrow> idx (f c) = idx c \<Longrightarrow> goes [] c (f c)" for c :: cli
  by (simp add: goes_def attempts_def)

interpretation goes: frame_rel "goes []" "\<lambda>q. dialled q = []"
proof unfold_locales
  fix q and c :: cli
  assume "dialled q = []"
  then show "goes [] c (env_step q c)" using goes_env_step [of q c] by simp
qed (simp_all add: goes_def attempts_def)

lemma steady_io [frame_intros]:
  "keeps (goes []) (closesocket f)" "keeps (goes []) poll_init" "keeps (goes []) (poll_add f r w)"
  "keeps (goes []) (lock l)" "keeps (goes []) (unlock l)" "keeps (goes []) (set_tmp f)"
  unfolding closesocket_def poll_init_def poll_add_def lock_def unlock_def set_tmp_def
  by (auto intro!: goes.rules goes.modM goes_modM)

lemma steady_wait [frame_intros]: "keeps (goes []) (s_poll_wait s t)"
  unfolding s_poll_wait_def by (auto intro!: goes.rules goes.modM goes_modM)

lemma steady_calls [frame_intros]:
  "keeps (goes []) (get_socket_error f)" "keeps (goes []) (setup_fd f)" "keeps (goes []) (s_ntop a k)"
  "keeps (goes []) close_tmp"
  unfolding get_socket_error_def setup_fd_def s_ntop_def close_tmp_def
  by (auto intro!: goes.rules frame_intros simp: Let_def)

lemma steady_after [frame_intros]:
  "keeps (goes []) (idx_cache_save a)" "keeps (goes []) print_bound_address"
  unfolding idx_cache_save_def print_bound_address_def
  by (auto intro!: goes.rules goes.modM goes_modM frame_intros)

text \<open>Every socket asked for can be had, and the descriptors are not limited.\<close>

definition sockets_open :: "cli \<Rightarrow> bool" where
  "sockets_open c \<longleftrightarrow> max_fds c = 0 \<and> bind_addr c = None \<and> (\<forall>n d. 0 \<le> a_ret (os (env c) n (Socket d)))"

lemma sockets_open_goes: "goes as c c' \<Longrightarrow> sockets_open c \<Longrightarrow> sockets_open c'"
  by (simp add: sockets_open_def goes_def)

lemma wp_s_socket_open:
  assumes "sockets_open c"
  shows "wp (s_socket d) (\<lambda>f c'. f \<noteq> INVALID_SOCKET \<and> goes [] c c') (\<lambda>k _. k = Blocked) c"
proof -
  have "wp (s_socket d) (\<lambda>_. goes [] c) (\<lambda>_ _. True) c"
    by (rule wp_keeps [of "goes []"]) (auto simp: s_socket_def intro!: goes.rules frame_intros)
  from wp_stops [OF opens_stop(1) this]
  have "wp (s_socket d) (\<lambda>_. goes [] c) (\<lambda>k _. k = Blocked) c" by (rule wp_mono) auto
  moreover have "wp (s_socket d) (\<lambda>f _. f \<noteq> INVALID_SOCKET) (\<lambda>k _. k = Blocked) c"
    using assms
    by (auto simp: s_socket_def setup_fd_def sockets_open_def wp_eqs env_step_def INVALID_SOCKET_def Let_def
        simp del: wp_sys)
      (metis neg_0_le_iff_le not_one_le_zero)+
  ultimately show ?thesis using wp_conj by fastforce
qed

lemma s_connect_stops: "stops {Blocked} (s_connect a)"
  unfolding s_connect_def poll_init_def poll_add_def s_poll_wait_def get_socket_error_def
  by (auto intro!: stops_rules simp: Let_def)

lemma wp_s_connect_goes:
  "wp (s_connect a) (\<lambda>_. goes [a] c) (\<lambda>k _. k = Blocked) c"
proof -
  let ?rest = "\<lambda>f r. if a_ret r = 0 then retM 0
      else if a_errno r \<noteq> EINPROGRESS \<and> a_errno r \<noteq> EWOULDBLOCK then retM (-1)
      else seqM poll_init (seqM (poll_add f True True)
        (bindM (getM (\<lambda>c. o_timeout_connect (opt c))) (\<lambda>t.
         bindM (s_poll_wait t 0) (\<lambda>r.
           if r = -1 \<or> r = 0 then retM (-1)
           else bindM (get_socket_error f) (\<lambda>e.
             if e \<noteq> 0 then retM (-1)
             else bindM (getM (\<lambda>c. s_poll_canwrite (fds c) f)) (\<lambda>w.
               retM (if w then 0 else -1)))))))"
  have rest: "keeps (goes []) (?rest f r)" for f r
    by (auto intro!: goes.rules frame_intros)
  have "wp (s_connect a) (\<lambda>_. goes [a] c) (\<lambda>_ _. True) c"
  proof (cases "now (env c) < horizon (env c)")
    case True
    have "goes [a] c (env_step (Connect (tmp_fd c) a) c)"
      using goes_env_step [of "Connect (tmp_fd c) a" c] by simp
    then have "wp (?rest (tmp_fd c) r) (\<lambda>_. goes [a] c) (\<lambda>_ _. True) (env_step (Connect (tmp_fd c) a) c)" for r
      by (intro wp_keeps [OF rest]) (auto intro: goes_last)
    with True show ?thesis
      unfolding s_connect_def wp_bind_getM wp_bindM [of "sys q" for q] wp_sys_step by (simp only: if_True)
  qed (simp add: s_connect_def wp_bind_getM wp_bindM [of "sys q" for q] wp_sys_step del: wp_sys)
  from wp_stops [OF s_connect_stops this] show ?thesis by (rule wp_mono) auto
qed

lemma wp_connect_one:
  assumes "sockets_open c"
  shows "wp (connect_one a) (\<lambda>_. goes [a] c) (\<lambda>k _. k = Blocked) c"
proof -
  have "wp (connect_init (sa_family a)) (\<lambda>ok c'. ok \<and> goes [] c c') (\<lambda>k _. k = Blocked) c"
    using assms
    apply (simp add: connect_init_def wp_bind_getM sockets_open_def)
    apply (subst wp_bindM)
    apply (rule wp_mono [OF wp_s_socket_open])
    by (auto simp: sockets_open_def wp_seqM set_tmp_def wp_modM socket_bound_def wp_retM goes_def attempts_def)
  then show ?thesis
    unfolding connect_one_def wp_bindM [of "connect_init d" for d]
    apply (rule wp_mono)
     apply (auto simp: wp_bindM wp_retM intro!: wp_mono [OF wp_s_connect_goes])
    using goes_trans [of "[]"] by auto
qed

section \<open>The order\<close>

text \<open>\<open>try_addresses\<close> attempts the addresses in order until one answers, which is the one \<open>c->idx\<close>
  names, and gives up only after the last.\<close>

definition went :: "sockaddr list \<Rightarrow> cli \<Rightarrow> cli \<Rightarrow> bool" where
  "went as c c' \<longleftrightarrow> goes as (c\<lparr>idx := idx c'\<rparr>) c'"

lemma went_goes: "goes as (c\<lparr>idx := i\<rparr>) c' \<Longrightarrow> went as c c'"
  by (auto simp: went_def goes_def attempts_def)

lemma went_trans: "went as a b \<Longrightarrow> went bs b c \<Longrightarrow> went (as @ bs) a c"
  by (auto simp: went_def goes_def attempts_def)

lemma try_stops:
  "stops {Blocked} (connect_one a)" "stops {Blocked} (idx_cache_save a)" "stops {Blocked} print_bound_address"
proof -
  show s: "stops {Blocked} (idx_cache_save a)" "stops {Blocked} print_bound_address"
    unfolding idx_cache_save_def print_bound_address_def lock_def unlock_def
    by (auto intro!: stops_rules resolver_stops)
  show "stops {Blocked} (connect_one a)"
    unfolding connect_one_def connect_init_def socket_bound_def bind_local_def set_tmp_def
    by (auto intro!: stops_rules s_connect_stops opens_stop simp: Let_def split: option.split)
qed

lemma try_addresses_goes:
  assumes "sockets_open c"
  shows "wp (try_addresses is)
     (\<lambda>_ c'. \<exists>n < length is. idx c' = is ! n \<and> went (map ((!) (al_addr (connect_addr c))) (take (Suc n) is)) c c')
     (\<lambda>k c'. jumps k \<longrightarrow> went (map ((!) (al_addr (connect_addr c))) is) c c') c"
  using assms
proof (induction "is" arbitrary: c)
  case Nil
  then show ?case by (simp add: wp_stopM went_def goes_def attempts_def)
next
  case (Cons i "is")
  let ?c = "c\<lparr>idx := i\<rparr>" and ?a = "al_addr (connect_addr c) ! i" and ?g = "map ((!) (al_addr (connect_addr c)))"
  let ?Q = "\<lambda>_ c'. \<exists>n < length (i # is). idx c' = (i # is) ! n \<and> went (?g (take (Suc n) (i # is))) c c'"
    and ?E = "\<lambda>k c'. jumps k \<longrightarrow> went (?g (i # is)) c c'"
  let ?up = "bindM (getM ssl) (\<lambda>tls. seqM (whenM tls (idx_cache_save ?a)) (seqM print_bound_address
         (bindM (getM tmp_fd) (\<lambda>f. seqM (set_tmp INVALID_SOCKET) (retM f)))))"
  have up: "wp ?up ?Q ?E c1" if "goes [?a] ?c c1" for c1
  proof -
    have "keeps (goes []) ?up" by (auto intro!: goes.rules frame_intros)
    then have w: "wp ?up ?Q (\<lambda>_ _. True) c1"
      by (rule wp_keeps)
        (use that in \<open>auto simp: goes_def intro!: exI [of _ 0] went_goes [where i = i]\<close>)
    have "stops {Blocked} ?up"
      unfolding set_tmp_def by (auto intro!: stops_rules try_stops)
    from wp_stops [OF this w] show ?thesis by (rule wp_mono) auto
  qed
  have down: "wp (seqM close_tmp (try_addresses is)) ?Q ?E c1" if "goes [?a] ?c c1" for c1
    unfolding wp_seqM
  proof (rule wp_stops [OF cleanup_stops(1), THEN wp_mono])
    show "wp close_tmp (\<lambda>_. goes [?a] ?c) (\<lambda>_ _. True) c1"
      by (rule wp_keeps [of "goes []"]) (use that in \<open>auto intro: goes_last frame_intros\<close>)
  next
    fix c2 assume g: "goes [?a] ?c c2"
    then have "sockets_open c2" "connect_addr c2 = connect_addr c"
      using Cons.prems by (auto simp: sockets_open_def goes_def)
    with Cons.IH [of c2] have "wp (try_addresses is)
       (\<lambda>_ c'. \<exists>n < length is. idx c' = is ! n \<and> went (?g (take (Suc n) is)) c2 c')
       (\<lambda>k c'. jumps k \<longrightarrow> went (?g is) c2 c') c2" by simp
    then show "wp (try_addresses is) ?Q ?E c2"
      by (rule wp_mono) (force dest: went_trans [OF went_goes [OF g]])+
  qed auto
  have o: "sockets_open ?c" using Cons.prems by (simp add: sockets_open_def)
  show ?case
    unfolding try_addresses.simps wp_seqM wp_modM wp_bind_getM wp_bindM [of "connect_one a" for a]
    by (rule wp_mono [OF wp_connect_one [OF o]]) (use up down in auto)
qed

section \<open>Where it starts\<close>

definition calm :: "cli \<Rightarrow> cli \<Rightarrow> bool" where
  "calm c c' \<longleftrightarrow> attempts c' = attempts c \<and> os (env c') = os (env c) \<and> bind_addr c' = bind_addr c \<and>
     max_fds c' = max_fds c \<and> ssl c' = ssl c \<and> o_failover (opt c') = o_failover (opt c)"

definition steady :: "cli \<Rightarrow> cli \<Rightarrow> bool" where
  "steady c c' \<longleftrightarrow> calm c c' \<and> al_addr (connect_addr c') = al_addr (connect_addr c)"

lemma calm_modM:
  "env (f c) = env c \<Longrightarrow> bind_addr (f c) = bind_addr c \<Longrightarrow> max_fds (f c) = max_fds c \<Longrightarrow>
   ssl (f c) = ssl c \<Longrightarrow> o_failover (opt (f c)) = o_failover (opt c) \<Longrightarrow> calm c (f c)" for c :: cli
  by (simp add: calm_def attempts_def)

interpretation calm: frame_rel calm "\<lambda>q. dialled q = []"
  by unfold_locales (simp_all add: calm_def attempts_def env_step_def)

interpretation steady: frame_rel steady "\<lambda>q. dialled q = []"
  by unfold_locales (simp_all add: steady_def calm_def attempts_def env_step_def)

lemma steady_cases: "(o' = None \<Longrightarrow> keeps R m) \<Longrightarrow> (\<And>x. o' = Some x \<Longrightarrow> keeps R (f x)) \<Longrightarrow>
   keeps R (case o' of None \<Rightarrow> m | Some x \<Rightarrow> f x)"
  by (cases o') auto

lemma steady_idx_cache_retrieve [frame_intros]: "keeps steady idx_cache_retrieve"
proof -
  have "steady c (f c)" if "f = (\<lambda>c. case al_parent (connect_addr c) of
      Own \<Rightarrow> c\<lparr>connect_addr := connect_addr c\<lparr>al_rr := n\<rparr>\<rparr>
    | Opt_connect \<Rightarrow> c\<lparr>opt := opt c\<lparr>o_connect_addr := o_connect_addr (opt c)\<lparr>al_rr := n\<rparr>\<rparr>\<rparr>
    | Opt_redirect \<Rightarrow> c\<lparr>opt := opt c\<lparr>o_redirect_addr := o_redirect_addr (opt c)\<lparr>al_rr := n\<rparr>\<rparr>\<rparr>)" for f c n
    unfolding that steady_def by (auto intro!: calm_modM split: parent.split)
  then show ?thesis
    unfolding idx_cache_retrieve_def cached_address_def failover_start_def set_parent_def s_ntop_def lock_def unlock_def
    by (auto intro!: steady.rules steady.modM steady_cases split: failover.split)
qed

lemma calm_lookup [frame_intros]:
  "keeps calm (getaddrinfo_retry h p s)" "keeps calm (hostport2addrlist l h p)"
  unfolding hostport2addrlist_def getaddrinfo_retry_def
  by (auto intro!: calm.rules frame_intros simp: Let_def)

lemma calm_name2addrlist [frame_intros]: "keeps calm (name2addrlist l n)"
  unfolding name2addrlist_def by (cases "split_port n") (auto intro!: calm.rules frame_intros)

lemma calm_dup [frame_intros]: "keeps calm (addrlist_dup w l)"
  unfolding addrlist_dup_def addrlist_resolve_def resolve_names_def
  by (auto intro!: calm.rules frame_intros simp: Let_def split: prod.split)

lemma calm_connect_setup [frame_intros]: "keeps calm connect_setup"
  unfolding connect_setup_def original_dst_def
  by (auto intro!: calm.rules calm.modM calm_modM steady_cases frame_intros)

lemma setup_stops: "stops {Blocked} (addrlist_dup w l)"
  by (rule frame_intros) simp

text \<open>Without a transparent destination \<open>connect_setup\<close> does not give up.\<close>

lemma wp_connect_setup:
  assumes "\<not> o_transparent_dst (opt c)"
  shows "wp connect_setup (\<lambda>_. calm c) (\<lambda>k _. k = Blocked) c"
proof -
  have m: "stops {Blocked} (bindM (addrlist_dup w l) (\<lambda>(dst, _). modM (\<lambda>c. c\<lparr>connect_addr := dst\<rparr>)))" for w l
    by (auto intro!: stops_rules setup_stops)
  have k: "keeps calm (bindM (addrlist_dup w l) (\<lambda>(dst, _). modM (\<lambda>c. c\<lparr>connect_addr := dst\<rparr>)))" for w l
    by (auto intro!: calm.rules calm.modM calm_modM frame_intros)
  have w: "wp (bindM (addrlist_dup w l) (\<lambda>(dst, _). modM (\<lambda>c. c\<lparr>connect_addr := dst\<rparr>))) (\<lambda>_. calm c) (\<lambda>k _. k = Blocked) c" for w l
    by (rule wp_mono [OF wp_stops [OF m wp_keeps [OF k, of c "\<lambda>_. calm c" "\<lambda>_ _. True"]]]) auto
  show ?thesis
    using assms w by (simp add: connect_setup_def wp_bind_getM wp_retM calm.refl)
qed

lemma rotation_rotate: "map ((!) xs) (rotation s (length xs)) = rotate s xs"
  by (rule nth_equalityI) (auto simp: rotation_def nth_rotate)

lemma retrieve_stops: "stops {Blocked} idx_cache_retrieve"
  unfolding idx_cache_retrieve_def cached_address_def failover_start_def set_parent_def lock_def unlock_def
  by (auto intro!: stops_rules frame_intros split: failover.split option.split)

lemma wp_start:
  "wp (if al_num (connect_addr c) = 1 then retM 0 else idx_cache_retrieve)
     (\<lambda>s c'. steady c c' \<and> (\<not> ssl c \<and> o_failover (opt c) = FAILOVER_PRIO \<longrightarrow> s = 0)) (\<lambda>k _. k = Blocked) c"
proof -
  have "wp idx_cache_retrieve (\<lambda>_. steady c) (\<lambda>_ _. True) c"
    by (rule wp_keeps [OF steady_idx_cache_retrieve]) auto
  from wp_stops [OF retrieve_stops this]
  have "wp idx_cache_retrieve (\<lambda>_. steady c) (\<lambda>k _. k = Blocked) c" by (rule wp_mono) auto
  note a = this
  have b: "wp idx_cache_retrieve (\<lambda>s _. s = 0) (\<lambda>k _. k = Blocked) c" if "\<not> ssl c \<and> o_failover (opt c) = FAILOVER_PRIO"
    using that by (simp add: idx_cache_retrieve_def cached_address_def failover_start_def wp_bindM wp_getM wp_retM)
  have "wp idx_cache_retrieve
      (\<lambda>s c'. steady c c' \<and> (\<not> ssl c \<and> o_failover (opt c) = FAILOVER_PRIO \<longrightarrow> s = 0)) (\<lambda>k _. k = Blocked) c"
  proof (cases "\<not> ssl c \<and> o_failover (opt c) = FAILOVER_PRIO")
    case True
    from wp_conj [OF a b [OF True]] show ?thesis by (rule wp_mono) auto
  next
    case False
    from a show ?thesis by (rule wp_mono) (use False in auto)
  qed
  then show ?thesis by (simp add: wp_retM steady.refl)
qed

text \<open>\<open>turns s n c c'\<close>: of the addresses in their order from \<open>s\<close> on, the first \<open>n\<close> were attempted.\<close>

definition turns :: "nat \<Rightarrow> nat \<Rightarrow> cli \<Rightarrow> cli \<Rightarrow> bool" where
  "turns s n c c' \<longleftrightarrow> attempts c' = attempts c @ take n (rotate s (al_addr (connect_addr c'))) \<and>
     (\<not> ssl c \<and> o_failover (opt c) = FAILOVER_PRIO \<longrightarrow> s = 0)"

lemma connect_remote_turns:
  assumes "sockets_open c" "\<not> o_transparent_dst (opt c)"
  shows "wp connect_remote
     (\<lambda>_ c'. \<exists>s n. n < al_num (connect_addr c') \<and> idx c' = (s + n) mod al_num (connect_addr c') \<and> turns s (Suc n) c c')
     (\<lambda>k c'. jumps k \<longrightarrow> (\<exists>s. turns s (al_num (connect_addr c')) c c')) c"
    (is "wp _ ?Q ?E c")
proof -
  have body: "wp (bindM (if al_num (connect_addr c1) = 1 then retM 0 else idx_cache_retrieve)
      (\<lambda>start. try_addresses (rotation start (al_num (connect_addr c1))))) ?Q ?E c1" if "calm c c1" for c1
    unfolding wp_bindM
  proof (rule wp_mono [OF wp_start])
    fix s :: nat and c2
    let ?as = "al_addr (connect_addr c1)"
    assume s: "steady c1 c2 \<and> (\<not> ssl c1 \<and> o_failover (opt c1) = FAILOVER_PRIO \<longrightarrow> s = 0)"
    then have c2: "sockets_open c2" "al_addr (connect_addr c2) = ?as" "attempts c2 = attempts c"
      and s0: "\<not> ssl c \<and> o_failover (opt c) = FAILOVER_PRIO \<longrightarrow> s = 0"
      using assms(1) that by (auto simp: steady_def calm_def sockets_open_def)
    have t: "turns s n c c'" if "went (map ((!) ?as) (take n (rotation s (length ?as)))) c2 c'" for n c'
      using that c2 s0 by (simp add: went_def goes_def turns_def take_map [symmetric] rotation_rotate attempts_def)
    have "al_addr (connect_addr c') = ?as" if "went as c2 c'" for as c'
      using that c2 by (simp add: went_def goes_def)
    note as = this
    have len: "length (rotation s n) = n" "k < n \<Longrightarrow> rotation s n ! k = (s + k) mod n" for n k
      by (simp_all add: rotation_def)
    have "wp (try_addresses (rotation s (length ?as))) ?Q ?E c2"
    proof (rule wp_mono [OF try_addresses_goes [OF c2(1)]], unfold c2(2) len(1))
      fix c' assume "\<exists>n < length ?as. idx c' = rotation s (length ?as) ! n \<and>
        went (map ((!) ?as) (take (Suc n) (rotation s (length ?as)))) c2 c'"
      then obtain n where n: "n < length ?as" "idx c' = rotation s (length ?as) ! n"
        "went (map ((!) ?as) (take (Suc n) (rotation s (length ?as)))) c2 c'" by blast
      show "?Q f c'" for f
        using t [OF n(3)] n(1,2) as [OF n(3)] len(2) [OF n(1)] by (auto simp: al_num_def)
    next
      fix k c' assume w: "jumps k \<longrightarrow> went (map ((!) ?as) (rotation s (length ?as))) c2 c'"
      show "?E k c'"
      proof
        assume "jumps k"
        with w have w: "went (map ((!) ?as) (take (length ?as) (rotation s (length ?as)))) c2 c'" by (simp add: len)
        show "\<exists>s. turns s (al_num (connect_addr c')) c c'"
          using t [OF w] as [OF w] by (auto simp: al_num_def)
      qed
    qed
    then show "wp (try_addresses (rotation s (al_num (connect_addr c1)))) ?Q ?E c2"
      by (simp only: al_num_def)
  qed auto
  have none: "\<exists>s. turns s (al_num (connect_addr c1)) c c1" if "calm c c1" "al_addr (connect_addr c1) = []" for c1
    using that by (auto simp: turns_def calm_def al_num_def)
  show ?thesis
    unfolding connect_remote_def wp_seqM
  proof (rule wp_mono [OF wp_connect_setup [OF assms(2)]])
    fix c1 assume "calm c c1"
    then show "wp (bindM (getM (\<lambda>c. al_num (connect_addr c))) (\<lambda>num. if num = 0 then stopM (Longjmp 1)
       else bindM (if num = 1 then retM 0 else idx_cache_retrieve) (\<lambda>start. try_addresses (rotation start num)))) ?Q ?E c1"
      using none [of c1] body [of c1] by (simp add: wp_bind_getM wp_stopM al_num_def)
  qed auto
qed

section \<open>Who is at the other end\<close>

lemma strchr_iff: "strchr s ch = Some t \<longleftrightarrow> (\<exists>p r. t = ch # r \<and> s = p @ ch # r \<and> ch \<notin> set p)"
proof
  assume "strchr s ch = Some t"
  from strchr_split [OF this] show "\<exists>p r. t = ch # r \<and> s = p @ ch # r \<and> ch \<notin> set p"
    by (intro exI [of _ "takeWhile (\<lambda>x. x \<noteq> ch) s"] exI [of _ "tl t"]) (auto dest: set_takeWhileD)
next
  have "strchr (p @ ch # r) ch = Some (ch # r)" if "ch \<notin> set p" for p r
    using that by (induction p) auto
  then show "\<exists>p r. t = ch # r \<and> s = p @ ch # r \<and> ch \<notin> set p \<Longrightarrow> strchr s ch = Some t" by auto
qed

text \<open>The answers \<open>ident_user\<close> understands, those of RFC 1413: ports, \<open>USERID\<close>, the system, the user.\<close>

lemma ident_user_iff:
  "ident_user line = Some u \<longleftrightarrow> (\<exists>ports opsys rest.
     line = ports @ '':'' @ '' USERID '' @ '':'' @ opsys @ '':'' @ rest \<and>
     CHR '':'' \<notin> set ports \<and> CHR '':'' \<notin> set opsys \<and> u = dropWhile (\<lambda>x. x = CHR '' '') rest)"
proof
  assume "ident_user line = Some u"
  then obtain t s r where t: "strchr line CHR '':'' = Some t" and s: "strchr (tl t) CHR '':'' = Some s"
    and key: "takeWhile (\<lambda>x. x \<noteq> CHR '':'') (tl t) = '' USERID ''" and r: "strchr (tl s) CHR '':'' = Some r"
    and u: "u = dropWhile (\<lambda>x. x = CHR '' '') (tl r)"
    by (auto simp: ident_user_def split: option.splits if_splits)
  from t obtain ports t' where 1: "t = CHR '':'' # t'" "line = ports @ CHR '':'' # t'" "CHR '':'' \<notin> set ports"
    unfolding strchr_iff by auto
  from s obtain s' where 2: "s = CHR '':'' # s'" "t' = '' USERID '' @ CHR '':'' # s'"
    using strchr_split [OF s] key unfolding strchr_iff 1(1) by auto
  from r obtain opsys r' where 3: "r = CHR '':'' # r'" "s' = opsys @ CHR '':'' # r'" "CHR '':'' \<notin> set opsys"
    unfolding strchr_iff 2(1) by auto
  show "\<exists>ports opsys rest. line = ports @ '':'' @ '' USERID '' @ '':'' @ opsys @ '':'' @ rest \<and>
     CHR '':'' \<notin> set ports \<and> CHR '':'' \<notin> set opsys \<and> u = dropWhile (\<lambda>x. x = CHR '' '') rest"
    by (intro exI [of _ ports] exI [of _ opsys] exI [of _ r']) (simp add: 1 2(2) 3 u)
next
  assume "\<exists>ports opsys rest. line = ports @ '':'' @ '' USERID '' @ '':'' @ opsys @ '':'' @ rest \<and>
     CHR '':'' \<notin> set ports \<and> CHR '':'' \<notin> set opsys \<and> u = dropWhile (\<lambda>x. x = CHR '' '') rest"
  then obtain ports opsys rest where l: "line = ports @ CHR '':'' # '' USERID '' @ CHR '':'' # opsys @ CHR '':'' # rest"
     "CHR '':'' \<notin> set ports" "CHR '':'' \<notin> set opsys" "u = dropWhile (\<lambda>x. x = CHR '' '') rest" by auto
  have at: "strchr (p @ CHR '':'' # r) CHR '':'' = Some (CHR '':'' # r)" if "CHR '':'' \<notin> set p" for p r
    using that by (auto simp: strchr_iff)
  show "ident_user line = Some u"
    using at [OF l(2)] at [OF l(3)] by (simp add: ident_user_def l(1,4))
qed

lemma flow_tmp [simp]: "flow c m (c1\<lparr>tmp_fd := f\<rparr>) = flow c m c1"
  by (simp add: flow_def stream_def)

lemma hush_calls:
  "keeps hush (s_socket d)" "keeps hush (s_connect a)" "keeps hush (closesocket f)"
  unfolding s_socket_def setup_fd_def s_connect_def closesocket_def poll_init_def poll_add_def s_poll_wait_def get_socket_error_def
  by (auto intro!: hush.rules hush.modM frame_intros hush_fds simp: quiet_def Let_def)

text \<open>A client that \<open>auth_user\<close> lets through is the configured user: the IDENT server said so.\<close>

lemma auth_user_asks:
  assumes ok: "os_ok (os (env c))" and n: "o_username (opt c) = Some name" "sa_family (peer_addr c) \<noteq> 1"
  shows "wp auth_user (\<lambda>_ c'. \<exists>f line w. flow c (adding (adding nothing (Out f) (as_line (ident_query c))) (In f) w) c' \<and>
      wire_line line w \<and> ident_user line = Some name) (\<lambda>_ _. True) c" (is "wp _ ?Q _ _")
proof -
  have q: "ident_query c2 = ident_query c" if "peer_addr c2 = peer_addr c" "opt c2 = opt c" for c2
    using that by (simp add: ident_query_def)
  have last: "wp (seqM (closesocket f) (seqM (set_tmp INVALID_SOCKET)
       (if ident_user line = Some name then retM () else stopM (Longjmp 1)))) ?Q (\<lambda>_ _. True) c3"
    if "flow c (adding (adding nothing (Out f) (as_line (ident_query c))) (In f) w) c3" "wire_line line w" for f line w c3
    unfolding wp_seqM
    by (rule wp_flow_hush [OF hush_calls(3) that(1)])
      (use that(2) in \<open>auto simp: set_tmp_def wp_modM wp_if wp_retM wp_stopM\<close>)
  have ask: "wp (bindM (getM ident_query) (\<lambda>query. seqM (fd_putline f query) (bindM (fd_getline f) (\<lambda>line.
       seqM (closesocket f) (seqM (set_tmp INVALID_SOCKET)
         (if ident_user line = Some name then retM () else stopM (Longjmp 1))))))) ?Q (\<lambda>_ _. True) c2"
    if "flow c nothing c2" "peer_addr c2 = peer_addr c" "opt c2 = opt c" for f c2
    unfolding wp_bind_getM wp_seqM [of "fd_putline f l" for l] wp_bindM [of "fd_getline f"] q [OF that(2,3)]
    by (rule wp_putline [OF ok that(1)], rule wp_getline [OF ok], assumption, rule last) simp_all
  have check: "wp (ident_check name (peer_addr c) f) ?Q (\<lambda>_ _. True) c1"
    if c1: "flow c nothing c1" "peer_addr c1 = peer_addr c" "opt c1 = opt c" for f c1
    unfolding ident_check_def wp_bindM [of "sys x" for x] wp_bindM [of "s_connect x" for x]
    by (rule wp_flow_hush [OF hush.sys c1(1)], simp add: quiet_def, rule wp_flow_hush [OF hush_calls(2)], assumption)
      (auto simp: wp_if wp_stopM io_le_fields c1 intro!: ask)
  show ?thesis
    using n unfolding auth_user_def
    by (auto simp: wp_bind_getM wp_bindM [of "s_socket d" for d] wp_seqM set_tmp_def wp_modM wp_if wp_stopM io_le_fields
        intro!: check wp_flow_hush [OF hush_calls(1) flow_refl])
qed

end
