(* ===== verification/Redirect.thy ===== *)
theory Redirect
  imports Failover
begin

text \<open>
  What becomes of a peer whose certificate is not accepted: it is refused or gets to the redirection target
  only.
\<close>

section \<open>Verdicts\<close>

text \<open>The requests made from \<open>c\<close> to \<open>c'\<close>.\<close>

definition since :: "cli \<Rightarrow> cli \<Rightarrow> (req \<times> ans) list" where
  "since c c' = drop (length (trace (env c))) (trace (env c'))"

text \<open>A certificate of the peer was rejected in a handshake, or it had none.\<close>

fun refusal :: "req \<times> ans \<Rightarrow> bool" where
  "refusal (Ssl_handshake b, x) = (a_val x \<noteq> 0)"
| "refusal (q, x) = False"

fun no_cert :: "req \<times> ans \<Rightarrow> bool" where
  "no_cert (Ssl_peer_cert, x) = (a_ret x = 0)"
| "no_cert (q, x) = True"

definition rejected :: "cli \<Rightarrow> cli \<Rightarrow> bool" where
  "rejected c c' \<longleftrightarrow> list_ex refusal (since c c')"

definition certless :: "cli \<Rightarrow> cli \<Rightarrow> bool" where
  "certless c c' \<longleftrightarrow> list_all no_cert (since c c')"

lemma since_refl [simp]: "since c c = []"
  by (simp add: since_def)

lemma since_trans: "moves a b \<Longrightarrow> moves b c \<Longrightarrow> since a c = since a b @ since b c"
  by (auto simp: since_def moves_def env_le_def)

lemma since_env_step [simp]: "since c (env_step q c) = [(q, os (env c) (now (env c)) q)]"
  by (simp add: since_def env_step_def)

lemma since_env: "env c' = env c1 \<Longrightarrow> since c c' = since c c1"
  by (simp add: since_def)

text \<open>What decides the connection's fate stays as configured.\<close>

definition settled :: "cli \<Rightarrow> cli \<Rightarrow> bool" where
  "settled c c' \<longleftrightarrow> moves c c' \<and> o_protocol (opt c') = o_protocol (opt c) \<and> o_client (opt c') = o_client (opt c) \<and>
     o_exec_name (opt c') = o_exec_name (opt c) \<and> al_names (o_connect_addr (opt c')) = al_names (o_connect_addr (opt c)) \<and>
     al_addr (o_redirect_addr (opt c')) = al_addr (o_redirect_addr (opt c)) \<and>
     al_names (o_redirect_addr (opt c')) = al_names (o_redirect_addr (opt c))"

text \<open>\<open>minds P c c'\<close>: moreover, every request satisfies \<open>P\<close>.\<close>

definition minds :: "(req \<Rightarrow> bool) \<Rightarrow> cli \<Rightarrow> cli \<Rightarrow> bool" where
  "minds P c c' \<longleftrightarrow> settled c c' \<and> redirect c' = redirect c \<and> list_all (\<lambda>x. P (fst x)) (since c c')"

lemma settled_refl: "settled c c"
  by (simp add: settled_def moves_def env_le_def)

lemma settled_trans: "settled a b \<Longrightarrow> settled b c \<Longrightarrow> settled a c"
  by (auto simp: settled_def intro: mv.trans)

interpretation minds: frame_rel "minds P" P for P
proof unfold_locales
  fix a b c
  assume *: "minds P a b" "minds P b c"
  then have s: "settled a b" "settled b c" by (simp_all add: minds_def)
  then have "settled a c" "moves a b" "moves b c"
    using settled_trans by (blast, simp_all add: settled_def)
  with * show "minds P a c" by (auto simp: minds_def since_trans)
qed (auto simp: minds_def settled_def moves_def env_le_def env_step_def since_def)

lemma minds_modM:
  "env (f c) = env c \<Longrightarrow> opt (f c) = opt c \<Longrightarrow> redirect (f c) = redirect c \<Longrightarrow> minds P c (f c)" for c :: cli
  by (simp add: minds_def settled_def moves_def env_le_def since_def)

lemma minds_opt:
  "env (f c) = env c \<Longrightarrow> settled c (f c) \<Longrightarrow> redirect (f c) = redirect c \<Longrightarrow> minds P c (f c)" for c :: cli
  by (simp add: minds_def since_def)

lemma settled_opt:
  "env (f c) = env c \<Longrightarrow> o_protocol (opt (f c)) = o_protocol (opt c) \<Longrightarrow> o_client (opt (f c)) = o_client (opt c) \<Longrightarrow>
   o_exec_name (opt (f c)) = o_exec_name (opt c) \<Longrightarrow> al_names (o_connect_addr (opt (f c))) = al_names (o_connect_addr (opt c)) \<Longrightarrow>
   al_addr (o_redirect_addr (opt (f c))) = al_addr (o_redirect_addr (opt c)) \<Longrightarrow>
   al_names (o_redirect_addr (opt (f c))) = al_names (o_redirect_addr (opt c)) \<Longrightarrow> settled c (f c)" for c :: cli
  by (simp add: settled_def moves_def env_le_def)

section \<open>The handshake\<close>

definition plain :: "req \<Rightarrow> bool" where
  "plain q \<longleftrightarrow> dialled q = [] \<and> (\<forall>b. q \<noteq> Ssl_handshake b)"

lemma keeps_case: "(o' = None \<Longrightarrow> keeps R m) \<Longrightarrow> (\<And>x. o' = Some x \<Longrightarrow> keeps R (f x)) \<Longrightarrow>
   keeps R (case o' of None \<Rightarrow> m | Some x \<Rightarrow> f x)"
  by (cases o') auto

lemmas mind_rules = minds.rules minds.modM minds_modM minds_opt settled_opt keeps_case

lemma minds_set_parent [frame_intros]:
  assumes "\<And>l. al_names (g l) = al_names l \<and> al_addr (g l) = al_addr l"
  shows "keeps (minds P) (set_parent g)"
  unfolding set_parent_def
proof (rule minds.modM)
  show "minds P c (case al_parent (connect_addr c) of Own \<Rightarrow> c\<lparr>connect_addr := g (connect_addr c)\<rparr>
      | Opt_connect \<Rightarrow> c\<lparr>opt := opt c\<lparr>o_connect_addr := g (o_connect_addr (opt c))\<rparr>\<rparr>
      | Opt_redirect \<Rightarrow> c\<lparr>opt := opt c\<lparr>o_redirect_addr := g (o_redirect_addr (opt c))\<rparr>\<rparr>)" for c
    by (cases "al_parent (connect_addr c)")
      (simp_all add: minds_def settled_def moves_def env_le_def since_def assms)
qed

lemma minds_setup [frame_intros]: "keeps (minds plain) ssl_setup"
  unfolding ssl_setup_def session_cache_retrieve_def lock_def unlock_def
  by (auto intro!: mind_rules frame_intros simp: plain_def)

lemma minds_new_chain [frame_intros]: "keeps (minds plain) new_chain"
  unfolding new_chain_def
  by (auto intro!: mind_rules frame_intros simp: plain_def Let_def)

lemma minds_cache [frame_intros]: "keeps (minds plain) session_cache_save"
  unfolding session_cache_save_def lock_def unlock_def free_session_def
  by (auto intro!: mind_rules frame_intros simp: plain_def Let_def)

lemma minds_handshake_done [frame_intros]: "keeps (minds plain) handshake_done"
  unfolding handshake_done_def by (auto intro!: mind_rules)

lemma minds_poll [frame_intros]:
  "keeps (minds plain) poll_init" "keeps (minds plain) (poll_add f r w)" "keeps (minds plain) (s_poll_wait s t)"
  unfolding poll_init_def poll_add_def s_poll_wait_def by (auto intro!: mind_rules simp: plain_def)

definition quietly :: "cli \<Rightarrow> cli \<Rightarrow> bool" where
  "quietly c c' \<longleftrightarrow> settled c c' \<and> list_all (\<lambda>x. dialled (fst x) = []) (since c c')"

text \<open>The verdict on the peer so far: when a certificate of it was rejected, the connection is redirected.\<close>

definition judged :: "cli \<Rightarrow> cli \<Rightarrow> bool" where
  "judged c c' \<longleftrightarrow> quietly c c' \<and> (rejected c c' \<longrightarrow> o_protocol (opt c) = None \<and> redirect c' = REDIRECT_ON)"

lemma settled_moves: "settled c c' \<Longrightarrow> moves c c'"
  by (simp add: settled_def)

lemma since_settled: "settled a b \<Longrightarrow> settled b c \<Longrightarrow> since a c = since a b @ since b c"
  by (rule since_trans) (simp_all add: settled_moves)

lemma quietly_trans: "quietly a b \<Longrightarrow> quietly b c \<Longrightarrow> quietly a c"
  by (auto simp: quietly_def since_settled intro: settled_trans)

lemma minds_quietly: "minds plain c c' \<Longrightarrow> quietly c c'"
  by (auto simp: minds_def quietly_def plain_def elim!: list.pred_mono_strong)

lemma plain_refusal: "plain (fst x) \<Longrightarrow> \<not> refusal x"
  by (cases x rule: refusal.cases) (auto simp: plain_def)

lemma plain_no_refusal: "list_all (\<lambda>x. plain (fst x)) xs \<Longrightarrow> \<not> list_ex refusal xs"
  by (induction xs) (auto simp: plain_refusal)

lemma quietly_refl: "quietly c c"
  by (simp add: quietly_def settled_refl)

lemma judged_minds:
  assumes "judged c c1" "minds plain c1 c2"
  shows "judged c c2"
proof -
  have "quietly c c2" using assms by (auto simp: judged_def intro: quietly_trans minds_quietly)
  moreover have "rejected c c2 \<Longrightarrow> rejected c c1"
    using assms since_settled [of c c1 c2] by (simp add: rejected_def judged_def quietly_def minds_def plain_no_refusal)
  ultimately show ?thesis using assms by (auto simp: judged_def minds_def)
qed

lemma judged_quietly: "judged c c' \<Longrightarrow> quietly c c'"
  by (simp add: judged_def)

lemma wp_judged:
  assumes "judged c c1" "keeps (minds plain) m"
    and "\<And>a c2. judged c c2 \<Longrightarrow> minds plain c1 c2 \<Longrightarrow> Q a c2" "\<And>k c2. quietly c c2 \<Longrightarrow> E k c2"
  shows "wp m Q E c1"
  using assms(2) by (rule wp_keeps) (auto intro: assms(3,4) judged_minds [OF assms(1)] judged_quietly)

lemma wp_ssl_sys:
  "wp (ssl_sys q) Q E c = wp (sys q) (\<lambda>a c. wp (retM a) Q E (c\<lparr>ssl_sent := a_sent a, ssl_rcvd := a_rcvd a,
     reneg_state := (if a_reneg a \<and> reneg_state c = RENEG_ESTABLISHED then RENEG_DETECTED else reneg_state c)\<rparr>)) E c"
  unfolding ssl_sys_def wp_bindM wp_seqM wp_modM ..

lemma verify_callback_rejects:
  "verify_callback z False rd = (True, rd') \<Longrightarrow> o_protocol z = None \<and> rd' = REDIRECT_ON"
  by (auto simp: verify_callback_def split: if_splits)

lemma env_step_rest [simp]: "redirect (env_step q c) = redirect c" "opt (env_step q c) = opt c"
  "connect_addr (env_step q c) = connect_addr c"
  by (simp_all add: env_step_def)

lemma stepped:
  assumes "env c' = env (env_step q c)" "opt c' = opt c" "now (env c) < horizon (env c)"
  shows "since c c' = [(q, os (env c) (now (env c)) q)]" "settled c c'"
proof -
  show "since c c' = [(q, os (env c) (now (env c)) q)]"
    using since_env_step [of c q] by (simp only: since_env [OF assms(1)])
  have "moves c c'" using assms(1,3) by (simp add: moves_def env_le_def env_step_def)
  then show "settled c c'" by (simp add: settled_def assms(2))
qed

lemma judged_handshake:
  assumes j: "judged c c1" and s: "settled c1 c2" and n: "since c1 c2 = [(Ssl_handshake b, a)]"
    and bad: "a_val a \<noteq> 0 \<Longrightarrow> o_protocol (opt c1) = None \<and> redirect c2 = REDIRECT_ON"
    and good: "a_val a = 0 \<Longrightarrow> redirect c2 = redirect c1"
  shows "judged c c2"
proof -
  have q: "quietly c c1" and s1: "settled c c1" using j by (simp_all add: judged_def quietly_def)
  have "quietly c1 c2" using s n by (simp add: quietly_def)
  from quietly_trans [OF q this] have "quietly c c2" .
  moreover have "since c c2 = since c c1 @ [(Ssl_handshake b, a)]"
    using since_settled [OF s1 s] n by simp
  moreover have "o_protocol (opt c1) = o_protocol (opt c)" using s1 by (simp add: settled_def)
  ultimately show ?thesis
    using j bad good by (cases "a_val a = 0") (auto simp: judged_def rejected_def)
qed

lemma handshake_judged:
  assumes "judged c c1"
  shows "wp handshake (\<lambda>_. judged c) (\<lambda>_. quietly c) c1"
proof -
  let ?after = "\<lambda>a z. if a_ssl a = SSL_NONE then retM (Inl ())
     else if a_ssl a = SSL_WANT_READ \<or> a_ssl a = SSL_WANT_WRITE then
       seqM poll_init
       (bindM (getM (\<lambda>c. fd (get_fd c (ssl_rfd c)))) (\<lambda>f.
        seqM (poll_add f (a_ssl a = SSL_WANT_READ) (a_ssl a = SSL_WANT_WRITE))
        (bindM (s_poll_wait (o_timeout_busy z) 0) (\<lambda>r.
           if r = 1 then retM (Inr ()) else stopM (Longjmp 1)))))
     else if a_ssl a = SSL_SYSCALL \<and> (a_errno a = EINTR \<or> a_errno a = EWOULDBLOCK) then retM (Inr ())
     else stopM (Longjmp 1)"
  have after: "keeps (minds plain) (?after a z)" for a z
    by (auto intro!: mind_rules frame_intros)
  have step: "wp handshake_step (\<lambda>_. judged c) (\<lambda>_. quietly c) c2" if j: "judged c c2" for c2
  proof (cases "now (env c2) < horizon (env c2)")
    case False
    then show ?thesis
      using j by (simp add: handshake_step_def wp_bind_getM wp_bindM [of "ssl_sys q" for q] wp_ssl_sys wp_sys_step
          judged_quietly del: wp_sys)
  next
    case True
    let ?q = "Ssl_handshake (o_client (opt c2))"
    let ?a = "os (env c2) (now (env c2)) ?q"
    obtain ok rd where v: "verify_callback (opt c2) (a_val ?a = 0) (redirect c2) = (ok, rd)" by fastforce
    have bad: "o_protocol (opt c2) = None \<and> rd = REDIRECT_ON" if "a_val ?a \<noteq> 0" "ok"
      using verify_callback_rejects [of "opt c2" "redirect c2" rd] v that by simp
    have good: "rd = redirect c2" if "a_val ?a = 0"
      using v that by (simp add: verify_callback_def)
    have quiet: "quietly c c3" if "env c3 = env (env_step ?q c2)" "opt c3 = opt c2" for c3 :: cli
      by (rule quietly_trans [OF judged_quietly [OF j]]) (simp add: quietly_def stepped [OF that True])
    have asked: "judged c c3" if "env c3 = env (env_step ?q c2)" "opt c3 = opt c2" "redirect c3 = rd" "ok" for c3 :: cli
      by (rule judged_handshake [OF j stepped(2,1) [OF that(1,2) True]]) (simp_all add: bad good that(3,4))
    have rest: "wp (?after a z) (\<lambda>_. judged c) (\<lambda>_. quietly c) c3" if "judged c c3" for a z c3
      by (rule wp_judged [OF that after])
    have cont: "wp (let (accepted, rd') = verify_callback (opt c2) (a_val ?a = 0) (redirect c3)
        in seqM (modM (\<lambda>c. c\<lparr>redirect := rd'\<rparr>)) (if \<not> accepted then stopM (Longjmp 1) else ?after ?a (opt c2)))
        (\<lambda>_. judged c) (\<lambda>_. quietly c) c3"
      if "env c3 = env (env_step ?q c2)" "opt c3 = opt c2" "redirect c3 = redirect c2" for c3 :: cli
    proof (cases ok)
      case True
      have "judged c (c3\<lparr>redirect := rd\<rparr>)" by (rule asked) (simp_all add: that True)
      from rest [OF this] True show ?thesis
        unfolding that(3) v Let_def prod.case wp_seqM wp_modM by (simp only: simp_thms if_False)
    next
      case False
      have "quietly c (c3\<lparr>redirect := rd\<rparr>)" by (rule quiet) (simp_all add: that)
      then show ?thesis
        using False unfolding that(3) v Let_def prod.case wp_seqM wp_modM by (simp add: wp_stopM)
    qed
    show ?thesis
      unfolding handshake_step_def wp_bind_getM wp_bindM [of "ssl_sys q" for q] wp_ssl_sys wp_sys_step wp_retM if_P [OF True]
      by (rule cont) simp_all
  qed
  show ?thesis
    unfolding handshake_def wp_seqM
  proof (rule wp_mono)
    show "wp (loopM (\<lambda>_. handshake_step) ()) (\<lambda>_. judged c) (\<lambda>_. quietly c) c1"
      by (rule wp_loopM [where I = "\<lambda>_. judged c"])
        (auto intro: assms judged_quietly wp_mono [OF step] split: sum.split)
  qed (auto intro!: wp_judged minds_handshake_done)
qed

section \<open>After the handshake\<close>

text \<open>\<open>found c c'\<close>: the verdict, that on a peer without a certificate included.\<close>

definition found :: "cli \<Rightarrow> cli \<Rightarrow> bool" where
  "found c c' \<longleftrightarrow> judged c c' \<and>
     (certless c c' \<and> al_names (o_redirect_addr (opt c)) \<noteq> [] \<longrightarrow> redirect c' = REDIRECT_ON)"

lemma judged_on: "judged c c1 \<Longrightarrow> judged c (c1\<lparr>redirect := REDIRECT_ON\<rparr>)"
  by (auto simp: judged_def quietly_def settled_def moves_def rejected_def since_def)

lemma judged_settled: "judged c c' \<Longrightarrow> settled c c'"
  by (simp add: judged_def quietly_def)

lemma found_minds:
  assumes "found c c1" "minds plain c1 c2"
  shows "found c c2"
proof -
  have "since c c2 = since c c1 @ since c1 c2"
    using assms by (intro since_settled) (auto simp: found_def minds_def judged_settled)
  then show ?thesis
    using assms judged_minds by (auto simp: found_def certless_def minds_def)
qed

lemma found_quietly: "found c c' \<Longrightarrow> quietly c c'"
  by (simp add: found_def judged_quietly)

lemma session_start_found:
  assumes fresh: "\<And>n. a_ret (os (env c) n Ssl_session_reused) = 0" and j: "judged c c1"
  shows "wp session_start (\<lambda>_. found c) (\<lambda>_. quietly c) c1"
proof -
  let ?tail = "\<lambda>z. bindM (sys Ssl_get_session) (\<lambda>s.
        seqM (modM (\<lambda>c. c\<lparr>sess_redirect := (sess_redirect c)(nat (a_val s) := redirect c)\<rparr>))
          (if o_client z then session_cache_save
           else bindM (sys Ssl_get_session) (\<lambda>s2.
             bindM (sys (Ssl_ctx_add_session (nat (a_val s2)))) (\<lambda>_. retM ()))))"
  have m: "keeps (minds plain) (?tail z)" for z
    by (auto intro!: mind_rules frame_intros simp: plain_def)
  have tail: "wp (?tail z) (\<lambda>_. found c) (\<lambda>_. quietly c) c4" if "found c c4" for z c4
    by (rule wp_keeps [OF m])
      (auto intro: found_minds [OF that] found_quietly [OF found_minds [OF that]])
  have cert: "found c (if a_ret p = 0 \<and> al_names (o_redirect_addr z) \<noteq> [] then (env_step Ssl_peer_cert c2)\<lparr>redirect := REDIRECT_ON\<rparr>
      else env_step Ssl_peer_cert c2)"
    if c2: "judged c c2" "now (env c2) < horizon (env c2)" "p = os (env c2) (now (env c2)) Ssl_peer_cert" "z = opt c1" for c2 p z
  proof -
    let ?c = "env_step Ssl_peer_cert c2"
    have m: "minds plain c2 ?c" by (rule minds.env_step) (simp_all add: plain_def c2(2))
    have jj: "judged c ?c" by (rule judged_minds [OF c2(1) m])
    have "since c ?c = since c c2 @ since c2 ?c"
      using c2(1) m by (intro since_settled) (auto simp: minds_def judged_settled)
    then have certless: "certless c ?c \<Longrightarrow> a_ret p = 0" by (simp add: certless_def c2(3))
    have names: "al_names (o_redirect_addr z) = al_names (o_redirect_addr (opt c))"
      using judged_settled [OF j] c2(4) by (simp add: settled_def)
    show ?thesis
      using jj judged_on [OF jj] certless by (auto simp: found_def names)
  qed
  have check: "wp (bindM (sys Ssl_peer_cert) (\<lambda>p.
       seqM (whenM (a_ret p = 0 \<and> al_names (o_redirect_addr z) \<noteq> []) (modM (\<lambda>c. c\<lparr>redirect := REDIRECT_ON\<rparr>))) (?tail z)))
      (\<lambda>_. found c) (\<lambda>_. quietly c) c2" if c2: "judged c c2" "z = opt c1" for c2 z
  proof (cases "now (env c2) < horizon (env c2)")
    case True
    have w: "wp (seqM (whenM b (modM (\<lambda>c. c\<lparr>redirect := REDIRECT_ON\<rparr>))) (?tail z)) (\<lambda>_. found c) (\<lambda>_. quietly c) c3"
      if "found c (if b then c3\<lparr>redirect := REDIRECT_ON\<rparr> else c3)" for b c3
      using tail [OF that] unfolding wp_seqM wp_whenM wp_modM by (cases b) (simp_all only: if_True if_False)
    show ?thesis
      unfolding wp_bindM wp_sys_step if_P [OF True] by (rule w [OF cert [OF c2(1) True refl c2(2)]])
  next
    case False
    show ?thesis
      unfolding wp_bindM wp_sys_step if_not_P [OF False] by (rule judged_quietly [OF c2(1)])
  qed
  have new: "wp (seqM new_chain (bindM (sys Ssl_peer_cert) (\<lambda>p.
       seqM (whenM (a_ret p = 0 \<and> al_names (o_redirect_addr z) \<noteq> []) (modM (\<lambda>c. c\<lparr>redirect := REDIRECT_ON\<rparr>))) (?tail z))))
      (\<lambda>_. found c) (\<lambda>_. quietly c) c2" if "judged c c2" "z = opt c1" for c2 z
    unfolding wp_seqM [of new_chain] by (rule wp_judged [OF that(1) minds_new_chain]) (simp_all only: check that(2))
  show ?thesis
  proof (cases "now (env c1) < horizon (env c1)")
    case True
    let ?c = "env_step Ssl_session_reused c1"
    have m: "minds plain c1 ?c" by (rule minds.env_step) (simp_all add: plain_def True)
    have "os (env c1) = os (env c)"
      using judged_settled [OF j] by (simp add: settled_def moves_def env_le_def)
    then have "a_ret (os (env c1) (now (env c1)) Ssl_session_reused) = 0" by (simp add: fresh)
    then show ?thesis
      using new [OF judged_minds [OF j m] refl]
      unfolding session_start_def wp_bind_getM wp_bindM [of "sys Ssl_session_reused"] wp_sys_step if_P [OF True]
      by (simp only: simp_thms if_False)
  next
    case False
    show ?thesis
      unfolding session_start_def wp_bind_getM wp_bindM [of "sys Ssl_session_reused"] wp_sys_step if_not_P [OF False]
      by (intro judged_quietly j)
  qed
qed

lemma ssl_start_found:
  assumes fresh: "\<And>n. a_ret (os (env c) n Ssl_session_reused) = 0"
  shows "wp ssl_start (\<lambda>_. found c) (\<lambda>_. quietly c) c"
proof -
  have "judged c c" by (simp add: judged_def quietly_refl rejected_def)
  then show ?thesis
    unfolding ssl_start_def wp_seqM
    by (rule wp_judged [OF _ minds_setup])
      (auto intro!: wp_mono [OF handshake_judged] session_start_found fresh)
qed

section \<open>Where it may go\<close>

text \<open>Connections are attempted to addresses of \<open>R\<close> only, and the addresses to try stay the same.\<close>

definition aim :: "sockaddr set \<Rightarrow> cli \<Rightarrow> cli \<Rightarrow> bool" where
  "aim R c c' \<longleftrightarrow> minds (\<lambda>q. set (dialled q) \<subseteq> R) c c' \<and> al_addr (connect_addr c') = al_addr (connect_addr c)"

interpretation aim: frame_rel "aim R" "\<lambda>q. set (dialled q) \<subseteq> R" for R
proof unfold_locales
  fix a b c
  show "aim R a b \<Longrightarrow> aim R b c \<Longrightarrow> aim R a c"
    by (auto simp: aim_def intro: minds.trans)
qed (auto simp: aim_def intro: minds.refl minds.env_step minds.ssl_step)

lemma aim_modM:
  "env (f c) = env c \<Longrightarrow> opt (f c) = opt c \<Longrightarrow> redirect (f c) = redirect c \<Longrightarrow>
   al_addr (connect_addr (f c)) = al_addr (connect_addr c) \<Longrightarrow> aim R c (f c)" for c :: cli
  by (simp add: aim_def minds_modM)

lemmas aim_rules = aim.rules aim.modM aim_modM keeps_case

lemma aim_set_rr: "keeps (aim R) (set_parent (\<lambda>l. l\<lparr>al_rr := n\<rparr>))"
  unfolding set_parent_def
proof (rule aim.modM)
  show "aim R c (case al_parent (connect_addr c) of Own \<Rightarrow> c\<lparr>connect_addr := connect_addr c\<lparr>al_rr := n\<rparr>\<rparr>
      | Opt_connect \<Rightarrow> c\<lparr>opt := opt c\<lparr>o_connect_addr := o_connect_addr (opt c)\<lparr>al_rr := n\<rparr>\<rparr>\<rparr>
      | Opt_redirect \<Rightarrow> c\<lparr>opt := opt c\<lparr>o_redirect_addr := o_redirect_addr (opt c)\<lparr>al_rr := n\<rparr>\<rparr>\<rparr>)" for c
    by (cases "al_parent (connect_addr c)")
      (simp_all add: aim_def minds_def settled_def moves_def env_le_def since_def)
qed

lemma aim_io [frame_intros]:
  "keeps (aim R) (closesocket f)" "keeps (aim R) poll_init" "keeps (aim R) (poll_add f r w)"
  "keeps (aim R) (lock l)" "keeps (aim R) (unlock l)" "keeps (aim R) (set_tmp f)" "keeps (aim R) (s_poll_wait s t)"
  unfolding closesocket_def poll_init_def poll_add_def lock_def unlock_def set_tmp_def s_poll_wait_def
  by (auto intro!: aim_rules)

lemma aim_calls [frame_intros]:
  "keeps (aim R) (get_socket_error f)" "keeps (aim R) (s_socket d)" "keeps (aim R) (s_ntop a k)"
  "keeps (aim R) close_tmp" "keeps (aim R) (set_socket_options f k)"
  unfolding get_socket_error_def setup_fd_def s_ntop_def close_tmp_def s_socket_def set_socket_options_def
  by (auto intro!: aim_rules frame_intros simp: Let_def split: prod.split)

lemma aim_s_connect: "a \<in> R \<Longrightarrow> keeps (aim R) (s_connect a)"
  unfolding s_connect_def by (auto intro!: aim_rules frame_intros)

lemma aim_connect_one: "a \<in> R \<Longrightarrow> keeps (aim R) (connect_one a)"
  unfolding connect_one_def connect_init_def socket_bound_def bind_local_def
  by (auto intro!: aim_rules aim_s_connect frame_intros simp: Let_def)

lemma aim_after [frame_intros]:
  "keeps (aim R) (idx_cache_save a)" "keeps (aim R) print_bound_address" "keeps (aim R) idx_cache_retrieve"
  unfolding idx_cache_save_def print_bound_address_def idx_cache_retrieve_def cached_address_def failover_start_def
  by (auto intro!: aim_rules frame_intros aim_set_rr split: failover.split)

lemma wp_aim:
  assumes "aim R c0 c" "keeps (aim R) m" "\<And>a c'. aim R c0 c' \<Longrightarrow> Q a c'" "\<And>k c'. aim R c0 c' \<Longrightarrow> E k c'"
  shows "wp m Q E c"
  using assms(2) by (rule wp_keeps) (auto intro: assms(3,4) aim.trans [OF assms(1)])

lemma try_addresses_aim:
  assumes "set (al_addr (connect_addr c0)) \<subseteq> R" "\<forall>i \<in> set is. i < length (al_addr (connect_addr c0))" "aim R c0 c"
  shows "wp (try_addresses is) (\<lambda>_. aim R c0) (\<lambda>_. aim R c0) c"
  using assms(2,3)
proof (induction "is" arbitrary: c)
  case Nil
  then show ?case by (simp add: wp_stopM)
next
  case (Cons i "is")
  let ?a = "al_addr (connect_addr c) ! i"
  have a: "?a \<in> R" using Cons.prems assms(1) by (auto simp: aim_def)
  have m: "keeps (aim R) (modM (\<lambda>c. c\<lparr>idx := i\<rparr>))" by (auto intro!: aim_rules)
  have up: "keeps (aim R) (bindM (getM ssl) (\<lambda>tls. seqM (whenM tls (idx_cache_save a)) (seqM print_bound_address
         (bindM (getM tmp_fd) (\<lambda>f. seqM (set_tmp INVALID_SOCKET) (retM f))))))" for a
    by (auto intro!: aim_rules frame_intros)
  have down: "wp (seqM close_tmp (try_addresses is)) (\<lambda>_. aim R c0) (\<lambda>_. aim R c0) c1" if "aim R c0 c1" for c1
    unfolding wp_seqM by (rule wp_aim [OF that]) (use Cons.prems(1) in \<open>auto intro!: aim_calls Cons.IH\<close>)
  have one: "wp (bindM (connect_one b) (\<lambda>up. if up then bindM (getM ssl) (\<lambda>tls. seqM (whenM tls (idx_cache_save b))
      (seqM print_bound_address (bindM (getM tmp_fd) (\<lambda>f. seqM (set_tmp INVALID_SOCKET) (retM f)))))
      else seqM close_tmp (try_addresses is))) (\<lambda>_. aim R c0) (\<lambda>_. aim R c0) c1" if "aim R c0 c1" "b \<in> R" for b c1
    unfolding wp_bindM [of "connect_one b"]
    by (rule wp_aim [OF that(1) aim_connect_one [OF that(2)]]) (auto intro: down wp_aim [OF _ up])
  show ?case
    unfolding try_addresses.simps wp_seqM [of "modM g" for g] wp_bind_getM
  proof (rule wp_aim [OF Cons.prems(2) m])
    fix c1 assume c1: "aim R c0 c1"
    then have "al_addr (connect_addr c1) ! i \<in> R" using Cons.prems(1) assms(1) by (auto simp: aim_def)
    with c1 show "wp (bindM (connect_one (al_addr (connect_addr c1) ! i)) (\<lambda>up. if up then bindM (getM ssl)
       (\<lambda>tls. seqM (whenM tls (idx_cache_save (al_addr (connect_addr c1) ! i)))
      (seqM print_bound_address (bindM (getM tmp_fd) (\<lambda>f. seqM (set_tmp INVALID_SOCKET) (retM f)))))
      else seqM close_tmp (try_addresses is))) (\<lambda>_. aim R c0) (\<lambda>_. aim R c0) c1" by (rule one)
  qed
qed

text \<open>From \<open>c\<close> to \<open>c'\<close> nothing but the redirection target was tried.\<close>

definition deflected :: "cli \<Rightarrow> cli \<Rightarrow> bool" where
  "deflected c c' \<longleftrightarrow> minds (\<lambda>q. set (dialled q) \<subseteq> set (al_addr (o_redirect_addr (opt c)))) c c'"

lemma aim_deflected:
  assumes "deflected c c1" "aim (set (al_addr (o_redirect_addr (opt c)))) c1 c2"
  shows "deflected c c2"
  using assms minds.trans by (auto simp: deflected_def aim_def)

lemma wp_deflected:
  assumes "deflected c c1" "keeps (aim (set (al_addr (o_redirect_addr (opt c))))) m"
    and "\<And>a c'. deflected c c' \<Longrightarrow> Q a c'" "\<And>k c'. deflected c c' \<Longrightarrow> E k c'"
  shows "wp m Q E c1"
  using assms(2) by (rule wp_keeps) (auto intro: assms(3,4) aim_deflected [OF assms(1)])

lemma connect_remote_deflected:
  assumes on: "redirect c = REDIRECT_ON" "al_addr (o_redirect_addr (opt c)) \<noteq> []" and d: "deflected c c1"
  shows "wp connect_remote (\<lambda>_. deflected c) (\<lambda>_. deflected c) c1"
proof -
  let ?as = "al_addr (o_redirect_addr (opt c))" and ?l = "o_redirect_addr (opt c1)"
  let ?c = "c1\<lparr>connect_addr := ?l\<lparr>al_parent := (case al_parent ?l of Own \<Rightarrow> Opt_redirect | p \<Rightarrow> p)\<rparr>\<rparr>"
  have c1: "redirect c1 = REDIRECT_ON" "al_addr ?l = ?as"
    using on d by (simp_all add: deflected_def minds_def settled_def)
  have s: "connect_setup c1 = Ok () ?c"
    using c1 on(2) by (simp add: connect_setup_def addrlist_dup_def al_num_def mdefs)
  have c: "deflected c ?c" "al_addr (connect_addr ?c) = ?as"
    using d minds_modM [of "\<lambda>c1. c1\<lparr>connect_addr := l\<rparr>" c1 for l] minds.trans c1(2) by (fastforce simp: deflected_def)+
  have go: "wp (try_addresses (rotation start (length ?as))) (\<lambda>_. deflected c) (\<lambda>_. deflected c) c2"
    if "aim (set ?as) ?c c2" for start c2
  proof (rule wp_mono)
    show "wp (try_addresses (rotation start (length ?as))) (\<lambda>_. aim (set ?as) ?c) (\<lambda>_. aim (set ?as) ?c) c2"
      by (rule try_addresses_aim [OF _ _ that]) (use on(2) in \<open>auto simp: c1(2) rotation_def\<close>)
  qed (auto intro: aim_deflected [OF c(1)])
  have "keeps (aim (set ?as)) (if length ?as = 1 then retM 0 else idx_cache_retrieve)"
    by (auto intro!: aim_rules frame_intros)
  then have "wp (bindM (if length ?as = 1 then retM 0 else idx_cache_retrieve) (\<lambda>start.
      try_addresses (rotation start (length ?as)))) (\<lambda>_. deflected c) (\<lambda>_. deflected c) ?c"
    unfolding wp_bindM by (rule wp_keeps) (auto intro: go aim_deflected [OF c(1)])
  then show ?thesis
    unfolding connect_remote_def wp_seqM wp_def [of connect_setup] s res.case wp_bind_getM
    using on(2) c(2) by (simp add: al_num_def)
qed

lemma remote_start_deflected:
  assumes on: "redirect c = REDIRECT_ON" "al_addr (o_redirect_addr (opt c)) \<noteq> []"
    and x: "o_exec_name (opt c) = None \<or> al_names (o_connect_addr (opt c)) \<noteq> []"
  shows "wp remote_start (\<lambda>_. deflected c) (\<lambda>_. deflected c) c"
proof -
  have c: "deflected c (c\<lparr>bind_addr := b\<rparr>)" for b
    unfolding deflected_def by (rule minds_modM) simp_all
  have rest: "keeps (aim R) (seqM (modM (\<lambda>c. c\<lparr>remote_fd := (remote_fd c)\<lparr>fd := f\<rparr>\<rparr>))
     (if p then modM (\<lambda>c. c\<lparr>remote_fd := (remote_fd c)\<lparr>is_socket := False\<rparr>\<rparr>)
      else seqM (modM (\<lambda>c. c\<lparr>remote_fd := (remote_fd c)\<lparr>is_socket := True\<rparr>\<rparr>))
        (bindM (set_socket_options f 2) (\<lambda>_. retM ()))))" for R f p
    by (auto intro!: aim_rules frame_intros)
  have "wp (bindM connect_remote (\<lambda>f. seqM (modM (\<lambda>c. c\<lparr>remote_fd := (remote_fd c)\<lparr>fd := f\<rparr>\<rparr>))
     (if p then modM (\<lambda>c. c\<lparr>remote_fd := (remote_fd c)\<lparr>is_socket := False\<rparr>\<rparr>)
      else seqM (modM (\<lambda>c. c\<lparr>remote_fd := (remote_fd c)\<lparr>is_socket := True\<rparr>\<rparr>))
        (bindM (set_socket_options f 2) (\<lambda>_. retM ()))))) (\<lambda>_. deflected c) (\<lambda>_. deflected c) (c\<lparr>bind_addr := b\<rparr>)" for p b
    unfolding wp_bindM [of connect_remote]
    by (rule wp_mono [OF connect_remote_deflected [OF on c]], rule wp_deflected [OF _ rest]) simp_all
  then show ?thesis
    unfolding remote_start_def wp_bind_getM wp_seqM [of "modM (\<lambda>c. c\<lparr>bind_addr := g c\<rparr>)" for g] wp_modM
    using x by (auto simp only: simp_thms if_True if_False)
qed

lemma aim_transfer_parts:
  "keeps (aim R) (update_wants v)" "keeps (aim R) (setup_fds v)" "keeps (aim R) (await_event v)" "keeps (aim R) (retrieve v)"
  "keeps (aim R) (exceptions v)" "keeps (aim R) (hangups v)" "keeps (aim R) check_renegotiation" "keeps (aim R) (send_close_notify v)"
  "keeps (aim R) parse_socket_error" "keeps (aim R) (write_socket v)" "keeps (aim R) (read_socket v)" "keeps (aim R) (write_tls v)"
  "keeps (aim R) (tls_readable v)" "keeps (aim R) (tls_gone a p)" "keeps (aim R) tls_zero_return" "keeps (aim R) (tls_receive v)"
  "keeps (aim R) (check_hangup v)" "keeps (aim R) (close_socket_side v)" "keeps (aim R) (close_tls_side v)" "keeps (aim R) (check_watchdog v)"
  unfolding update_wants_def setup_fds_def await_event_def retrieve_def exceptions_def report_error_def
    hangups_def check_renegotiation_def send_close_notify_def tls_readable_def tls_gone_def
    tls_zero_return_def check_hangup_def close_socket_side_def close_tls_side_def check_watchdog_def
    hung_def drained_def set_shutdown_def parse_socket_error_def write_socket_def read_socket_def
    write_tls_def tls_receive_def
  by (auto intro!: aim_rules frame_intros simp: Let_def split: ssl_error.split)

lemma aim_transfer [frame_intros]: "keeps (aim R) transfer"
  unfolding transfer_def transfer_round_def transfer_work_def transfer_moves_def check_shutdown_def read_tls_def
  by (auto intro!: aim_rules aim_transfer_parts)

lemma no_negotiation: "o_protocol (opt c) = None \<Longrightarrow> ph \<noteq> PROTOCOL_CHECK \<Longrightarrow> negotiation ph c = Ok () c"
  by (simp add: negotiation_def protocol_def mdefs)

lemma unverified_deflected:
  assumes fresh: "\<And>n. a_ret (os (env c) n Ssl_session_reused) = 0" and start: "ssl_start c = Ok () c1"
    and bad: "rejected c c1 \<or> certless c c1 \<and> o_protocol (opt c) = None"
    and target: "al_addr (o_redirect_addr (opt c)) \<noteq> []" "al_names (o_redirect_addr (opt c)) \<noteq> []"
    and x: "o_exec_name (opt c) = None \<or> al_names (o_connect_addr (opt c)) \<noteq> []"
  shows "wp (seqM (negotiation PROTOCOL_MIDDLE) (seqM remote_start (seqM (negotiation PROTOCOL_LATE) transfer)))
     (\<lambda>_. deflected c1) (\<lambda>_. deflected c1) c1"
proof -
  have f: "found c c1" using ssl_start_found [OF fresh] start by (rule wp_Ok)
  then have same: "settled c c1" by (simp add: found_def judged_settled)
  have on: "redirect c1 = REDIRECT_ON" and p: "o_protocol (opt c1) = None"
    using f bad target(2) same by (auto simp: found_def judged_def settled_def)
  have r: "wp remote_start (\<lambda>_. deflected c1) (\<lambda>_. deflected c1) c1"
    by (rule remote_start_deflected [OF on]) (use same target x in \<open>simp_all add: settled_def\<close>)
  have "wp (seqM (negotiation PROTOCOL_LATE) transfer) (\<lambda>_. deflected c1) (\<lambda>_. deflected c1) c2" if "deflected c1 c2" for c2
  proof -
    have "o_protocol (opt c2) = None" using that p by (simp add: deflected_def minds_def settled_def)
    moreover have "wp transfer (\<lambda>_. deflected c1) (\<lambda>_. deflected c1) c2"
      by (rule wp_deflected [OF that aim_transfer])
    ultimately show ?thesis by (simp add: wp_seqM wp_def [of "negotiation ph" for ph] no_negotiation)
  qed
  then have "wp (seqM remote_start (seqM (negotiation PROTOCOL_LATE) transfer)) (\<lambda>_. deflected c1) (\<lambda>_. deflected c1) c1"
    unfolding wp_seqM [of remote_start] by (intro wp_mono [OF r])
  then show ?thesis
    by (simp add: wp_seqM [of "negotiation ph" for ph] wp_def [of "negotiation ph" for ph] no_negotiation [OF p])
qed

lemma deflected_attempts:
  assumes "deflected c c'"
  obtains as where "attempts c' = attempts c @ as" "set as \<subseteq> set (al_addr (o_redirect_addr (opt c)))"
proof -
  obtain t where t: "trace (env c') = trace (env c) @ t"
    using assms by (auto simp: deflected_def minds_def settled_def moves_def env_le_def)
  then have "since c c' = t" by (simp add: since_def)
  with assms have "list_all (\<lambda>x. set (dialled (fst x)) \<subseteq> set (al_addr (o_redirect_addr (opt c)))) t"
    by (simp add: deflected_def minds_def)
  then have "set (concat (map (\<lambda>x. dialled (fst x)) t)) \<subseteq> set (al_addr (o_redirect_addr (opt c)))"
    by (induction t) auto
  with t that show ?thesis by (simp add: attempts_def)
qed

end
