(* ===== verification/Outcome.thy ===== *)
theory Outcome
  imports Redirect
begin

text \<open>
  How a connection ends, whatever its environment does, and the configurations in which it cannot end well.
\<close>

section \<open>Liveness\<close>

text \<open>The environment only moves forward, and only its end blocks the computation.\<close>

definition lively :: "'a cm \<Rightarrow> bool" where
  "lively m \<longleftrightarrow> live m \<and> keeps moves m"

lemma lively_civil: "civil m \<Longrightarrow> lively m"
  by (simp add: civil_def lively_def)

lemma lively_basic [simp]:
  "lively (retM a)" "lively (getM f)" "lively (sys q)" "lively (stopM (Longjmp n))"
  by (auto simp: lively_def intro: mv.rules)

lemma lively_modM: "(\<And>c. env (f c) = env c) \<Longrightarrow> lively (modM f)"
  by (auto simp: lively_def moves_def env_le_def intro!: mv.modM)

lemma lively_bindM: "lively m \<Longrightarrow> (\<And>a. lively (f a)) \<Longrightarrow> lively (bindM m f)"
  by (simp add: lively_def live_bindM mv.bindM)

lemma lively_seqM: "lively m \<Longrightarrow> lively m' \<Longrightarrow> lively (seqM m m')"
  by (simp add: lively_def live_seqM mv.seqM)

lemma lively_whenM: "lively m \<Longrightarrow> lively (whenM b m)"
  by (simp add: whenM_def)

lemma lively_if: "(b \<Longrightarrow> lively m) \<Longrightarrow> (\<not> b \<Longrightarrow> lively m') \<Longrightarrow> lively (if b then m else m')"
  by simp

lemma lively_case: "(o' = None \<Longrightarrow> lively m) \<Longrightarrow> (\<And>x. o' = Some x \<Longrightarrow> lively (f x)) \<Longrightarrow>
   lively (case o' of None \<Rightarrow> m | Some x \<Rightarrow> f x)"
  by (cases o') auto

lemma lively_pair: "(\<And>x y. lively (f x y)) \<Longrightarrow> lively (case p of (x, y) \<Rightarrow> f x y)"
  by (cases p) auto

lemmas lively_rules = lively_basic lively_bindM lively_seqM lively_whenM lively_if lively_modM lively_case lively_pair

lemma lively_io: "live m \<Longrightarrow> keeps io_le m \<Longrightarrow> lively m"
  by (simp add: lively_def io_moves)

lemma lively_calls [frame_intros]:
  "lively (s_socket d)" "lively (closesocket f)" "lively (s_connect a)" "lively make_sockets"
  "lively (fd_getline f)" "lively (fd_putline f s)" "lively (set_socket_options f k)" "lively (s_ntop a k)"
  "lively poll_init" "lively (poll_add f r w)"
  by (auto intro!: lively_io frame_intros)

lemma lively_lock [frame_intros]: "lively (lock l)" "lively (unlock l)" "lively (set_tmp f)"
  unfolding lock_def unlock_def set_tmp_def by (auto intro!: lively_rules)

lemma lively_close_tmp [frame_intros]: "lively close_tmp"
  unfolding close_tmp_def by (auto intro!: lively_rules frame_intros)

lemma lively_connect_local [frame_intros]: "lively connect_local"
  unfolding connect_local_def by (auto intro!: lively_rules frame_intros)

lemma lively_connect_one: "lively (connect_one a)"
  unfolding connect_one_def connect_init_def socket_bound_def
  by (auto intro!: lively_rules lively_civil [OF civil_connecting(2)] frame_intros)

lemma lively_try_addresses: "lively (try_addresses is)"
proof (induction "is")
  case (Cons i "is")
  then show ?case
    by (auto intro!: lively_rules lively_connect_one lively_civil [OF civil_connecting(4)] lively_civil [OF civil_connecting(3)] frame_intros)
qed simp

lemma lively_connect_remote: "lively connect_remote"
  unfolding connect_remote_def
  by (auto intro!: lively_rules lively_try_addresses lively_civil [OF civil_connecting(1)] lively_civil [OF civil_idx_cache_retrieve])

lemma lively_remote_start: "lively remote_start"
  unfolding remote_start_def by (auto intro!: lively_rules lively_connect_remote frame_intros)

lemma lively_auth_user: "lively auth_user"
  unfolding auth_user_def ident_check_def by (auto intro!: lively_rules frame_intros)

lemma lively_local_start: "lively local_start"
  unfolding local_start_def
  by (auto intro!: lively_rules lively_auth_user lively_civil [OF civil_tls(5)] lively_civil [OF civil_tls(6)] frame_intros)

lemma lively_client_try: "lively client_try"
  unfolding client_try_def
  by (auto intro!: lively_rules lively_local_start lively_remote_start lively_civil [OF civil_negotiation]
      lively_civil [OF civil_ssl_start] lively_civil [OF civil_transfer])

lemma lively_setjmp: "lively m \<Longrightarrow> lively (setjmp m)"
proof -
  assume m: "lively m"
  then have "live (setjmp m)" by (auto simp: lively_def live_def setjmp_def split: res.splits stop.splits)
  moreover have "keeps moves (setjmp m)"
    unfolding keeps_def wp_setjmp
  proof
    fix c
    have "wp m (\<lambda>_. moves c) (\<lambda>_. moves c) c" using m by (simp add: lively_def keeps_def)
    then show "wp m (\<lambda>_. moves c) (\<lambda>k c'. case k of Longjmp n \<Rightarrow> moves c c' | _ \<Rightarrow> moves c c') c"
      by (rule wp_mono) (auto split: stop.split)
  qed
  ultimately show ?thesis by (simp add: lively_def)
qed

lemma lively_client_run: "lively client_run"
  unfolding client_run_def count_clients_def close_remote_def close_local_def clean_start_def
  by (auto intro!: lively_rules lively_setjmp lively_client_try lively_civil [OF civil_free_ssl] lively_civil [OF civil_reset] frame_intros)

lemma lively_zero: "lively (modM zero_client)"
  by (rule lively_modM) (simp add: zero_client_def)

text \<open>An \<open>exec\<close> service with \<open>retry\<close> goes round for ever, but each round makes requests.\<close>

lemma lively_client_main: "lively client_main"
proof -
  have start: "lively (setjmp (bindM connect_local (\<lambda>f.
        modM (\<lambda>c. c\<lparr>local_rfd := (local_rfd c)\<lparr>fd := f\<rparr>, local_wfd := (local_wfd c)\<lparr>fd := f\<rparr>\<rparr>))))"
    by (auto intro!: lively_setjmp lively_rules frame_intros)
  then have m: "lively exec_round"
    unfolding exec_round_def by (auto intro!: lively_rules lively_zero lively_client_run)
  have "rounds (bindM (getM (\<lambda>c. o_retry (opt c))) (\<lambda>again. if \<not> again then retM (Inl ()) else bindM (sys Sleep) (\<lambda>_. retM (Inr ()))))"
    by (auto intro!: rounds_getM rounds_if rounds_sys mv.rules)
  then have "rounds exec_round"
    using start lively_zero lively_client_run unfolding exec_round_def lively_def
    by (auto intro!: rounds_seqM rounds_bind rounds_if)
  then have "live (loopM (\<lambda>_. exec_round) ())" "keeps moves (loopM (\<lambda>_. exec_round) ())"
    using m by (auto simp: lively_def intro!: live_loopM mv.loopM)
  then show ?thesis
    unfolding client_main_def by (auto simp: lively_def [of "loopM f x" for f x] intro!: lively_rules lively_client_run)
qed

section \<open>A client without session slots\<close>

text \<open>The requests of a client leave its list of targets alone.\<close>

definition same_list :: "cli \<Rightarrow> cli \<Rightarrow> bool" where
  "same_list c c' \<longleftrightarrow> connect_addr c' = connect_addr c \<and> o_client (opt c') = o_client (opt c) \<and>
     o_sni (opt c') = o_sni (opt c) \<and> os (env c') = os (env c)"

interpretation same_list: frame_rel same_list "\<lambda>_. True"
  by unfold_locales (simp_all add: same_list_def env_step_def)

lemma io_same_list: "keeps io_le m \<Longrightarrow> keeps same_list m"
  by (erule keeps_mono) (simp add: same_list_def io_le_fields, simp add: io_le_def env_le_def)

lemmas same_list_rules = same_list.rules same_list.modM keeps_case

lemma same_list_calls [frame_intros]:
  "keeps same_list (s_socket d)" "keeps same_list (s_connect a)" "keeps same_list (s_ntop a k)"
  "keeps same_list (closesocket f)"
  by (auto intro!: io_same_list frame_intros)

lemma same_list_try: "keeps same_list (try_addresses is)"
proof (induction "is")
  case (Cons i "is")
  have "keeps same_list (connect_one a)" "keeps same_list (idx_cache_save a)" "keeps same_list print_bound_address" "keeps same_list close_tmp" for a
    unfolding connect_one_def connect_init_def socket_bound_def bind_local_def idx_cache_save_def print_bound_address_def
      close_tmp_def set_tmp_def lock_def unlock_def
    by (auto intro!: same_list_rules frame_intros simp: same_list_def Let_def)
  moreover have "keeps same_list (modM (\<lambda>c. c\<lparr>idx := i\<rparr>))" "keeps same_list (set_tmp f)" for f
    unfolding set_tmp_def by (auto intro!: same_list.modM) (simp_all add: same_list_def)
  ultimately show ?case
    using Cons by (auto intro!: same_list_rules)
qed (simp add: same_list.stopM)

text \<open>The target a transparent proxy takes from the kernel has no slot for a TLS session.\<close>

definition slotless :: "cli \<Rightarrow> cli \<Rightarrow> bool" where
  "slotless c c' \<longleftrightarrow> al_session (parent_list c') = None \<and> o_client (opt c') = o_client (opt c) \<and>
     o_sni (opt c') = o_sni (opt c) \<and> os (env c') = os (env c)"

lemma slotless_same: "slotless c c1 \<Longrightarrow> al_parent (connect_addr c1) = Own \<Longrightarrow> same_list c1 c2 \<Longrightarrow>
    slotless c c2 \<and> al_parent (connect_addr c2) = Own"
  by (auto simp: slotless_def same_list_def parent_list_def)

lemma connect_remote_slotless:
  assumes "o_transparent_dst (opt c)" "redirect c \<noteq> REDIRECT_ON" "al_addr (connect_addr c) = []"
    and own: "al_parent (connect_addr c) = Own" "al_session (connect_addr c) = None"
  shows "wp connect_remote (\<lambda>_ c'. slotless c c' \<and> al_parent (connect_addr c') = Own) (\<lambda>_ _. True) c"
proof -
  let ?P = "\<lambda>c'. slotless c c' \<and> al_parent (connect_addr c') = Own"
  have go: "wp (try_addresses is) (\<lambda>_. ?P) (\<lambda>_ _. True) c1" if "?P c1" for "is" c1
    by (rule wp_keeps [OF same_list_try]) (use that slotless_same in \<open>auto\<close>)
  have orig: "wp (original_dst f) (\<lambda>_ c'. io_le c1 c') (\<lambda>_ _. True) c1" for f c1
    by (rule wp_keeps [of io_le]) (auto intro: frame_intros)
  have one: "al_num (connect_addr c1\<lparr>al_addr := [a]\<rparr>) = 1" for c1 a by (simp add: al_num_def)
  have P: "?P (c2\<lparr>connect_addr := (connect_addr c)\<lparr>al_addr := [a]\<rparr>\<rparr>)"
    if "io_le (c\<lparr>connect_addr := (connect_addr c)\<lparr>al_addr := [b]\<rparr>\<rparr>) c2" for a b c2
  proof -
    have "opt c2 = opt c" "os (env c2) = os (env c)"
      using io_le_fields(1) [OF that] that by (simp_all add: io_le_def env_le_def)
    then show ?thesis using own by (simp add: slotless_def parent_list_def)
  qed
  show ?thesis
    using assms unfolding connect_remote_def connect_setup_def
    apply (simp add: wp_seqM wp_bind_getM wp_modM al_num_def wp_bindM [of "original_dst f" for f])
    apply (rule wp_mono [OF orig])
     apply (auto simp: wp_modM wp_stopM wp_retM wp_bindM wp_getM dest: P intro!: go split: option.split)
    done
qed

text \<open>Without a slot the client's TLS start does not get to the handshake.\<close>

lemma ssl_setup_slotless:
  assumes "al_session (parent_list c) = None" "o_client (opt c)" "o_sni (opt c) = []"
    and "\<And>n. a_ret (os (env c) n Ssl_new) \<noteq> 0"
  shows "wp ssl_setup (\<lambda>_ _. False) (\<lambda>k _. k = Null_deref \<or> k = Blocked) c"
proof -
  have "al_session (parent_list (env_step q c1)) = al_session (parent_list c1)" for q and c1 :: cli
    by (simp add: parent_list_def env_step_def split: parent.split)
  moreover have "al_session (parent_list (c1\<lparr>ssl := True, ssl_sent := False, ssl_rcvd := False\<rparr>)) = al_session (parent_list c1)" for c1
    by (simp add: parent_list_def split: parent.split)
  ultimately show ?thesis
    using assms
    by (simp add: ssl_setup_def session_cache_retrieve_def lock_def wp_eqs wp_bind_getM del: wp_sys)
qed

lemma ssl_start_slotless:
  assumes "al_session (parent_list c) = None" "o_client (opt c)" "o_sni (opt c) = []"
    and "\<And>n. a_ret (os (env c) n Ssl_new) \<noteq> 0"
  shows "wp ssl_start (\<lambda>_ _. False) (\<lambda>k _. k = Null_deref \<or> k = Blocked) c"
  unfolding ssl_start_def wp_seqM by (rule wp_mono [OF ssl_setup_slotless [OF assms]]) simp_all

lemma remote_start_slotless:
  assumes "o_transparent_dst (opt c)" "redirect c \<noteq> REDIRECT_ON" "al_addr (connect_addr c) = []"
    and "al_parent (connect_addr c) = Own" "al_session (connect_addr c) = None"
    and "o_exec_name (opt c) = None"
  shows "wp remote_start (\<lambda>_. slotless c) (\<lambda>_ _. True) c"
proof -
  have rest: "keeps same_list (seqM (modM (\<lambda>c. c\<lparr>remote_fd := (remote_fd c)\<lparr>fd := f\<rparr>\<rparr>))
     (if p then modM (\<lambda>c. c\<lparr>remote_fd := (remote_fd c)\<lparr>is_socket := False\<rparr>\<rparr>)
      else seqM (modM (\<lambda>c. c\<lparr>remote_fd := (remote_fd c)\<lparr>is_socket := True\<rparr>\<rparr>))
        (bindM (set_socket_options f 2) (\<lambda>_. retM ()))))" for f p
  proof -
    have m: "same_list c (c\<lparr>remote_fd := d\<rparr>)" for c d by (simp add: same_list_def)
    show ?thesis by (auto intro!: same_list_rules io_same_list [OF set_socket_options_io] m)
  qed
  have "wp connect_remote (\<lambda>_ c'. slotless c c' \<and> al_parent (connect_addr c') = Own) (\<lambda>_ _. True) (c\<lparr>bind_addr := b\<rparr>)" for b
    using connect_remote_slotless [of "c\<lparr>bind_addr := b\<rparr>"] assms by (simp add: slotless_def)
  then have "wp (bindM connect_remote (\<lambda>f. seqM (modM (\<lambda>c. c\<lparr>remote_fd := (remote_fd c)\<lparr>fd := f\<rparr>\<rparr>))
     (if p then modM (\<lambda>c. c\<lparr>remote_fd := (remote_fd c)\<lparr>is_socket := False\<rparr>\<rparr>)
      else seqM (modM (\<lambda>c. c\<lparr>remote_fd := (remote_fd c)\<lparr>is_socket := True\<rparr>\<rparr>))
        (bindM (set_socket_options f 2) (\<lambda>_. retM ()))))) (\<lambda>_. slotless c) (\<lambda>_ _. True) (c\<lparr>bind_addr := b\<rparr>)" for p b
    unfolding wp_bindM [of connect_remote]
    by (rule wp_mono) (rule wp_keeps [OF rest], auto dest: slotless_same)
  then show ?thesis
    unfolding remote_start_def wp_bind_getM wp_seqM [of "modM (\<lambda>c. c\<lparr>bind_addr := g c\<rparr>)" for g] wp_modM
    using assms(6) by (simp only: simp_thms if_False)
qed

section \<open>Redirection that is not honoured\<close>

text \<open>A service that runs a program runs it for the redirected connection too.\<close>

fun starts_program :: "req \<times> ans \<Rightarrow> bool" where
  "starts_program (Fork_exec f, a) = (a_ret a \<noteq> -1)"
| "starts_program (q, a) = False"

definition program_run :: "cli \<Rightarrow> cli \<Rightarrow> bool" where
  "program_run c c' \<longleftrightarrow> moves c c' \<and> list_ex starts_program (since c c')"

lemma moves_step:
  assumes "moves c c1" "now (env c1) < horizon (env c1)"
  shows "moves c (env_step q c1)" "since c (env_step q c1) = since c c1 @ [(q, os (env c1) (now (env c1)) q)]"
proof -
  have "moves c1 (env_step q c1)" using assms(2) by (intro mv.env_step) simp_all
  with assms(1) show "moves c (env_step q c1)" "since c (env_step q c1) = since c c1 @ [(q, os (env c1) (now (env c1)) q)]"
    by (auto intro: mv.trans simp: since_trans)
qed

lemma program_run_moves: "program_run c c1 \<Longrightarrow> moves c1 c2 \<Longrightarrow> program_run c c2"
  by (auto simp: program_run_def since_trans intro: mv.trans)

lemma wp_lively: "lively m \<Longrightarrow> (\<And>a c'. moves c c' \<Longrightarrow> Q a c') \<Longrightarrow> (\<And>k c'. E k c') \<Longrightarrow> wp m Q E c"
  by (rule wp_keeps [of moves]) (auto simp: lively_def)

lemma connect_local_runs:
  assumes "moves c c1"
  shows "wp connect_local (\<lambda>_. program_run c) (\<lambda>_ _. True) c1"
proof -
  have tail: "wp (bindM (sys (Set_nonblock f1 False)) (\<lambda>_. bindM (sys (Fork_exec f1)) (\<lambda>pid.
      if a_ret pid = -1 then seqM (closesocket f0) (seqM (closesocket f1) (stopM (Longjmp 1)))
      else seqM (closesocket f1) (retM f0)))) (\<lambda>_. program_run c) (\<lambda>_ _. True) c2" if c2: "moves c c2" for f0 f1 c2
  proof -
    let ?c = "env_step (Set_nonblock f1 False) c2" and ?q = "Fork_exec f1"
    have one: "moves c ?c" if "now (env c2) < horizon (env c2)" by (rule moves_step [OF c2 that])
    have "program_run c (env_step ?q ?c)"
      if "a_ret (os (env ?c) (now (env ?c)) ?q) \<noteq> -1" "now (env c2) < horizon (env c2)" "now (env ?c) < horizon (env ?c)"
      using moves_step [OF one [OF that(2)] that(3), of ?q] that(1) by (simp add: program_run_def)
    then have "wp (seqM (closesocket f1) (retM f0)) (\<lambda>_. program_run c) (\<lambda>_ _. True) (env_step ?q ?c)"
      if "a_ret (os (env ?c) (now (env ?c)) ?q) \<noteq> -1" "now (env c2) < horizon (env c2)" "now (env ?c) < horizon (env ?c)"
      using that by (intro wp_lively lively_rules lively_calls) (auto intro: program_run_moves)
    then show ?thesis
      by (simp add: wp_bindM wp_sys_step wp_if wp_seqM [of "closesocket f0"] wp_seqM [of m "stopM k" for m k]
          wp_closesocket wp_stopM del: wp_sys)
  qed
  have pair: "wp (if pty then bindM (sys Pty_allocate) (\<lambda>a. if a_ret a \<noteq> 0 then stopM (Longjmp 1) else retM (a_fds a ! 0, a_fds a ! 1))
      else bindM make_sockets (\<lambda>p. case p of None \<Rightarrow> stopM (Longjmp 1) | Some q \<Rightarrow> retM q))
     (\<lambda>_. moves c) (\<lambda>_ _. True) c1" for pty
    by (rule wp_lively) (auto intro!: lively_rules lively_calls intro: mv.trans [OF assms])
  show ?thesis
    unfolding connect_local_def wp_bind_getM
    apply (subst wp_bindM)
    apply (rule wp_mono [OF pair])
    apply (auto intro: tail)
    done
qed

lemma remote_start_runs:
  assumes "o_exec_name (opt c) \<noteq> None" "al_names (o_connect_addr (opt c)) = []"
  shows "wp remote_start (\<lambda>_. program_run c) (\<lambda>_ _. True) c"
proof -
  have rest: "lively (seqM (modM (\<lambda>c. c\<lparr>remote_fd := (remote_fd c)\<lparr>fd := f\<rparr>\<rparr>))
     (if p then modM (\<lambda>c. c\<lparr>remote_fd := (remote_fd c)\<lparr>is_socket := False\<rparr>\<rparr>)
      else seqM (modM (\<lambda>c. c\<lparr>remote_fd := (remote_fd c)\<lparr>is_socket := True\<rparr>\<rparr>))
        (bindM (set_socket_options f 2) (\<lambda>_. retM ()))))" for f p
    by (auto intro!: lively_rules lively_calls)
  have "moves c (c\<lparr>bind_addr := b\<rparr>)" for b by (simp add: moves_def env_le_def)
  from connect_local_runs [OF this]
  have "wp (bindM connect_local (\<lambda>f. seqM (modM (\<lambda>c. c\<lparr>remote_fd := (remote_fd c)\<lparr>fd := f\<rparr>\<rparr>))
     (if p then modM (\<lambda>c. c\<lparr>remote_fd := (remote_fd c)\<lparr>is_socket := False\<rparr>\<rparr>)
      else seqM (modM (\<lambda>c. c\<lparr>remote_fd := (remote_fd c)\<lparr>is_socket := True\<rparr>\<rparr>))
        (bindM (set_socket_options f 2) (\<lambda>_. retM ()))))) (\<lambda>_. program_run c) (\<lambda>_ _. True) (c\<lparr>bind_addr := b\<rparr>)" for p b
    unfolding wp_bindM [of connect_local]
    by (rule wp_mono) (rule wp_lively [OF rest], auto intro: program_run_moves)
  then show ?thesis
    unfolding remote_start_def wp_bind_getM wp_seqM [of "modM (\<lambda>c. c\<lparr>bind_addr := g c\<rparr>)" for g] wp_modM
    using assms by (simp only: simp_thms if_True)
qed

text \<open>A verdict that comes after the connection to the server changes nothing any more.\<close>

lemma nothing_dialled: "list_all (\<lambda>x. dialled (fst x) = []) t \<Longrightarrow> concat (map (\<lambda>x. dialled (fst x)) t) = []"
  by (simp add: list_all_iff)

lemma quietly_attempts:
  assumes "quietly c c'"
  shows "attempts c' = attempts c"
proof -
  have "moves c c'" using assms by (simp add: quietly_def settled_def)
  then obtain t where t: "trace (env c') = trace (env c) @ t"
    by (auto simp: moves_def env_le_def)
  have "list_all (\<lambda>x. dialled (fst x) = []) (since c c')"
    using assms unfolding quietly_def by (rule conjunct2)
  then have "list_all (\<lambda>x. dialled (fst x) = []) t" unfolding since_def t by simp
  from nothing_dialled [OF this] show ?thesis by (simp only: attempts_def t map_append concat_append append_Nil2)
qed

lemma ssl_start_late:
  assumes fresh: "\<And>n. a_ret (os (env c) n Ssl_session_reused) = 0" and start: "ssl_start c = Ok () c1"
    and "certless c c1" "al_names (o_redirect_addr (opt c)) \<noteq> []"
  shows "redirect c1 = REDIRECT_ON" "attempts c1 = attempts c" "fd (remote_fd c1) = fd (remote_fd c)"
proof -
  have f: "found c c1" using ssl_start_found [OF fresh] start by (rule wp_Ok)
  then show "redirect c1 = REDIRECT_ON" using assms(3,4) by (simp add: found_def)
  show "attempts c1 = attempts c" using f by (intro quietly_attempts found_quietly)
  have "holds c c1" using civil_ssl_start start by (auto simp: civil_def intro: keeps_Ok)
  then show "fd (remote_fd c1) = fd (remote_fd c)" by (simp add: holds_def fd_state_def)
qed

end
