(* ===== verification/Probe.thy ===== *)
theory Probe
  imports Prelude
begin

text \<open>
  The loop \<open>while(!stop(i)) i=(i+1)%n;\<close> that libwrap.c and str.c search their tables with: it stops at the first index,
  going round from the start, at which it may, and it does stop if there is one.
\<close>

partial_function (option) probe :: "(nat \<Rightarrow> bool) \<Rightarrow> nat \<Rightarrow> nat \<Rightarrow> nat option" where
  "probe stop n i = (if stop i then Some i else probe stop n ((i + 1) mod n))"

declare probe.simps [code]

lemma probe_first:
  assumes "i < n" "stop ((i + m) mod n)" "\<And>j. j < m \<Longrightarrow> \<not> stop ((i + j) mod n)"
  shows "probe stop n i = Some ((i + m) mod n)"
  using assms
proof (induction m arbitrary: i)
  case 0
  then show ?case by (subst probe.simps) simp
next
  case (Suc m)
  let ?i = "(i + 1) mod n"
  have step: "(?i + j) mod n = (i + Suc j) mod n" for j by (simp add: mod_add_left_eq)
  have "?i < n" using Suc.prems(1) by (intro mod_less_divisor) linarith
  moreover have "stop ((?i + m) mod n)" using Suc.prems(2) step by simp
  moreover have "\<not> stop ((?i + j) mod n)" if "j < m" for j using Suc.prems(3) [of "Suc j"] that step by simp
  ultimately have "probe stop n ?i = Some ((?i + m) mod n)" by (rule Suc.IH)
  moreover have "\<not> stop i" using Suc.prems(1) Suc.prems(3) [of 0] by simp
  ultimately show ?case using step by (subst probe.simps) simp
qed

lemma probe_finds:
  assumes "i < n" "p < n" "stop p"
  shows "\<exists>m < n. probe stop n i = Some ((i + m) mod n) \<and> stop ((i + m) mod n) \<and> (\<forall>j < m. \<not> stop ((i + j) mod n))"
proof -
  let ?S = "\<lambda>m. stop ((i + m) mod n)"
  have reach: "?S ((p + n - i) mod n)" using assms by (simp add: mod_add_right_eq)
  define m where "m = (LEAST m. ?S m)"
  have "?S m" unfolding m_def using reach by (rule LeastI)
  moreover have "\<not> ?S j" if "j < m" for j using not_less_Least that unfolding m_def by blast
  moreover have "m < n"
  proof -
    have "m \<le> (p + n - i) mod n" unfolding m_def using reach by (rule Least_le)
    also have "\<dots> < n" using assms by (intro mod_less_divisor) linarith
    finally show ?thesis .
  qed
  ultimately show ?thesis using probe_first [of i n stop m] assms(1) by blast
qed

end
