(* ===== verification/Libwrap.thy ===== *)
theory Libwrap
  imports Probe
begin

text \<open>
  The pool of libwrap processes (libwrap.c): client threads that share it under a mutex and a condition
  variable, as a step relation over all interleavings. \<open>libwrap_auth\<close> is cut where it calls the thread
  library or waits for a process; the updates between two such calls are one step, since the mutex is held.
\<close>

section \<open>The shared state\<close>

text \<open>
  Where a thread is in \<open>libwrap_auth\<close>, with the process it holds and the answer it got: at the first
  \<open>pthread_mutex_lock\<close>; at \<open>while(num_busy==num_processes)\<close>, with the mutex; in \<open>pthread_cond_wait\<close>; at the first
  \<open>pthread_mutex_unlock\<close>; in \<open>s_read\<close>; at the second lock; at \<open>busy[my_process]=0\<close>; at \<open>pthread_cond_signal\<close>;
  at the second unlock; returned; left by \<open>longjmp\<close>.
\<close>

datatype pc =
    Outside
  | Locking
  | Checking
  | Waiting
  | Taken nat
  | Asking nat
  | Answered nat bool
  | Freeing nat bool
  | Signalling bool
  | Unlocking bool
  | Permitted
  | Jumped

record pool =
  is_busy :: "bool list"
  num_busy :: "32 word"
  roundrobin :: nat
  mutex :: "nat option"
  at_pc :: "nat \<Rightarrow> pc"

text \<open>What the call a thread is in does: return 0, fail, or (\<open>s_read\<close>) deliver an answer.\<close>

datatype event = Returns | Fails | Answers bool

text \<open>\<open>while(busy[roundrobin]) roundrobin=(roundrobin+1)%num_processes;\<close>\<close>

definition find_free :: "bool list \<Rightarrow> nat \<Rightarrow> nat option" where
  "find_free bs r = probe (\<lambda>i. \<not> bs ! i) (length bs) r"

definition num_processes :: "pool \<Rightarrow> 32 word" where
  "num_processes s = of_nat (length (is_busy s))"

definition goto :: "nat \<Rightarrow> pc \<Rightarrow> pool \<Rightarrow> pool" where
  "goto t l s = s\<lparr>at_pc := (at_pc s)(t := l)\<rparr>"

text \<open>A thread takes the mutex: it must be free.\<close>

definition acquire :: "nat \<Rightarrow> pc \<Rightarrow> pool \<Rightarrow> pool option" where
  "acquire t l s = (if mutex s = None then Some (goto t l (s\<lparr>mutex := Some t\<rparr>)) else None)"

definition take_process :: "nat \<Rightarrow> pool \<Rightarrow> pool option" where
  "take_process t s =
    (case find_free (is_busy s) (roundrobin s) of
       None \<Rightarrow> None
     | Some p \<Rightarrow> Some (goto t (Taken p)
         (s\<lparr>roundrobin := p, num_busy := num_busy s + 1, is_busy := (is_busy s)[p := True]\<rparr>)))"

section \<open>Steps\<close>

text \<open>One step of thread \<open>t\<close>. A waiting thread may wake at any time the mutex is free: the thread library
  allows spurious wake-ups.\<close>

fun thread_step :: "event \<Rightarrow> nat \<Rightarrow> pc \<Rightarrow> pool \<Rightarrow> pool option" where
  "thread_step Returns t Outside s = Some (goto t Locking s)"
| "thread_step Returns t Locking s = acquire t Checking s"
| "thread_step Fails t Locking s = Some (goto t Jumped s)"
| "thread_step Returns t Checking s =
    (if num_busy s = num_processes s then Some (goto t Waiting (s\<lparr>mutex := None\<rparr>)) else take_process t s)"
| "thread_step Fails t Checking s =
    (if num_busy s = num_processes s then Some (goto t Jumped s) else None)"
| "thread_step Returns t Waiting s = acquire t Checking s"
| "thread_step Returns t (Taken p) s = Some (goto t (Asking p) (s\<lparr>mutex := None\<rparr>))"
| "thread_step Fails t (Taken p) s = Some (goto t Jumped s)"
| "thread_step (Answers b) t (Asking p) s = Some (goto t (Answered p b) s)"
| "thread_step Fails t (Asking p) s = Some (goto t Jumped s)"
| "thread_step Returns t (Answered p b) s = acquire t (Freeing p b) s"
| "thread_step Fails t (Answered p b) s = Some (goto t Jumped s)"
| "thread_step Returns t (Freeing p b) s =
    Some (goto t (Signalling b) (s\<lparr>is_busy := (is_busy s)[p := False], num_busy := num_busy s - 1\<rparr>))"
| "thread_step Returns t (Signalling b) s = Some (goto t (Unlocking b) s)"
| "thread_step Fails t (Signalling b) s = Some (goto t Jumped s)"
| "thread_step Returns t (Unlocking b) s =
    Some (goto t (if b then Permitted else Jumped) (s\<lparr>mutex := None\<rparr>))"
| "thread_step Fails t (Unlocking b) s = Some (goto t Jumped s)"
| "thread_step _ t _ s = None"

definition pool_step :: "event \<Rightarrow> nat \<Rightarrow> pool \<Rightarrow> pool option" where
  "pool_step e t s = thread_step e t (at_pc s t) s"

definition libwrap_init :: "nat \<Rightarrow> pool" where
  "libwrap_init n = \<lparr>is_busy = replicate n False, num_busy = 0, roundrobin = 0, mutex = None, at_pc = (\<lambda>_. Outside)\<rparr>"

inductive steps :: "pool \<Rightarrow> pool \<Rightarrow> bool" where
  steps_refl: "steps s s"
| steps_step: "steps s s1 \<Longrightarrow> pool_step e t s1 = Some s2 \<Longrightarrow> steps s s2"

text \<open>A schedule: who moves, and what happens to him.\<close>

fun schedule :: "(nat \<times> event) list \<Rightarrow> pool \<Rightarrow> pool option" where
  "schedule [] s = Some s"
| "schedule ((t, e) # xs) s = (case pool_step e t s of None \<Rightarrow> None | Some s' \<Rightarrow> schedule xs s')"

section \<open>The search for a free process\<close>

text \<open>It ends when there is one.\<close>

lemma find_free_finds:
  assumes "p < length bs" "\<not> bs ! p" "r < length bs"
  shows "\<exists>q. find_free bs r = Some q \<and> q < length bs \<and> \<not> bs ! q"
proof -
  obtain m where "find_free bs r = Some ((r + m) mod length bs)" "\<not> bs ! ((r + m) mod length bs)"
    using probe_finds [of r "length bs" p "\<lambda>i. \<not> bs ! i"] assms by (auto simp: find_free_def)
  moreover have "(r + m) mod length bs < length bs" using assms(1) by (intro mod_less_divisor) linarith
  ultimately show ?thesis by blast
qed

section \<open>The invariant\<close>

text \<open>The process a thread holds, and the calls it makes with the mutex.\<close>

fun holds_process :: "pc \<Rightarrow> nat option" where
  "holds_process (Taken p) = Some p"
| "holds_process (Asking p) = Some p"
| "holds_process (Answered p b) = Some p"
| "holds_process (Freeing p b) = Some p"
| "holds_process l = None"

fun with_mutex :: "pc \<Rightarrow> bool" where
  "with_mutex Checking = True"
| "with_mutex (Taken p) = True"
| "with_mutex (Freeing p b) = True"
| "with_mutex (Signalling b) = True"
| "with_mutex (Unlocking b) = True"
| "with_mutex l = False"

abbreviation held_by :: "pool \<Rightarrow> nat \<Rightarrow> nat option" where
  "held_by s t \<equiv> holds_process (at_pc s t)"

definition pool_inv :: "pool \<Rightarrow> bool" where
  "pool_inv s \<longleftrightarrow> num_busy s = of_nat (count_list (is_busy s) True) \<and> length (is_busy s) < 2 ^ 32 \<and>
     roundrobin s < length (is_busy s) \<and>
     (\<forall>t p. held_by s t = Some p \<longrightarrow> p < length (is_busy s) \<and> is_busy s ! p) \<and>
     (\<forall>t u p. held_by s t = Some p \<and> held_by s u = Some p \<longrightarrow> t = u) \<and>
     (\<forall>t. with_mutex (at_pc s t) \<longrightarrow> mutex s = Some t)"

lemma count_list_update:
  "p < length bs \<Longrightarrow> \<not> bs ! p \<Longrightarrow> count_list (bs[p := True]) True = Suc (count_list bs True)"
  "p < length bs \<Longrightarrow> bs ! p \<Longrightarrow> Suc (count_list (bs[p := False]) True) = count_list bs True"
  by (induction bs arbitrary: p) (auto simp: nth_Cons split: nat.splits)

lemma count_list_le: "count_list bs x \<le> length bs"
  by (induction bs) auto

lemma full_iff: "count_list bs True = length bs \<longleftrightarrow> (\<forall>p < length bs. bs ! p)"
proof (induction bs)
  case (Cons b bs)
  then show ?case using count_list_le [of bs True] by (cases b) (auto simp: nth_Cons split: nat.splits)
qed simp

lemma of_nat_32: "a < 2 ^ 32 \<Longrightarrow> b < 2 ^ 32 \<Longrightarrow> (of_nat a :: 32 word) = of_nat b \<longleftrightarrow> a = b"
  by (metis unat_of_nat mod_less len_num1 len_bit0 mult_2 numeral_Bit0 one_add_one unsigned_of_nat take_bit_nat_eq_self_iff)

text \<open>The 32-bit counters agree exactly when every process is busy.\<close>

lemma num_busy_full:
  assumes "pool_inv s"
  shows "num_busy s = num_processes s \<longleftrightarrow> (\<forall>p < length (is_busy s). is_busy s ! p)"
proof -
  have b: "count_list (is_busy s) True < 2 ^ 32" "length (is_busy s) < 2 ^ 32"
    using assms count_list_le [of "is_busy s" True] by (auto simp: pool_inv_def)
  have "num_busy s = num_processes s \<longleftrightarrow> count_list (is_busy s) True = length (is_busy s)"
    using assms b by (simp add: pool_inv_def num_processes_def of_nat_32)
  then show ?thesis by (simp add: full_iff)
qed

lemma goto_simps [simp]:
  "is_busy (goto t l s) = is_busy s" "num_busy (goto t l s) = num_busy s" "roundrobin (goto t l s) = roundrobin s"
  "mutex (goto t l s) = mutex s" "at_pc (goto t l s) = (at_pc s)(t := l)"
  by (simp_all add: goto_def)

lemma acquire_Some: "acquire t l s = Some s' \<longleftrightarrow> mutex s = None \<and> s' = goto t l (s\<lparr>mutex := Some t\<rparr>)"
  by (auto simp: acquire_def)

text \<open>Taking a process: one that was free, which exists unless all are busy.\<close>

lemma take_process_free:
  assumes "pool_inv s" "num_busy s \<noteq> num_processes s"
  shows "\<exists>p. p < length (is_busy s) \<and> \<not> is_busy s ! p \<and>
    take_process t s = Some (goto t (Taken p) (s\<lparr>roundrobin := p, num_busy := num_busy s + 1, is_busy := (is_busy s)[p := True]\<rparr>))"
proof -
  obtain q where "q < length (is_busy s)" "\<not> is_busy s ! q" using assms num_busy_full by blast
  with find_free_finds [of q "is_busy s" "roundrobin s"] assms(1)
  obtain p where "find_free (is_busy s) (roundrobin s) = Some p" "p < length (is_busy s)" "\<not> is_busy s ! p"
    by (auto simp: pool_inv_def)
  then show ?thesis by (auto simp: take_process_def)
qed

lemma pool_inv_goto:
  "pool_inv s \<Longrightarrow> holds_process l = held_by s t \<Longrightarrow> with_mutex l \<longrightarrow> with_mutex (at_pc s t) \<Longrightarrow> pool_inv (goto t l s)"
  unfolding pool_inv_def by auto

lemma pool_inv_jump: "pool_inv s \<Longrightarrow> pool_inv (goto t Jumped s)"
  unfolding pool_inv_def by auto

lemma pool_inv_lock:
  "pool_inv s \<Longrightarrow> mutex s = None \<Longrightarrow> holds_process l = held_by s t \<Longrightarrow> pool_inv (goto t l (s\<lparr>mutex := Some t\<rparr>))"
  unfolding pool_inv_def by auto

lemma pool_inv_unlock:
  assumes "pool_inv s" "with_mutex (at_pc s t)" "\<not> with_mutex l" "holds_process l = held_by s t"
  shows "pool_inv (goto t l (s\<lparr>mutex := None\<rparr>))"
proof -
  have "mutex s = Some t" using assms(1,2) by (simp add: pool_inv_def)
  then have "\<not> with_mutex (at_pc s u)" if "u \<noteq> t" for u using assms(1) that by (auto simp: pool_inv_def)
  with assms show ?thesis unfolding pool_inv_def by auto
qed

lemma pool_inv_take:
  assumes "pool_inv s" "at_pc s t = Checking" "p < length (is_busy s)" "\<not> is_busy s ! p"
  shows "pool_inv (goto t (Taken p) (s\<lparr>roundrobin := p, num_busy := num_busy s + 1, is_busy := (is_busy s)[p := True]\<rparr>))"
proof -
  have "held_by s u \<noteq> Some p" for u using assms(1,4) by (auto simp: pool_inv_def)
  with assms show ?thesis
    unfolding pool_inv_def by (auto simp: count_list_update nth_list_update)
qed

lemma pool_inv_free:
  assumes "pool_inv s" "at_pc s t = Freeing p b"
  shows "pool_inv (goto t (Signalling b) (s\<lparr>is_busy := (is_busy s)[p := False], num_busy := num_busy s - 1\<rparr>))"
proof -
  have p: "p < length (is_busy s)" "is_busy s ! p" using assms by (metis holds_process.simps(4) pool_inv_def)+
  have other: "held_by s u \<noteq> Some p" if "u \<noteq> t" for u using assms that by (force simp: pool_inv_def)
  have "num_busy s = of_nat (Suc (count_list ((is_busy s)[p := False]) True))"
    using assms(1) count_list_update(2) [OF p] by (simp add: pool_inv_def)
  then show ?thesis
    using assms p other unfolding pool_inv_def by (auto simp: nth_list_update)
qed

text \<open>The kinds of steps.\<close>

inductive kind :: "nat \<Rightarrow> pool \<Rightarrow> pool \<Rightarrow> bool" for t s where
  kind_goto: "holds_process l = held_by s t \<Longrightarrow> with_mutex l \<longrightarrow> with_mutex (at_pc s t) \<Longrightarrow> kind t s (goto t l s)"
| kind_jump: "kind t s (goto t Jumped s)"
| kind_lock: "mutex s = None \<Longrightarrow> holds_process l = held_by s t \<Longrightarrow> kind t s (goto t l (s\<lparr>mutex := Some t\<rparr>))"
| kind_unlock: "with_mutex (at_pc s t) \<Longrightarrow> \<not> with_mutex l \<Longrightarrow> holds_process l = held_by s t \<Longrightarrow>
    kind t s (goto t l (s\<lparr>mutex := None\<rparr>))"
| kind_take: "at_pc s t = Checking \<Longrightarrow> p < length (is_busy s) \<Longrightarrow> \<not> is_busy s ! p \<Longrightarrow>
    kind t s (goto t (Taken p) (s\<lparr>roundrobin := p, num_busy := num_busy s + 1, is_busy := (is_busy s)[p := True]\<rparr>))"
| kind_free: "at_pc s t = Freeing p b \<Longrightarrow>
    kind t s (goto t (Signalling b) (s\<lparr>is_busy := (is_busy s)[p := False], num_busy := num_busy s - 1\<rparr>))"

lemma pool_step_kind:
  assumes "pool_inv s" "pool_step e t s = Some s'"
  shows "kind t s s'"
proof -
  have take: "kind t s s'" if "at_pc s t = Checking" "take_process t s = Some s'" "num_busy s \<noteq> num_processes s"
    using take_process_free [OF assms(1) that(3), of t] that by (auto intro: kind_take)
  show ?thesis
    using assms(2) take unfolding pool_step_def
    by (cases "at_pc s t"; cases e)
      (auto simp: acquire_Some split: if_splits intro: kind.intros intro!: kind_unlock)
qed

lemma pool_inv_step:
  assumes "pool_inv s" "pool_step e t s = Some s'"
  shows "pool_inv s'"
  using pool_step_kind [OF assms] assms(1)
  by cases (auto intro: pool_inv_goto pool_inv_jump pool_inv_lock pool_inv_unlock pool_inv_take pool_inv_free)

lemma pool_inv_init: "0 < n \<Longrightarrow> n < 2 ^ 32 \<Longrightarrow> pool_inv (libwrap_init n)"
proof -
  have "count_list (replicate n False) True = 0" by (induction n) auto
  then show "0 < n \<Longrightarrow> n < 2 ^ 32 \<Longrightarrow> pool_inv (libwrap_init n)" by (simp add: pool_inv_def libwrap_init_def)
qed

lemma pool_inv_steps: "steps s s' \<Longrightarrow> pool_inv s \<Longrightarrow> pool_inv s'"
  by (induction rule: steps.induct) (auto intro: pool_inv_step)

lemma schedule_steps: "schedule xs s = Some s' \<Longrightarrow> steps s0 s \<Longrightarrow> steps s0 s'"
  by (induction xs s rule: schedule.induct) (auto split: option.splits intro: steps_step)

section \<open>The pool as leases\<close>

text \<open>
  What the pool promises: a process is leased to one thread at a time, goes back to the pool when the thread
  returns it, and is lost when the thread leaves without doing so.
\<close>

record leases =
  lessee :: "nat \<Rightarrow> nat option"
  leaked :: "nat set"

inductive lease_step :: "nat \<Rightarrow> leases \<Rightarrow> leases \<Rightarrow> bool" for n where
  lease_same: "lease_step n l l"
| lease_grant: "p < n \<Longrightarrow> p \<notin> leaked l \<Longrightarrow> \<forall>u. lessee l u \<noteq> Some p \<Longrightarrow> lessee l t = None \<Longrightarrow>
    lease_step n l (l\<lparr>lessee := (lessee l)(t := Some p)\<rparr>)"
| lease_return: "lessee l t = Some p \<Longrightarrow> lease_step n l (l\<lparr>lessee := (lessee l)(t := None)\<rparr>)"
| lease_leak: "lessee l t = Some p \<Longrightarrow>
    lease_step n l (l\<lparr>lessee := (lessee l)(t := None), leaked := insert p (leaked l)\<rparr>)"

definition leases_of :: "pool \<Rightarrow> leases" where
  "leases_of s = \<lparr>lessee = held_by s,
     leaked = {p. p < length (is_busy s) \<and> is_busy s ! p \<and> (\<forall>t. held_by s t \<noteq> Some p)}\<rparr>"

lemma leases_eqI: "lessee a = lessee b \<Longrightarrow> leaked a = leaked b \<Longrightarrow> a = (b :: leases)"
  by (cases a; cases b) simp

lemma leases_of_mutex [simp]: "leases_of (s\<lparr>mutex := m\<rparr>) = leases_of s"
  by (simp add: leases_of_def)

lemma leases_of_same:
  assumes "holds_process l = held_by s t"
  shows "leases_of (goto t l s) = leases_of s" "leases_of (goto t l (s\<lparr>mutex := m\<rparr>)) = leases_of s"
  using assms by (auto simp: leases_of_def fun_eq_iff)

lemma leases_of_jump_Some:
  assumes "pool_inv s" "held_by s t = Some p"
  shows "leases_of (goto t Jumped s) =
    leases_of s\<lparr>lessee := (held_by s)(t := None), leaked := insert p (leaked (leases_of s))\<rparr>"
  using assms by (intro leases_eqI) (auto simp: leases_of_def pool_inv_def fun_eq_iff, metis option.inject)

lemma kind_lease_step:
  assumes "pool_inv s" "kind t s s'"
  shows "lease_step (length (is_busy s)) (leases_of s) (leases_of s')"
  using assms(2)
proof cases
  case kind_jump
  show ?thesis
  proof (cases "held_by s t")
    case None
    then show ?thesis using kind_jump by (simp add: leases_of_same lease_same)
  next
    case (Some p)
    then have "lessee (leases_of s) t = Some p" by (simp add: leases_of_def)
    from lease_leak [OF this, of "length (is_busy s)"] show ?thesis
      using kind_jump leases_of_jump_Some [OF assms(1) Some] by (simp add: leases_of_def)
  qed
next
  case (kind_take p)
  let ?l = "leases_of s"
  have "p \<notin> leaked ?l" "\<forall>u. lessee ?l u \<noteq> Some p" "lessee ?l t = None"
    using kind_take assms(1) by (auto simp: leases_of_def pool_inv_def)
  moreover have "leases_of s' = ?l\<lparr>lessee := (lessee ?l)(t := Some p)\<rparr>"
    using kind_take by (intro leases_eqI) (auto simp: leases_of_def fun_eq_iff nth_list_update,
        metis holds_process.simps(7) option.distinct(1))
  ultimately show ?thesis using kind_take(3) by (auto intro: lease_grant)
next
  case (kind_free p b)
  let ?l = "leases_of s"
  have p: "lessee ?l t = Some p" using kind_free by (simp add: leases_of_def)
  have "held_by s u = Some p \<longleftrightarrow> u = t" for u using assms(1) kind_free(2) by (force simp: pool_inv_def)
  moreover have "p < length (is_busy s)" using assms(1) p by (auto simp: leases_of_def pool_inv_def)
  ultimately have "leases_of s' = ?l\<lparr>lessee := (lessee ?l)(t := None)\<rparr>"
    using kind_free by (intro leases_eqI)
      (auto simp: leases_of_def fun_eq_iff nth_list_update split: if_splits, metis holds_process.simps(4) option.inject)
  with lease_return [OF p] show ?thesis by simp
qed (simp_all add: leases_of_same lease_same)

lemma pool_step_lease:
  "pool_inv s \<Longrightarrow> pool_step e t s = Some s' \<Longrightarrow> lease_step (length (is_busy s)) (leases_of s) (leases_of s')"
  using kind_lease_step pool_step_kind by blast

lemma kind_length: "kind t s s' \<Longrightarrow> length (is_busy s') = length (is_busy s)"
  by (induction rule: kind.induct) auto

lemma reachable:
  assumes "0 < n" "n < 2 ^ 32" "steps (libwrap_init n) s"
  shows "pool_inv s" "length (is_busy s) = n"
proof -
  have "pool_inv s2 \<and> length (is_busy s2) = length (is_busy s1)" if "steps s1 s2" "pool_inv s1" for s1 s2
    using that
    by (induction rule: steps.induct) (use pool_inv_step pool_step_kind kind_length in \<open>fastforce+\<close>)
  from this [OF assms(3) pool_inv_init [OF assms(1,2)]]
  show "pool_inv s" "length (is_busy s) = n" by (simp_all add: libwrap_init_def)
qed

section \<open>Starvation\<close>

definition all_leaked :: "pool \<Rightarrow> bool" where
  "all_leaked s \<longleftrightarrow> leaked (leases_of s) = {..<length (is_busy s)}"

lemma all_leaked_none: "all_leaked s \<Longrightarrow> pool_inv s \<Longrightarrow> held_by s t = None"
  by (cases "held_by s t") (auto simp: all_leaked_def leases_of_def pool_inv_def set_eq_iff)

lemma all_leaked_step:
  assumes "all_leaked s" "pool_inv s" "kind t s s'"
  shows "all_leaked s' \<and> length (is_busy s') = length (is_busy s)"
proof -
  have n: "lessee (leases_of s) u = None" for u
    using all_leaked_none [OF assms(1,2)] by (simp add: leases_of_def)
  from kind_lease_step [OF assms(2,3)] have "leases_of s' = leases_of s"
  proof cases
    case (lease_grant p t)
    then show ?thesis using assms(1) by (auto simp: all_leaked_def)
  qed (auto simp: n)
  then show ?thesis using assms(1) kind_length [OF assms(3)] by (simp add: all_leaked_def)
qed

definition starving :: "pc \<Rightarrow> bool" where
  "starving l \<longleftrightarrow> l \<in> {Outside, Locking, Checking, Waiting, Jumped}"

lemma starving_step:
  assumes "all_leaked s" "pool_inv s" "pool_step e t s = Some s'" "starving (at_pc s u)"
  shows "starving (at_pc s' u)"
proof -
  have "num_busy s = num_processes s"
    using num_busy_full [OF assms(2)] assms(1) by (auto simp: all_leaked_def leases_of_def set_eq_iff)
  with assms(3,4) show ?thesis
    unfolding pool_step_def
    by (cases "at_pc s t"; cases e) (auto simp: starving_def acquire_Some split: if_splits)
qed

lemma all_leaked_starves:
  "steps s s' \<Longrightarrow> pool_inv s \<Longrightarrow> all_leaked s \<Longrightarrow> starving (at_pc s t) \<Longrightarrow>
    pool_inv s' \<and> all_leaked s' \<and> starving (at_pc s' t)"
proof (induction rule: steps.induct)
  case (steps_step s s1 e u s2)
  then show ?case
    using pool_inv_step pool_step_kind all_leaked_step starving_step by meson
qed simp

text \<open>A thread that takes a process and times out in \<open>s_read\<close>.\<close>

definition times_out :: "nat \<Rightarrow> (nat \<times> event) list" where
  "times_out t = [(t, Returns), (t, Returns), (t, Returns), (t, Returns), (t, Fails)]"

lemma leaked_out: "p < length (is_busy s) \<Longrightarrow> is_busy s ! p \<Longrightarrow> (\<And>t. held_by s t \<noteq> Some p) \<Longrightarrow> p \<in> leaked (leases_of s)"
  by (simp add: leases_of_def)

lemma all_leakedI:
  "list_all (\<lambda>b. b) (is_busy s) \<Longrightarrow> (\<And>t. held_by s t = None) \<Longrightarrow> all_leaked s"
  by (auto simp: all_leaked_def leases_of_def list_all_length)

lemma schedule_append: "schedule (xs @ ys) s = Option.bind (schedule xs s) (schedule ys)"
  by (induction xs s rule: schedule.induct) (auto split: option.splits)

lemma times_out_runs:
  assumes "pool_inv s" "mutex s = None" "at_pc s t = Outside" "count_list (is_busy s) True < length (is_busy s)"
  shows "\<exists>s' p. schedule (times_out t) s = Some s' \<and> p < length (is_busy s) \<and> \<not> is_busy s ! p \<and>
    is_busy s' = (is_busy s)[p := True] \<and> mutex s' = None \<and> at_pc s' = (at_pc s)(t := Jumped) \<and> pool_inv s'"
proof -
  let ?c = "goto t Checking ((goto t Locking s)\<lparr>mutex := Some t\<rparr>)"
  have run: "schedule [(t, Returns), (t, Returns)] s = Some ?c"
    using assms(2,3) by (simp add: pool_step_def acquire_def)
  then have inv: "pool_inv ?c" using pool_inv_steps assms(1) schedule_steps steps_refl by blast
  have "num_busy ?c \<noteq> num_processes ?c"
    using num_busy_full [OF inv] assms(4) full_iff [of "is_busy s"] by simp
  from take_process_free [OF inv this, of t] obtain p where
    "p < length (is_busy s)" "\<not> is_busy s ! p" "take_process t ?c = Some (goto t (Taken p)
      (?c\<lparr>roundrobin := p, num_busy := num_busy ?c + 1, is_busy := (is_busy ?c)[p := True]\<rparr>))" by auto
  moreover from this obtain s' where "schedule (times_out t) s = Some s'" "is_busy s' = (is_busy s)[p := True]"
    "mutex s' = None" "at_pc s' = (at_pc s)(t := Jumped)"
    using assms(2,3) \<open>num_busy ?c \<noteq> num_processes ?c\<close>
    by (simp add: times_out_def pool_step_def acquire_def num_processes_def)
  moreover from this have "pool_inv s'" using pool_inv_steps assms(1) schedule_steps steps_refl by blast
  ultimately show ?thesis by blast
qed

text \<open>As many threads do so as the pool has processes: they all return to nobody.\<close>

definition all_time_out :: "nat \<Rightarrow> (nat \<times> event) list" where
  "all_time_out n = concat (map times_out [0..<n])"

lemma all_time_out_runs:
  assumes "0 < n" "n < 2 ^ 32" "k \<le> n"
  shows "\<exists>s. schedule (all_time_out k) (libwrap_init n) = Some s \<and> pool_inv s \<and> mutex s = None \<and>
    length (is_busy s) = n \<and> count_list (is_busy s) True = k \<and> at_pc s = (\<lambda>t. if t < k then Jumped else Outside)"
  using assms(3)
proof (induction k)
  case 0
  have "count_list (replicate n False) True = 0" by (induction n) auto
  then show ?case using pool_inv_init [OF assms(1,2)] by (simp add: all_time_out_def libwrap_init_def)
next
  case (Suc k)
  then obtain s where s: "schedule (all_time_out k) (libwrap_init n) = Some s" "pool_inv s" "mutex s = None"
    "length (is_busy s) = n" "count_list (is_busy s) True = k" "at_pc s = (\<lambda>t. if t < k then Jumped else Outside)" by auto
  have "schedule (all_time_out (Suc k)) (libwrap_init n) = schedule (times_out k) s"
    using s(1) by (simp add: all_time_out_def schedule_append)
  then show ?case
    using times_out_runs [OF s(2,3), of k] s Suc.prems by (auto simp: count_list_update fun_eq_iff less_Suc_eq)
qed

lemma all_time_out_leaks:
  assumes "0 < n" "n < 2 ^ 32"
  shows "\<exists>s. schedule (all_time_out n) (libwrap_init n) = Some s \<and> pool_inv s \<and> all_leaked s \<and>
    at_pc s = (\<lambda>t. if t < n then Jumped else Outside)"
proof -
  obtain s where s: "schedule (all_time_out n) (libwrap_init n) = Some s" "pool_inv s"
    "length (is_busy s) = n" "count_list (is_busy s) True = n" "at_pc s = (\<lambda>t. if t < n then Jumped else Outside)"
    using all_time_out_runs [OF assms, of n] by auto
  then have "all_leaked s" using full_iff [of "is_busy s"] by (intro all_leakedI) (auto simp: list_all_length)
  with s show ?thesis by blast
qed

end
