(* ===== verification/Daemon.thy ===== *)
theory Daemon
  imports Client
begin

text \<open>
  The main thread (stunnel.c, ui_unix.c, with the parts of sthreads.c, cron.c and libwrap.c it calls): start, the
  ports it listens on, the signal pipe, and the loop that accepts
  connections and hands them to client threads. \<open>systemd_fds\<close> descriptors from \<open>listen_fds_start\<close> on
  were opened by systemd. Parsing the command line and the configuration file (options.c) and counting clients are
  requests to the environment: the file can be anything, and client threads run at the same time. The
  processes \<open>fork\<close> starts are not modelled.
\<close>

section \<open>State\<close>

text \<open>
  A section of the configuration file (\<open>SERVICE_OPTIONS\<close>): what a connection uses of it, and the fields of the
  listening port. \<open>s_owner\<close> is \<open>opt->uid || opt->gid\<close>, \<open>s_libwrap\<close> is \<open>opt->option.libwrap\<close>.
\<close>

record port =
  s_opt :: service
  s_accept_on :: bool
  s_fd :: int
  s_addr :: sockaddr
  s_owner :: bool
  s_libwrap :: bool

text \<open>A thread of the process besides the main one, with what it was given.\<close>

datatype thread = Cron_thread | Client_thread service int

text \<open>
  \<open>io\<close> is what the main thread's I/O functions use: the environment, the poll set \<open>fds\<close>, the descriptor limit and the
  socket options. The two static variables of \<open>signal_pipe_dispatch\<close> are \<open>sig\<close> and \<open>ptr\<close>; \<open>configs n\<close> are the
  sections of the configuration file when it is read for the \<open>n\<close>-th time, \<open>global_opt\<close> its global options
  (\<open>service_options\<close>), and \<open>threads\<close> are the threads created in this process.
\<close>

record daemon =
  io :: cli
  ports :: "port list"
  signal_pipe :: "int \<times> int"
  sig_buf :: "byte list"
  sig_ptr :: nat
  max_clients :: int
  systemd_fds :: nat
  listen_fds_start :: int
  configs :: "nat \<Rightarrow> port list"
  reloads :: nat
  threads :: "thread list"
  global_opt :: service
  foreground :: bool
  pidfile :: "string option"
  chroot_dir :: "string option"
  group_id :: nat
  user_id :: nat
  libwrap_processes :: nat
  ipc_socket :: "int list"
  libwrap_initialized :: bool

type_synonym 'a dm = "daemon \<Rightarrow> ('a, daemon) res"

definition onio :: "'a cm \<Rightarrow> 'a dm" where
  "onio m d = (case m (io d) of Ok a c \<Rightarrow> Ok a (d\<lparr>io := c\<rparr>) | Stop k c \<Rightarrow> Stop k (d\<lparr>io := c\<rparr>))"

definition loopD :: "('a \<Rightarrow> ('b + 'a) dm) \<Rightarrow> 'a \<Rightarrow> 'b dm" where
  "loopD body a d = iterM (fuel (io d)) body a d"

definition poll_remove :: "int \<Rightarrow> unit cm" where
  "poll_remove f = modM (\<lambda>c. c\<lparr>fds := s_poll_remove (fds c) f\<rparr>)"

definition get_port :: "nat \<Rightarrow> port dm" where
  "get_port i = getM (\<lambda>d. ports d ! i)"

definition set_fd :: "nat \<Rightarrow> int \<Rightarrow> unit dm" where
  "set_fd i f = modM (\<lambda>d. d\<lparr>ports := (ports d)[i := (ports d ! i)\<lparr>s_fd := f\<rparr>]\<rparr>)"

definition exec_connect :: "port \<Rightarrow> bool" where
  "exec_connect p \<longleftrightarrow> o_exec_name (s_opt p) \<noteq> None \<and> al_names (o_connect_addr (s_opt p)) \<noteq> []"

section \<open>Client threads\<close>

text \<open>\<open>create_client\<close> (sthreads.c, POSIX threads) closes the descriptor when the thread cannot be created.\<close>

definition create_client :: "int \<Rightarrow> port \<Rightarrow> int dm" where
  "create_client s p =
    bindM (onio (sys (Thread_create s))) (\<lambda>a.
      if a_ret a \<noteq> 0
      then seqM (if s \<ge> 0 then onio (closesocket s) else retM ()) (retM (-1))
      else seqM (modM (\<lambda>d. d\<lparr>threads := threads d @ [Client_thread (s_opt p) s]\<rparr>)) (retM 0))"

definition EMFILE :: int where "EMFILE = 24"
definition ENFILE :: int where "ENFILE = 23"
definition ENOBUFS :: int where "ENOBUFS = 105"
definition ENOMEM :: int where "ENOMEM = 12"

text \<open>\<open>True\<close>: a short delay is needed.\<close>

definition accept_connection :: "port \<Rightarrow> bool dm" where
  "accept_connection p =
    bindM (loopD (\<lambda>_.
      bindM (onio (s_accept (s_fd p))) (\<lambda>s.
        if s \<noteq> INVALID_SOCKET then retM (Inl (Inl s))
        else bindM (getM (\<lambda>d. errno (env (io d)))) (\<lambda>e.
          retM (if e = EINTR then Inr () else Inl (Inr (e \<in> {EMFILE, ENFILE, ENOBUFS, ENOMEM})))))) ())
    (\<lambda>r. case r of
       Inr delay \<Rightarrow> retM delay
     | Inl s \<Rightarrow>
        bindM (onio (sys Count_clients)) (\<lambda>n.
        bindM (getM max_clients) (\<lambda>limit.
          if limit \<noteq> 0 \<and> a_val n \<ge> limit then seqM (onio (closesocket s)) (retM False)
          else bindM (create_client s p) (\<lambda>e.
            if e \<noteq> 0 then seqM (onio (closesocket s)) (retM False) else retM False))))"

section \<open>Ports\<close>

definition watch_pipe :: "unit dm" where
  "watch_pipe = seqM (onio poll_init)
     (bindM (getM signal_pipe) (\<lambda>(r, w). onio (poll_add r True False)))"

text \<open>The file of a Unix socket is removed, if it is one.\<close>

definition remove_socket :: "sockaddr \<Rightarrow> unit dm" where
  "remove_socket a =
    (case a of
       AF_UNIX path \<Rightarrow>
         bindM (onio (sys (Lstat path))) (\<lambda>r.
           if a_ret r \<noteq> 0 then retM ()
           else if a_val r = 0 then retM ()
           else bindM (onio (sys (Unlink path))) (\<lambda>_. retM ()))
     | _ \<Rightarrow> retM ())"

definition unbind_port :: "nat \<Rightarrow> unit dm" where
  "unbind_port i =
    bindM (get_port i) (\<lambda>p.
    bindM (getM (\<lambda>d. listen_fds_start d)) (\<lambda>start.
    bindM (getM (\<lambda>d. int (systemd_fds d))) (\<lambda>n.
    seqM
      (if s_accept_on p \<and> s_fd p \<noteq> INVALID_SOCKET
       then seqM (if s_fd p < start \<or> s_fd p \<ge> start + n then onio (closesocket (s_fd p)) else retM ())
         (seqM (set_fd i INVALID_SOCKET) (remove_socket (s_addr p)))
       else if exec_connect p
       then modM (\<lambda>d. d\<lparr>ports := (ports d)[i := p\<lparr>s_opt := (s_opt p)\<lparr>o_retry := False\<rparr>\<rparr>]\<rparr>)
       else retM ())
      (bindM (onio (sys Flush_sessions)) (\<lambda>_. retM ())))))"

definition unbind_ports :: "unit dm" where
  "unbind_ports = seqM watch_pipe
     (bindM (getM (\<lambda>d. length (ports d))) (\<lambda>n. forM [0..<n] unbind_port))"

text \<open>\<open>opt->fd=INVALID_SOCKET\<close> for all sections first, so that a failure can be undone.\<close>

definition forget_fds :: "port list \<Rightarrow> port list" where
  "forget_fds ps = map (\<lambda>p. if s_accept_on p then p\<lparr>s_fd := INVALID_SOCKET\<rparr> else p) ps"

definition fail_port :: "nat \<Rightarrow> int \<Rightarrow> nat option dm" where
  "fail_port i f = seqM (onio (closesocket f)) (seqM (set_fd i INVALID_SOCKET) (retM None))"

text \<open>\<open>bind()\<close> and \<open>listen()\<close>, unless systemd did it; \<open>True\<close> when both succeed.\<close>

definition bind_listen :: "bool \<Rightarrow> int \<Rightarrow> sockaddr \<Rightarrow> bool dm" where
  "bind_listen inherited f a =
    (if inherited then retM True
     else bindM (onio (sys (Bind f a))) (\<lambda>r.
       if a_ret r \<noteq> 0 then retM False
       else bindM (onio (sys (Listen f))) (\<lambda>r'. retM (a_ret r' = 0))))"

definition chown_socket :: "port \<Rightarrow> unit dm" where
  "chown_socket p =
    (case s_addr p of
       AF_UNIX path \<Rightarrow>
         if s_owner p then
           bindM (onio (sys (Lchown path))) (\<lambda>r.
             if a_ret r = 0 then retM () else bindM (onio (sys (Lstat path))) (\<lambda>_. retM ()))
         else retM ()
     | _ \<Rightarrow> retM ())"

text \<open>One section; \<open>n\<close> is \<open>listening_section\<close>, \<open>None\<close> the return value 1.\<close>

definition bind_port :: "nat \<Rightarrow> nat \<Rightarrow> nat option dm" where
  "bind_port i n =
    bindM (get_port i) (\<lambda>p.
    bindM (getM systemd_fds) (\<lambda>inherited.
    if s_accept_on p then
      bindM (if n < inherited then getM (\<lambda>d. listen_fds_start d + int n)
             else onio (s_socket (sa_family (s_addr p)))) (\<lambda>f.
      seqM (set_fd i f)
        (if n \<ge> inherited \<and> f = INVALID_SOCKET then retM None
         else bindM (onio (set_socket_options f 0)) (\<lambda>r.
           if r < 0 then fail_port i f
           else bindM (bind_listen (n < inherited) f (s_addr p)) (\<lambda>ok.
             if \<not> ok then fail_port i f
             else seqM (chown_socket p) (seqM (onio (poll_add f True False)) (retM (Some (Suc n))))))))
    else if exec_connect p then seqM (bindM (create_client INVALID_SOCKET p) (\<lambda>_. retM ())) (retM (Some n))
    else retM (Some n)))"

text \<open>
  \<open>libwrap_init\<close>, the parent's side: a socket pair and a process for each of the five clients of the pool. \<open>False\<close>:
  a call failed, and the next \<open>bind_ports\<close> tries again.
\<close>

definition LIBWRAP_CLIENTS :: nat where "LIBWRAP_CLIENTS = 5"

definition libwrap_spawn :: "nat \<Rightarrow> bool dm" where
  "libwrap_spawn i =
    bindM (onio (sys Socketpair)) (\<lambda>a.
    seqM (if a_ret a < 0 then retM ()
          else modM (\<lambda>d. d\<lparr>ipc_socket := (ipc_socket d)[2 * i := a_fds a ! 0, 2 * i + 1 := a_fds a ! 1]\<rparr>))
      (bindM (onio (setup_pair a)) (\<lambda>r. case r of
         None \<Rightarrow> retM False
       | Some (f0, f1) \<Rightarrow> bindM (onio (sys Fork)) (\<lambda>pid.
           if a_ret pid = -1 then retM False else seqM (onio (closesocket f1)) (retM True)))))"

definition libwrap_start :: "bool dm" where
  "libwrap_start =
    bindM (getM libwrap_initialized) (\<lambda>b.
    bindM (getM ports) (\<lambda>ps.
      if b then retM True
      else if \<not> (\<exists>p \<in> set ps. s_libwrap p) then retM True
      else seqM (modM (\<lambda>d. d\<lparr>libwrap_processes := LIBWRAP_CLIENTS, ipc_socket := replicate (2 * LIBWRAP_CLIENTS) 0\<rparr>))
        (bindM (foldM (\<lambda>i ok. if ok then libwrap_spawn i else retM False) [0..<LIBWRAP_CLIENTS] True) (\<lambda>ok.
           if ok then seqM (modM (\<lambda>d. d\<lparr>libwrap_initialized := True\<rparr>)) (retM True) else retM False))))"

text \<open>\<open>True\<close>: all ports are open. Whether the libwrap processes started is not asked.\<close>

definition bind_ports :: "bool dm" where
  "bind_ports = bindM libwrap_start (\<lambda>_. seqM watch_pipe
    (seqM (modM (\<lambda>d. d\<lparr>ports := forget_fds (ports d)\<rparr>))
      (bindM (getM (\<lambda>d. length (ports d))) (\<lambda>n.
       bindM (foldM (\<lambda>i r. case r of None \<Rightarrow> retM None | Some k \<Rightarrow> bind_port i k) [0..<n] (Some 0)) (\<lambda>r.
       bindM (getM systemd_fds) (\<lambda>inherited.
         retM (case r of None \<Rightarrow> False | Some k \<Rightarrow> \<not> k < inherited)))))))"

section \<open>Signals\<close>

text \<open>\<open>True\<close>: failed.\<close>

definition signal_pipe_init :: "bool dm" where
  "signal_pipe_init = bindM (onio s_pipe) (\<lambda>r. case r of
     None \<Rightarrow> retM True
   | Some p \<Rightarrow> seqM (modM (\<lambda>d. d\<lparr>signal_pipe := p\<rparr>)) (retM False))"

text \<open>The signal handler writes the integer into the pipe; the result is ignored.\<close>

definition le_bytes :: "int \<Rightarrow> byte list" where
  "le_bytes s = map (\<lambda>k. word_of_int (s div 256 ^ k)) [0, 1, 2, 3]"

definition signal_post :: "int \<Rightarrow> unit dm" where
  "signal_post s = bindM (getM signal_pipe) (\<lambda>(r, w). bindM (onio (sys (Write w (le_bytes s)))) (\<lambda>_. retM ()))"

text \<open>\<open>waitpid\<close> until no child is left to report.\<close>

definition child_status :: "unit dm" where
  "child_status = loopD (\<lambda>_. bindM (onio (sys Waitpid)) (\<lambda>a. retM (if a_ret a > 0 then Inr () else Inl ()))) ()"

text \<open>\<open>options_apply()\<close> puts the sections that were read in place.\<close>

definition options_apply :: "unit dm" where
  "options_apply = modM (\<lambda>d. d\<lparr>ports := configs d (reloads d), reloads := reloads d + 1\<rparr>)"

definition reload_config :: "unit dm" where
  "reload_config =
    bindM (onio (sys Options_parse)) (\<lambda>a.
      if a_ret a \<noteq> 0 then retM ()
      else seqM unbind_ports
        (seqM options_apply
          (bindM bind_ports (\<lambda>_. retM ()))))"

definition SIGCHLD :: int where "SIGCHLD = 17"
definition SIGNAL_RELOAD_CONFIG :: int where "SIGNAL_RELOAD_CONFIG = 1"
definition SIGNAL_REOPEN_LOG :: int where "SIGNAL_REOPEN_LOG = 10"
definition SIGNAL_TERMINATE :: int where "SIGNAL_TERMINATE = 15"

text \<open>The integer in memory (little-endian).\<close>

definition le_int :: "byte list \<Rightarrow> int" where
  "le_int bs = sint (word_of_nat (foldr (\<lambda>b n. unat b + 256 * n) bs 0) :: 32 word)"

text \<open>\<open>True\<close>: terminate.\<close>

definition handle_signal :: "int \<Rightarrow> bool dm" where
  "handle_signal s =
    (if s = SIGCHLD then seqM child_status (retM False)
     else if s = SIGNAL_RELOAD_CONFIG then seqM reload_config (retM False)
     else if s = SIGNAL_REOPEN_LOG then retM False
     else retM True)"

definition reopen_pipe :: "bool dm" where
  "reopen_pipe =
    bindM (getM signal_pipe) (\<lambda>(r, w).
    seqM (onio (poll_remove r)) (seqM (onio (closesocket r)) (seqM (onio (closesocket w))
      (bindM signal_pipe_init (\<lambda>failed.
        if failed then retM True
        else bindM (getM signal_pipe) (\<lambda>(r', w'). seqM (onio (poll_add r' True False)) (retM False)))))))"

definition signal_pipe_dispatch :: "bool dm" where
  "signal_pipe_dispatch = loopD (\<lambda>_.
    bindM (getM signal_pipe) (\<lambda>(r, w).
    bindM (getM sig_ptr) (\<lambda>p.
    bindM (onio (sys (Read r (4 - p)))) (\<lambda>a.
      if a_ret a = -1 \<and> a_errno a = EWOULDBLOCK then retM (Inl False)
      else if a_ret a = -1 \<or> a_ret a = 0 then bindM reopen_pipe (\<lambda>b. retM (Inl b))
      else seqM (modM (\<lambda>d. d\<lparr>sig_buf := memcpy_at (sig_buf d) p (a_data a), sig_ptr := p + length (a_data a)\<rparr>))
        (bindM (getM sig_ptr) (\<lambda>p'.
          if p' < 4 then retM (Inl False)
          else seqM (modM (\<lambda>d. d\<lparr>sig_ptr := 0\<rparr>))
            (bindM (getM (\<lambda>d. le_int (sig_buf d))) (\<lambda>s.
             bindM (handle_signal s) (\<lambda>b. retM (if b then Inl True else Inr ())))))))))) ()"

section \<open>The main loop\<close>

definition accept_ready :: "nat \<Rightarrow> bool \<Rightarrow> bool dm" where
  "accept_ready i delay =
    bindM (get_port i) (\<lambda>p.
    bindM (getM (\<lambda>d. s_poll_canread (fds (io d)) (s_fd p))) (\<lambda>ready.
      if s_accept_on p \<and> ready then bindM (accept_connection p) (\<lambda>r. retM (delay \<or> r)) else retM delay))"

definition daemon_round :: "(unit + unit) dm" where
  "daemon_round =
    bindM (onio (s_poll_wait (-1) (-1))) (\<lambda>num.
    bindM
      (if num \<ge> 0 then
         bindM (getM (\<lambda>d. s_poll_canread (fds (io d)) (fst (signal_pipe d)))) (\<lambda>sig.
         bindM (if sig then signal_pipe_dispatch else retM False) (\<lambda>term.
           if term then retM None
           else bindM (getM (\<lambda>d. length (ports d))) (\<lambda>n.
             bindM (foldM accept_ready [0..<n] False) (\<lambda>delay. retM (Some delay)))))
       else retM (Some True))
    (\<lambda>r. case r of
       None \<Rightarrow> retM (Inl ())
     | Some delay \<Rightarrow> seqM (if delay then bindM (onio (sys Sleep)) (\<lambda>_. retM ()) else retM ()) (retM (Inr ()))))"

definition daemon_loop :: "unit dm" where
  "daemon_loop = loopD (\<lambda>_. daemon_round) ()"

definition main_cleanup :: "unit dm" where
  "main_cleanup = unbind_ports"

section \<open>Start and end of the process\<close>

definition cron_init :: "unit dm" where
  "cron_init = bindM (onio (sys (Thread_create (-1)))) (\<lambda>a.
     if a_ret a \<noteq> 0 then retM () else modM (\<lambda>d. d\<lparr>threads := threads d @ [Cron_thread]\<rparr>))"

text \<open>\<open>fatal()\<close> when a step of the initialization fails.\<close>

definition must :: "req \<Rightarrow> unit dm" where
  "must q = bindM (onio (sys q)) (\<lambda>a. if a_ret a \<noteq> 0 then stopM Fatal else retM ())"

definition inherit_fds :: "unit dm" where
  "inherit_fds = bindM (onio (sys Sd_listen_fds)) (\<lambda>a.
     if a_ret a < 0 then stopM Fatal
     else seqM (modM (\<lambda>d. d\<lparr>systemd_fds := nat (a_ret a), listen_fds_start := 3\<rparr>))
       (forM [0..<nat (a_ret a)] (\<lambda>i. bindM (onio (sys (Set_nonblock (3 + int i) True))) (\<lambda>_. retM ()))))"

text \<open>Before the configuration file is read there are no sections.\<close>

definition main_init :: "unit dm" where
  "main_init = seqM inherit_fds (seqM (must Ssl_init) (seqM (must Sthreads_init) (seqM cron_init
    (seqM (modM (\<lambda>d. d\<lparr>ports := []\<rparr>))
    (seqM (bindM (onio (sys Sysconf)) (\<lambda>a. modM (\<lambda>d. d\<lparr>io := (io d)\<lparr>max_fds := fst (get_limits (a_ret a))\<rparr>,
        max_clients := snd (get_limits (a_ret a))\<rparr>)))
    (seqM (modM (\<lambda>d. d\<lparr>io := (io d)\<lparr>fds := s_poll_alloc\<rparr>\<rparr>))
    (bindM signal_pipe_init (\<lambda>failed. if failed then stopM Fatal else retM ()))))))))"

text \<open>\<open>True\<close>: done.\<close>

definition change_root :: "bool dm" where
  "change_root = bindM (getM chroot_dir) (\<lambda>dir. case dir of
     None \<Rightarrow> retM True
   | Some p \<Rightarrow> bindM (onio (sys (Chroot p))) (\<lambda>a.
       if a_ret a \<noteq> 0 then retM False
       else bindM (onio (sys (Chdir ''/''))) (\<lambda>a'. retM (a_ret a' = 0))))"

definition drop_privileges :: "bool \<Rightarrow> bool dm" where
  "drop_privileges critical =
    bindM (getM group_id) (\<lambda>g.
    bindM (getM user_id) (\<lambda>u.
    bindM
      (if g = 0 then retM True
       else bindM (onio (sys (Setgid g))) (\<lambda>a.
         if a_ret a \<noteq> 0 \<and> critical then retM False
         else bindM (onio (sys (Setgroups g))) (\<lambda>a'. retM (\<not> (a_ret a' \<noteq> 0 \<and> critical))))) (\<lambda>ok.
      if \<not> ok then retM False
      else if u = 0 then retM True
      else bindM (onio (sys (Setuid u))) (\<lambda>a. retM (\<not> (a_ret a \<noteq> 0 \<and> critical))))))"

definition main_configure :: "bool dm" where
  "main_configure =
    bindM (onio (sys Options_cmdline)) (\<lambda>a.
      if a_ret a \<noteq> 0 then retM False
      else seqM options_apply
        (bindM bind_ports (\<lambda>ok. if \<not> ok then retM False
         else bindM change_root (\<lambda>ok. if \<not> ok then retM False
         else bindM (drop_privileges True) (\<lambda>ok. if \<not> ok then retM False
         else bindM (onio (sys Log_open)) (\<lambda>l. if a_ret l \<noteq> 0 then retM False
         else seqM (modM (\<lambda>d. d\<lparr>io := (io d)\<lparr>num_clients := 0\<rparr>\<rparr>)) (retM True)))))))"

text \<open>The new process has the descriptors of the old one, but \<open>fork()\<close> copies only the thread that calls it.
  \<open>False\<close> on failure.\<close>

definition daemonize :: "int \<Rightarrow> bool dm" where
  "daemonize f = bindM (getM foreground) (\<lambda>fg.
     if fg then retM True
     else seqM (forM [0, 1, 2] (\<lambda>g. bindM (onio (sys (Dup2 f g))) (\<lambda>_. retM ())))
      (bindM (onio (sys Daemonize)) (\<lambda>a.
       if a_ret a = -1 then retM False
       else seqM (modM (\<lambda>d. d\<lparr>threads := []\<rparr>)) (retM True))))"

definition create_pid :: "bool dm" where
  "create_pid = bindM (getM pidfile) (\<lambda>file. case file of
     None \<Rightarrow> retM True
   | Some p \<Rightarrow>
       if p = [] \<or> hd p \<noteq> CHR ''/'' then retM False
       else bindM (onio (sys Getpid)) (\<lambda>pid.
         bindM (onio (sys (Unlink p))) (\<lambda>_.
         bindM (onio (sys (Open p))) (\<lambda>a.
           if a_ret a = -1 then retM False
           else let line = raw (dec (nat (a_val pid)) @ [CHR 0x0A])
             in bindM (onio (sys (Write (a_ret a) line))) (\<lambda>w.
               if a_ret w < int (length line) then retM False
               else seqM (onio (closesocket (a_ret a))) (retM True))))))"

text \<open>A configuration without sections serves one connection on the standard input and output.\<close>

definition inetd :: "unit dm" where
  "inetd =
    seqM (onio (bindM (sys (Set_nonblock 0 True)) (\<lambda>_. retM ())))
    (seqM (onio (bindM (sys (Set_nonblock 1 True)) (\<lambda>_. retM ())))
    (bindM (getM global_opt) (\<lambda>z.
     bindM (getM (\<lambda>d. fds (io d))) (\<lambda>ps.
       seqM (onio (seqM (modM (alloc_client_session z 0 1)) client_main))
         (modM (\<lambda>d. d\<lparr>io := (io d)\<lparr>fds := ps\<rparr>\<rparr>))))))"

definition daemon_mode :: "int \<Rightarrow> unit dm" where
  "daemon_mode f =
    bindM (daemonize f) (\<lambda>ok.
    seqM (onio (closesocket f))
      (if \<not> ok then retM ()
       else bindM create_pid (\<lambda>ok. if \<not> ok then retM () else daemon_loop)))"

definition main_unix :: "unit dm" where
  "main_unix =
    bindM (onio (sys (Open ''/dev/null''))) (\<lambda>a.
      if a_ret a = -1 then stopM Fatal
      else seqM main_init
        (bindM main_configure (\<lambda>ok.
           if \<not> ok then onio (closesocket (a_ret a))
           else bindM (getM ports) (\<lambda>ps.
             if ps \<noteq> [] then daemon_mode (a_ret a)
             else seqM (onio (closesocket (a_ret a))) inetd))))"

definition main :: "unit dm" where
  "main = seqM main_unix main_cleanup"

end
