(* ===== verification/Ports.thy ===== *)
theory Ports
  imports Daemon
begin

text \<open>
  What the main thread waits for, and what it holds: at any time its poll set asks, for reading only, about the
  signal pipe and the ports it has bound, and every descriptor it opened is one of those or was
  handed to a client thread.
\<close>

section \<open>Computations of the main thread\<close>

lemma wp_onio [wp_simps]:
  "wp (onio m) Q E d = wp m (\<lambda>a c. Q a (d\<lparr>io := c\<rparr>)) (\<lambda>k c. E k (d\<lparr>io := c\<rparr>)) (io d)"
  by (auto simp: wp_def onio_def split: res.split)

lemma wp_loopD:
  assumes "I a d"
    and "\<And>a d. I a d \<Longrightarrow> wp (body a) (\<lambda>r d'. case r of Inl b \<Rightarrow> Q b d' | Inr a' \<Rightarrow> I a' d') E d"
    and "\<And>a d. I a d \<Longrightarrow> E Blocked d"
  shows "wp (loopD body a) Q E d"
proof -
  have "wp (loopD body a) Q E d = wp (iterM (fuel (io d)) body a) Q E d"
    by (simp add: wp_def loopD_def)
  also have "\<dots>" using assms by (rule wp_iterM)
  finally show ?thesis .
qed

lemma foldM_append: "foldM f (xs @ ys) a = bindM (foldM f xs a) (foldM f ys)"
  by (induction xs arbitrary: a) (auto simp: fun_eq_iff mdefs split: res.split)

lemma wp_retM_fun: "wp (retM a) Q E = Q a"
  by (simp add: fun_eq_iff wp_retM)

lemma wp_foldM_upt:
  assumes "I 0 a s"
    and "\<And>k a s. k < n \<Longrightarrow> I k a s \<Longrightarrow> wp (f k a) (I (Suc k)) E s"
  shows "wp (foldM f [0..<n] a) (I n) E s"
proof -
  have "wp (foldM f [0..<m] a) (I m) E s" if "m \<le> n" for m
    using that
  proof (induction m)
    case 0
    then show ?case using assms(1) by (simp add: wp_simps)
  next
    case (Suc m)
    then have "wp (foldM f [0..<m] a) (I m) E s" by simp
    moreover have "wp (f m a') (I (Suc m)) E s'" if "I m a' s'" for a' s'
      using assms(2) [of m] Suc.prems that by simp
    ultimately show ?case
      by (auto simp: foldM_append wp_bindM wp_retM_fun elim!: wp_mono)
  qed
  then show ?thesis by simp
qed

text \<open>\<open>P\<close> holds before and after, whichever way the computation ends.\<close>

definition stays :: "('s \<Rightarrow> bool) \<Rightarrow> ('s \<Rightarrow> ('a, 's) res) \<Rightarrow> bool" where
  "stays P m \<longleftrightarrow> (\<forall>d. P d \<longrightarrow> wp m (\<lambda>_. P) (\<lambda>_. P) d)"

lemma stays_simps [simp]: "stays P (retM a)" "stays P (getM f)" "stays P (stopM k)"
  by (simp_all add: stays_def wp_simps)

lemma stays_modM: "(\<And>d. P d \<Longrightarrow> P (f d)) \<Longrightarrow> stays P (modM f)"
  by (simp add: stays_def wp_simps)

lemma stays_bindM: "stays P m \<Longrightarrow> (\<And>a. stays P (f a)) \<Longrightarrow> stays P (bindM m f)"
  unfolding stays_def wp_bindM by (blast intro: wp_mono)

lemma stays_seqM: "stays P m \<Longrightarrow> stays P m' \<Longrightarrow> stays P (seqM m m')"
  by (simp add: seqM_def stays_bindM)

lemma stays_if: "(b \<Longrightarrow> stays P m) \<Longrightarrow> (\<not> b \<Longrightarrow> stays P m') \<Longrightarrow> stays P (if b then m else m')"
  by simp

lemma stays_forM: "(\<And>x. stays P (f x)) \<Longrightarrow> stays P (forM xs f)"
  by (induction xs) (auto intro: stays_seqM)

lemma stays_foldM: "(\<And>x a. stays P (f x a)) \<Longrightarrow> stays P (foldM f xs a)"
  by (induction xs arbitrary: a) (auto intro: stays_bindM)

lemma stays_loopD: "(\<And>a. stays P (body a)) \<Longrightarrow> stays P (loopD body a)"
  unfolding stays_def
  by (intro allI impI, rule wp_loopD [where I = "\<lambda>_. P"]) (auto split: sum.split elim: wp_mono)

lemma stays_getM: "(\<And>a. stays P (f a)) \<Longrightarrow> stays P (bindM (getM g) f)"
  by (simp add: stays_bindM)

lemmas stays_rules = stays_bindM stays_seqM stays_if stays_forM stays_foldM stays_loopD

lemma staysD: "stays P m \<Longrightarrow> P d \<Longrightarrow> wp m (\<lambda>_. P) (\<lambda>_. P) d"
  by (simp add: stays_def)

text \<open>I/O that leaves the poll set alone.\<close>

definition idle_fds :: "cli \<Rightarrow> cli \<Rightarrow> bool" where
  "idle_fds c c' \<longleftrightarrow> os (env c') = os (env c) \<and> fds c' = fds c"

interpretation idle_fds: frame_rel idle_fds "\<lambda>_. True"
  by unfold_locales (auto simp: idle_fds_def env_step_def)

lemma idle_fds_io [frame_intros]:
  "keeps idle_fds (closesocket f)" "keeps idle_fds (s_accept f)" "keeps idle_fds (s_socket n)" "keeps idle_fds s_pipe"
  "keeps idle_fds (set_socket_options f k)" "keeps idle_fds (setup_pair a)"
  unfolding closesocket_def s_accept_def s_socket_def setup_fd_def s_pipe_def setup_pair_def set_socket_options_def
  by (auto intro!: idle_fds.rules frame_intros simp: Let_def split: list.split)

text \<open>A property that such I/O cannot change.\<close>

definition blind :: "(daemon \<Rightarrow> bool) \<Rightarrow> bool" where
  "blind P \<longleftrightarrow> (\<forall>d c. P d \<longrightarrow> idle_fds (io d) c \<longrightarrow> P (d\<lparr>io := c\<rparr>))"

lemma stays_idle_fds: "blind P \<Longrightarrow> keeps idle_fds m \<Longrightarrow> stays P (onio m)"
  unfolding stays_def wp_onio blind_def by (auto elim!: wp_keeps)

lemma stays_sys: "blind P \<Longrightarrow> stays P (onio (sys q))"
  by (simp add: stays_idle_fds idle_fds.sys)

section \<open>What is watched\<close>

text \<open>The poll set asks about the descriptors in \<open>S\<close>, for reading.\<close>

definition exactly :: "int set \<Rightarrow> daemon \<Rightarrow> bool" where
  "exactly S d \<longleftrightarrow> os_ok (os (env (io d))) \<and> 0 \<le> listen_fds_start d \<and> poll_inv (fds (io d)) \<and>
     (\<forall>g. poll_want (fds (io d)) g = (if g \<in> S then Some (True, False) else None))"

definition bound :: "port list \<Rightarrow> int set" where
  "bound ps = s_fd ` {p \<in> set ps. s_accept_on p \<and> s_fd p \<noteq> INVALID_SOCKET}"

definition watching :: "daemon \<Rightarrow> bool" where
  "watching d \<longleftrightarrow> (\<exists>S. S \<subseteq> insert (fst (signal_pipe d)) (bound (ports d)) \<and> exactly S d)"

lemma exactly_idle_fds: "exactly S d \<Longrightarrow> idle_fds (io d) c \<Longrightarrow> exactly S (d\<lparr>io := c\<rparr>)"
  by (simp add: exactly_def idle_fds_def)

lemma exactly_fields [simp]:
  "exactly S (d\<lparr>ports := p\<rparr>) = exactly S d" "exactly S (d\<lparr>signal_pipe := q\<rparr>) = exactly S d"
  "exactly S (d\<lparr>threads := r\<rparr>) = exactly S d" "exactly S (d\<lparr>reloads := n\<rparr>) = exactly S d"
  "exactly S (d\<lparr>sig_buf := b\<rparr>) = exactly S d" "exactly S (d\<lparr>sig_ptr := n\<rparr>) = exactly S d"
  "exactly S (d\<lparr>libwrap_processes := n\<rparr>) = exactly S d" "exactly S (d\<lparr>libwrap_initialized := q'\<rparr>) = exactly S d"
  "exactly S (d\<lparr>ipc_socket := fs\<rparr>) = exactly S d" "exactly S (d\<lparr>max_clients := m\<rparr>) = exactly S d"
  by (simp_all add: exactly_def)

lemma bound_simps [simp]: "bound [] = {}"
  "bound (p # ps) = (if s_accept_on p \<and> s_fd p \<noteq> INVALID_SOCKET then insert (s_fd p) (bound ps) else bound ps)"
  "bound (ps @ qs) = bound ps \<union> bound qs"
  by (auto simp: bound_def)

lemma wp_poll_add:
  "exactly S d \<Longrightarrow> exactly (insert f S) (d\<lparr>io := (io d)\<lparr>fds := s_poll_add (fds (io d)) f True False\<rparr>\<rparr>)"
  by (auto simp: exactly_def poll_inv_add poll_want_add)

lemma wp_poll_remove:
  "exactly S d \<Longrightarrow> exactly (S - {f}) (d\<lparr>io := (io d)\<lparr>fds := s_poll_remove (fds (io d)) f\<rparr>\<rparr>)"
  by (auto simp: exactly_def poll_inv_remove poll_want_remove)

lemma watch_pipe_exactly:
  assumes "os_ok (os (env (io d)))" "0 \<le> listen_fds_start d"
  shows "wp watch_pipe (\<lambda>_ d'. exactly {fst (signal_pipe d')} d' \<and> signal_pipe d' = signal_pipe d \<and> ports d' = ports d)
    (\<lambda>_ _. False) d"
proof -
  let ?d = "d\<lparr>io := (io d)\<lparr>fds := s_poll_init (fds (io d))\<rparr>\<rparr>"
  have "exactly {} ?d" using assms by (simp add: exactly_def poll_inv_init poll_want_init)
  from wp_poll_add [OF this, of "fst (signal_pipe d)"] show ?thesis
    by (cases "signal_pipe d") (simp add: watch_pipe_def wp_simps poll_init_def poll_add_def)
qed

lemma stays_case_addr: "(\<And>p. a = AF_UNIX p \<Longrightarrow> stays P (m p)) \<Longrightarrow>
  stays P (case a of AF_UNIX p \<Rightarrow> m p | _ \<Rightarrow> retM ())"
  by (cases a) auto

text \<open>Nothing but the signal pipe is watched while the ports are being closed.\<close>

abbreviation pipe_only :: "daemon \<Rightarrow> bool" where
  "pipe_only d \<equiv> exactly {fst (signal_pipe d)} d"

lemma blind_pipe_only: "blind pipe_only"
  by (simp add: blind_def exactly_idle_fds)

text \<open>A property that requests which open and close nothing cannot change.\<close>

definition unmoved :: "(daemon \<Rightarrow> bool) \<Rightarrow> bool" where
  "unmoved P \<longleftrightarrow> (\<forall>q. fd_neutral q \<longrightarrow> stays P (onio (sys q)))"

lemma blind_unmoved: "blind P \<Longrightarrow> unmoved P"
  by (simp add: unmoved_def stays_sys)

lemma remove_socket_stays: "unmoved P \<Longrightarrow> stays P (remove_socket a)"
  unfolding remove_socket_def unmoved_def by (intro stays_case_addr stays_rules) (auto simp: fd_neutral_def)

lemma chown_socket_stays: "unmoved P \<Longrightarrow> stays P (chown_socket p)"
  unfolding chown_socket_def unmoved_def by (intro stays_case_addr stays_rules) (auto simp: fd_neutral_def)

lemma unbind_port_pipe_only: "stays pipe_only (unbind_port i)"
  unfolding unbind_port_def set_fd_def get_port_def
  by (intro stays_rules stays_modM remove_socket_stays blind_unmoved stays_sys stays_idle_fds blind_pipe_only frame_intros) auto

lemma unbind_ports_pipe_only:
  assumes "os_ok (os (env (io d)))" "0 \<le> listen_fds_start d"
  shows "wp unbind_ports (\<lambda>_. pipe_only) (\<lambda>_. pipe_only) d"
proof -
  have "stays pipe_only (bindM (getM (\<lambda>d. length (ports d))) (\<lambda>n. forM [0..<n] unbind_port))"
    by (intro stays_rules stays_simps unbind_port_pipe_only)
  with watch_pipe_exactly [OF assms] show ?thesis
    unfolding unbind_ports_def wp_seqM by (auto simp: stays_def elim!: wp_mono)
qed

text \<open>The ports before the \<open>k\<close>-th are open and watched.\<close>

definition bound_to :: "nat \<Rightarrow> daemon \<Rightarrow> bool" where
  "bound_to k d \<longleftrightarrow> exactly (insert (fst (signal_pipe d)) (bound (take k (ports d)))) d"

definition binding :: "nat \<Rightarrow> int \<Rightarrow> daemon \<Rightarrow> bool" where
  "binding k f d \<longleftrightarrow> bound_to k d \<and> k < length (ports d) \<and> s_accept_on (ports d ! k) \<and> s_fd (ports d ! k) = f"

lemma blind_bound_to: "blind (bound_to k)"
  by (auto simp: blind_def bound_to_def intro: exactly_idle_fds)

lemma blind_binding: "blind (binding k f)"
  by (auto simp: blind_def binding_def bound_to_def intro: exactly_idle_fds)

lemma bound_take: "bound (take k ps) \<subseteq> bound ps"
  by (auto simp: bound_def dest: in_set_takeD)

lemma bound_to_watching: "bound_to k d \<Longrightarrow> watching d"
  using bound_take [of k "ports d"] unfolding bound_to_def watching_def by blast

lemma binding_watching: "binding k f d \<Longrightarrow> watching d"
  by (auto simp: binding_def intro: bound_to_watching)

lemma pipe_only_watching: "pipe_only d \<Longrightarrow> watching d"
  unfolding watching_def by blast

lemma bound_to_same:
  "k < length (ports d) \<Longrightarrow> bound_to k d \<Longrightarrow>
    \<not> (s_accept_on (ports d ! k) \<and> s_fd (ports d ! k) \<noteq> INVALID_SOCKET) \<Longrightarrow> bound_to (Suc k) d"
  by (auto simp: bound_to_def take_Suc_conv_app_nth)

lemma binding_add:
  assumes "binding k f d" "f \<noteq> INVALID_SOCKET"
  shows "bound_to (Suc k) (d\<lparr>io := (io d)\<lparr>fds := s_poll_add (fds (io d)) f True False\<rparr>\<rparr>)"
  using assms wp_poll_add [of "insert (fst (signal_pipe d)) (bound (take k (ports d)))" d f]
  by (auto simp: binding_def bound_to_def take_Suc_conv_app_nth insert_commute)

lemma bound_to_set_fd: "bound_to k d \<Longrightarrow> bound_to k (d\<lparr>ports := (ports d)[k := p]\<rparr>)"
  by (simp add: bound_to_def)

lemma fail_port_watching:
  assumes "binding k f d"
  shows "wp (fail_port k f) (\<lambda>r d'. r = None \<and> watching d') (\<lambda>_. watching) d"
proof -
  have "wp (onio (closesocket f)) (\<lambda>_. bound_to k) (\<lambda>_. bound_to k) d"
    using assms by (intro staysD stays_idle_fds blind_bound_to frame_intros) (simp add: binding_def)
  then show ?thesis
    unfolding fail_port_def wp_seqM
    by (rule wp_mono) (auto simp: wp_retM set_fd_def wp_modM intro: bound_to_watching bound_to_set_fd)
qed

lemma bind_listen_stays: "unmoved P \<Longrightarrow> stays P (bind_listen b f a)"
  unfolding bind_listen_def unmoved_def by (intro stays_rules) (auto simp: fd_neutral_def)

lemma create_client_stays:
  assumes "blind P" "\<And>d r. P d \<Longrightarrow> P (d\<lparr>threads := r\<rparr>)"
  shows "stays P (create_client s p)"
  unfolding create_client_def
  by (intro stays_rules stays_modM stays_sys stays_idle_fds assms frame_intros) simp_all

lemma bind_port_bound:
  assumes "bound_to k d" "k < length (ports d)"
  shows "wp (bind_port k n) (\<lambda>r d'. if r = None then watching d' else bound_to (Suc k) d' \<and> length (ports d') = length (ports d))
    (\<lambda>_. watching) d"
proof -
  let ?n = "length (ports d)"
  define Q where "Q = (\<lambda>(r :: nat option) d'. if r = None then watching d' else bound_to (Suc k) d' \<and> length (ports d') = ?n)"
  let ?B = "\<lambda>f d. binding k f d \<and> length (ports d) = ?n"
  let ?P = "\<lambda>d'. bound_to k d' \<and> ports d' = ports d"
  have blindB: "blind (?B f)" for f using blind_binding [of k f] by (auto simp: blind_def)
  have blindP: "blind ?P" using blind_bound_to [of k] by (auto simp: blind_def)
  have W: "?B f d' \<Longrightarrow> watching d'" for f d' by (auto intro: binding_watching)
  have final: "wp (seqM (chown_socket p) (seqM (onio (poll_add f True False)) (retM (Some (Suc n))))) Q (\<lambda>_. watching) d'"
    if "?B f d'" "f \<noteq> INVALID_SOCKET" for p f d'
    unfolding wp_seqM
    by (rule wp_mono [OF staysD [OF chown_socket_stays [OF blind_unmoved [OF blindB [of f]]]]])
      (use that binding_add in \<open>auto simp: Q_def wp_simps poll_add_def W\<close>)
  have failed: "wp (fail_port k f) Q (\<lambda>_. watching) d'" if "binding k f d'" for f d'
    by (rule wp_mono [OF fail_port_watching [OF that]]) (auto simp: Q_def)
  have listen: "wp (bindM (bind_listen b f (s_addr p)) (\<lambda>ok. if \<not> ok then fail_port k f
        else seqM (chown_socket p) (seqM (onio (poll_add f True False)) (retM (Some (Suc n)))))) Q (\<lambda>_. watching) d'"
    if "?B f d'" "f \<noteq> INVALID_SOCKET" for b p f d'
    unfolding wp_bindM
    by (rule wp_mono [OF staysD [OF bind_listen_stays [OF blind_unmoved [OF blindB [of f]]] that(1)]])
      (use that(2) in \<open>auto simp: W intro!: final failed\<close>)
  have opened: "wp (bindM (onio (set_socket_options f 0)) (\<lambda>r. if r < 0 then fail_port k f
        else bindM (bind_listen b f (s_addr p)) (\<lambda>ok. if \<not> ok then fail_port k f
        else seqM (chown_socket p) (seqM (onio (poll_add f True False)) (retM (Some (Suc n))))))) Q (\<lambda>_. watching) d'"
    if "?B f d'" "f \<noteq> INVALID_SOCKET" for b p f d'
    unfolding wp_bindM [of "onio _"]
    by (rule wp_mono [OF staysD [OF stays_idle_fds [OF blindB [of f] idle_fds_io(5)] that(1)]])
      (use that(2) in \<open>auto simp: W intro!: listen failed\<close>)
  have begun: "binding k f (d'\<lparr>ports := (ports d)[k := (ports d ! k)\<lparr>s_fd := f\<rparr>]\<rparr>)"
    if "bound_to k d'" "ports d' = ports d" "s_accept_on (ports d ! k)" for d' f
    using that assms(2) by (auto simp: binding_def bound_to_def)
  have unset: "watching (d'\<lparr>ports := (ports d)[k := p]\<rparr>)" if "bound_to k d'" "ports d' = ports d" for d' p
    using bound_to_set_fd [OF that(1), of p] that(2) by (auto intro: bound_to_watching)
  have Qnone: "Q None d' = watching d'" for d' by (simp add: Q_def)
  have start: "0 \<le> listen_fds_start d" using assms(1) by (simp add: bound_to_def exactly_def)
  have "wp (bind_port k n) Q (\<lambda>_. watching) d"
  proof (cases "s_accept_on (ports d ! k)")
    case True
    show ?thesis
    proof (cases "n < systemd_fds d")
      case True
      let ?f = "listen_fds_start d + int n"
      have "?f \<noteq> INVALID_SOCKET" using start by (simp add: INVALID_SOCKET_def)
      from opened [OF _ this] begun [of d] True assms \<open>s_accept_on (ports d ! k)\<close> show ?thesis
        by (simp add: bind_port_def get_port_def set_fd_def wp_eqs)
    next
      case False
      have "wp (onio (s_socket (sa_family (s_addr (ports d ! k))))) (\<lambda>_. ?P) (\<lambda>_. ?P) d"
        using assms(1) by (intro staysD [OF stays_idle_fds [OF blindP]] frame_intros) simp
      then show ?thesis
        using False \<open>s_accept_on (ports d ! k)\<close> unfolding bind_port_def get_port_def set_fd_def
        by (simp add: wp_bindM wp_getM wp_seqM wp_modM not_less)
          (erule wp_mono; auto simp: wp_seqM wp_modM wp_retM Qnone intro: bound_to_watching
            intro!: opened begun unset)
    qed
  next
    case False
    have "wp (create_client INVALID_SOCKET (ports d ! k)) (\<lambda>_. ?P) (\<lambda>_. ?P) d"
      using assms(1) by (intro staysD [OF create_client_stays [OF blindP]]) (auto simp: bound_to_def)
    then show ?thesis
      using False assms bound_to_same [of k]
      by (auto simp: bind_port_def get_port_def wp_eqs Q_def intro: bound_to_watching elim!: wp_mono)
  qed
  then show ?thesis by (simp add: Q_def)
qed

definition bind_state :: "nat \<Rightarrow> nat \<Rightarrow> nat option \<Rightarrow> daemon \<Rightarrow> bool" where
  "bind_state n k r d \<longleftrightarrow> (if r = None then watching d else length (ports d) = n \<and> bound_to k d)"

lemma bind_state_watching: "bind_state n k r d \<Longrightarrow> watching d"
  by (auto simp: bind_state_def intro: bound_to_watching split: if_splits)

lemma bind_loop:
  assumes "pipe_only d" "n = length (ports d)"
  shows "wp (foldM (\<lambda>i r. case r of None \<Rightarrow> retM None | Some k \<Rightarrow> bind_port i k) [0..<n] (Some 0))
    (bind_state n n) (\<lambda>_. watching) d"
proof (rule wp_foldM_upt [where I = "bind_state n"])
  show "bind_state n 0 (Some 0) d" using assms by (simp add: bind_state_def bound_to_def)
next
  fix k r d
  assume "k < n" "bind_state n k r d"
  then show "wp (case r of None \<Rightarrow> retM None | Some m \<Rightarrow> bind_port k m) (bind_state n (Suc k)) (\<lambda>_. watching) d"
    by (cases r) (auto simp: bind_state_def wp_retM intro!: wp_mono [OF bind_port_bound] split: if_splits)
qed

lemma bind_state_done: "bind_state n n (Some k) d \<Longrightarrow> exactly (insert (fst (signal_pipe d)) (bound (ports d))) d"
  by (auto simp: bind_state_def bound_to_def)

lemma watchingD: "watching d \<Longrightarrow> os_ok (os (env (io d))) \<and> 0 \<le> listen_fds_start d"
  by (auto simp: watching_def exactly_def)

lemma blind_watching: "blind watching"
  by (auto simp: blind_def watching_def intro: exactly_idle_fds)

lemma watching_fields [simp]:
  "watching (d\<lparr>threads := r\<rparr>) = watching d" "watching (d\<lparr>sig_buf := b\<rparr>) = watching d"
  "watching (d\<lparr>sig_ptr := n\<rparr>) = watching d" "watching (d\<lparr>libwrap_processes := n\<rparr>) = watching d"
  "watching (d\<lparr>libwrap_initialized := q\<rparr>) = watching d" "watching (d\<lparr>ipc_socket := fs\<rparr>) = watching d"
  by (simp_all add: watching_def)

lemma watching_onio [frame_intros]: "keeps idle_fds m \<Longrightarrow> stays watching (onio m)"
  using blind_watching by (rule stays_idle_fds)

text \<open>The libwrap processes are no business of the poll set.\<close>

definition apart :: "(daemon \<Rightarrow> bool) \<Rightarrow> bool" where
  "apart P \<longleftrightarrow> blind P \<and> (\<forall>d n fs q. P d \<longrightarrow> P (d\<lparr>libwrap_processes := n\<rparr>) \<and> P (d\<lparr>ipc_socket := fs\<rparr>) \<and>
     P (d\<lparr>libwrap_initialized := q\<rparr>))"

lemma libwrap_spawn_stays: "apart P \<Longrightarrow> stays P (libwrap_spawn i)"
  unfolding libwrap_spawn_def
  by (auto intro!: stays_rules stays_idle_fds idle_fds_io idle_fds.sys stays_modM simp: apart_def split: option.split prod.split)

lemma libwrap_start_stays:
  assumes "apart P"
  shows "stays P libwrap_start"
proof -
  have "P d \<Longrightarrow> P (d\<lparr>libwrap_processes := n, ipc_socket := fs\<rparr>)" for d n fs
    using assms unfolding apart_def by metis
  then show ?thesis
    using assms unfolding libwrap_start_def
    by (intro stays_rules stays_simps stays_modM libwrap_spawn_stays) (auto simp: apart_def)
qed

lemma apart_watching: "apart watching"
  by (simp add: apart_def blind_watching)

lemma bind_ports_binds:
  assumes "watching d"
  shows "wp bind_ports (\<lambda>ok d'. watching d' \<and> (ok \<longrightarrow> exactly (insert (fst (signal_pipe d')) (bound (ports d'))) d'))
    (\<lambda>_. watching) d"
proof -
  have rest: "wp (seqM watch_pipe (seqM (modM (\<lambda>d. d\<lparr>ports := forget_fds (ports d)\<rparr>))
      (bindM (getM (\<lambda>d. length (ports d))) (\<lambda>n.
       bindM (foldM (\<lambda>i r. case r of None \<Rightarrow> retM None | Some k \<Rightarrow> bind_port i k) [0..<n] (Some 0)) (\<lambda>r.
       bindM (getM systemd_fds) (\<lambda>inherited. retM (case r of None \<Rightarrow> False | Some k \<Rightarrow> \<not> k < inherited)))))))
    (\<lambda>ok d'. watching d' \<and> (ok \<longrightarrow> exactly (insert (fst (signal_pipe d')) (bound (ports d'))) d')) (\<lambda>_. watching) d'"
    if "watching d'" for d'
  proof -
    have loop: "wp (foldM (\<lambda>i r. case r of None \<Rightarrow> retM None | Some k \<Rightarrow> bind_port i k) [0..<length (forget_fds (ports d'))] (Some 0))
        (bind_state (length (forget_fds (ports d'))) (length (forget_fds (ports d')))) (\<lambda>_. watching) (d2\<lparr>ports := forget_fds (ports d')\<rparr>)"
      if "pipe_only d2" for d2
      using that by (intro bind_loop) simp_all
    show ?thesis
      unfolding wp_seqM using watchingD [OF that]
      by (intro wp_mono [OF watch_pipe_exactly])
        (auto simp: wp_bindM wp_getM wp_seqM wp_modM wp_retM
          dest: bind_state_watching bind_state_done intro!: wp_mono [OF loop] split: option.splits)
  qed
  show ?thesis
    unfolding bind_ports_def wp_bindM [of libwrap_start]
    by (rule wp_mono [OF staysD [OF libwrap_start_stays [OF apart_watching] assms]]) (auto intro: rest)
qed

lemma accept_connection_watching: "stays watching (accept_connection p)"
  unfolding accept_connection_def
  by (intro stays_rules stays_simps frame_intros idle_fds.sys create_client_stays blind_watching)
    (auto split: sum.split intro!: stays_rules frame_intros idle_fds.sys create_client_stays blind_watching)

lemma accept_ready_watching: "stays watching (accept_ready i b)"
  unfolding accept_ready_def get_port_def by (intro stays_rules accept_connection_watching) simp_all

lemma bind_ports_watching: "stays watching bind_ports"
  unfolding stays_def by (auto intro: wp_mono [OF bind_ports_binds])

lemma unbind_ports_watching: "stays watching unbind_ports"
  unfolding stays_def by (auto dest!: watchingD intro: pipe_only_watching wp_mono [OF unbind_ports_pipe_only])

lemma child_status_watching: "stays watching child_status"
  unfolding child_status_def by (intro stays_rules frame_intros idle_fds.sys) simp_all

lemma reload_config_watching: "stays watching reload_config"
  unfolding stays_def
proof (intro allI impI)
  fix d assume "watching d"
  then have parse: "wp (onio (sys Options_parse)) (\<lambda>_. watching) (\<lambda>_. watching) d"
    by (intro staysD frame_intros idle_fds.sys) simp_all
  have "wp (seqM unbind_ports (seqM options_apply
      (bindM bind_ports (\<lambda>_. retM ())))) (\<lambda>_. watching) (\<lambda>_. watching) d'" if "watching d'" for d'
  proof -
    have "watching (d\<lparr>ports := p, reloads := n\<rparr>)" if "pipe_only d" for d p n
      using that by (auto simp: watching_def intro!: exI [of _ "{fst (signal_pipe d)}"])
    then show ?thesis
      unfolding wp_seqM using watchingD [OF that]
      by (intro wp_mono [OF unbind_ports_pipe_only])
        (auto simp: options_apply_def wp_modM wp_bindM wp_retM_fun intro: pipe_only_watching staysD [OF bind_ports_watching])
  qed
  with parse show "wp reload_config (\<lambda>_. watching) (\<lambda>_. watching) d"
    unfolding reload_config_def by (auto simp: wp_bindM wp_retM elim!: wp_mono)
qed

lemma signal_pipe_init_watching:
  assumes "exactly S d" "S \<subseteq> bound (ports d)"
  shows "wp signal_pipe_init (\<lambda>_ d'. exactly S d' \<and> S \<subseteq> bound (ports d')) (\<lambda>_ d'. exactly S d' \<and> S \<subseteq> bound (ports d')) d"
proof -
  have "stays (\<lambda>d. exactly S d \<and> S \<subseteq> bound (ports d)) signal_pipe_init"
    unfolding signal_pipe_init_def
    by (intro stays_rules stays_idle_fds frame_intros)
      (auto simp: blind_def intro: exactly_idle_fds intro!: stays_rules stays_modM split: option.split)
  then show ?thesis using assms by (simp add: stays_def)
qed

lemma reopen_pipe_watching: "stays watching reopen_pipe"
  unfolding stays_def
proof (intro allI impI)
  fix d assume "watching d"
  then obtain S where S: "exactly S d" "S - {fst (signal_pipe d)} \<subseteq> bound (ports d)" by (auto simp: watching_def)
  let ?S = "S - {fst (signal_pipe d)}"
  let ?P = "\<lambda>d. exactly ?S d \<and> ?S \<subseteq> bound (ports d)"
  have P: "?P (d\<lparr>io := (io d)\<lparr>fds := s_poll_remove (fds (io d)) (fst (signal_pipe d))\<rparr>\<rparr>)"
    using S wp_poll_remove [of S d "fst (signal_pipe d)"] by simp
  have close: "stays ?P (onio (closesocket f))" for f
    by (intro stays_idle_fds frame_intros) (auto simp: blind_def intro: exactly_idle_fds)
  have init: "stays ?P signal_pipe_init" using signal_pipe_init_watching by (auto simp: stays_def)
  have W: "?P d' \<Longrightarrow> watching d'" for d' by (auto simp: watching_def)
  have fin: "wp (if b then retM True else bindM (getM signal_pipe) (\<lambda>(r', w'). seqM (onio (poll_add r' True False)) (retM False)))
      (\<lambda>_. watching) (\<lambda>_. watching) d'" if "?P d'" for b d'
  proof -
    obtain r' w' where pipe: "signal_pipe d' = (r', w')" by (cases "signal_pipe d'")
    have "watching (d'\<lparr>io := (io d')\<lparr>fds := s_poll_add (fds (io d')) r' True False\<rparr>\<rparr>)"
      using that wp_poll_add [of ?S d' r'] pipe
      by (auto simp: watching_def intro!: exI [of _ "insert r' ?S"])
    then show ?thesis using that W pipe by (simp add: wp_simps poll_add_def)
  qed
  have "wp (seqM (onio (closesocket r)) (seqM (onio (closesocket w)) (bindM signal_pipe_init (\<lambda>failed.
      if failed then retM True else bindM (getM signal_pipe) (\<lambda>(r', w'). seqM (onio (poll_add r' True False)) (retM False))))))
      (\<lambda>_. watching) (\<lambda>_. watching) d'" if "?P d'" for r w d'
    unfolding wp_seqM [of "onio (closesocket _)"] wp_bindM [of signal_pipe_init]
    by (intro wp_mono [OF staysD [OF close that]] wp_mono [OF staysD [OF close]] wp_mono [OF staysD [OF init]] fin) (auto intro: W)
  from this [OF P] show "wp reopen_pipe (\<lambda>_. watching) (\<lambda>_. watching) d"
    by (cases "signal_pipe d") (simp add: reopen_pipe_def wp_bindM wp_getM wp_seqM poll_remove_def wp_onio wp_modM)
qed

lemma handle_signal_watching: "stays watching (handle_signal s)"
  unfolding handle_signal_def
  by (intro stays_rules child_status_watching reload_config_watching) simp_all

lemma signal_pipe_dispatch_watching: "stays watching signal_pipe_dispatch"
  unfolding signal_pipe_dispatch_def
  by (auto intro!: stays_rules stays_modM handle_signal_watching reopen_pipe_watching frame_intros idle_fds.sys split: prod.split)

lemma want_of_store: "length rs = length ps \<Longrightarrow> want_of (map2 (\<lambda>p r. p\<lparr>revents := r\<rparr>) ps rs) f = want_of ps f"
  by (induction ps rs rule: list_induct2') auto

lemma store_revents_used:
  assumes "poll_inv s" "length rs = length (poll_used s)"
  shows "poll_used (store_revents s rs) = map2 (\<lambda>p r. p\<lparr>revents := r\<rparr>) (poll_used s) rs"
  using assms poll_inv_used [OF assms(1)] by (simp add: poll_used_def store_revents_def)

lemma pfd_of_store: "length rs = length ps \<Longrightarrow> map pfd (map2 (\<lambda>p r. p\<lparr>revents := r\<rparr>) ps rs) = map pfd ps"
  by (induction ps rs rule: list_induct2') auto

lemma poll_inv_store:
  assumes "poll_inv s" "length rs = length (poll_used s)"
  shows "poll_inv (store_revents s rs)"
proof -
  have "map pfd (poll_used (store_revents s rs)) = map pfd (poll_used s)"
    unfolding store_revents_used [OF assms] using assms(2) by (rule pfd_of_store)
  then show ?thesis
    using assms poll_inv_used [OF assms(1)] by (simp add: poll_inv_def) (simp add: store_revents_def)
qed

lemma store_revents_exactly:
  assumes "exactly S (d\<lparr>io := c\<rparr>)" "length rs = length (poll_used (fds c))"
  shows "exactly S (d\<lparr>io := c\<lparr>fds := store_revents (fds c) rs\<rparr>\<rparr>)"
  using assms by (auto simp: exactly_def poll_inv_store poll_want_def store_revents_used want_of_store)

lemma s_poll_wait_watching: "stays watching (onio (s_poll_wait s t))"
  unfolding stays_def wp_onio
proof (intro allI impI)
  fix d assume "watching d"
  then obtain S where S: "S \<subseteq> insert (fst (signal_pipe d)) (bound (ports d))" "exactly S d" by (auto simp: watching_def)
  let ?P = "\<lambda>c. exactly S (d\<lparr>io := c\<rparr>)"
  have W: "?P c \<Longrightarrow> watching (d\<lparr>io := c\<rparr>)" for c using S(1) by (auto simp: watching_def)
  have "wp (s_poll_wait s t) (\<lambda>_. ?P) (\<lambda>_. ?P) (io d)"
    unfolding s_poll_wait_def
  proof (rule wp_loopM [where I = "\<lambda>_. ?P"])
    fix a c assume c: "?P c"
    let ?q = "Poll (poll_used (fds c)) (if s < 0 then -1 else 1000 * s + t)"
    let ?a = "os (env c) (now (env c)) ?q"
    have "length (a_revents ?a) = length (poll_used (fds c))"
      using c os_okD [of "os (env c)" ?q] by (auto simp: exactly_def)
    moreover have "?P (env_step ?q c)" using c by (auto simp: exactly_def env_step_def)
    moreover have "fds (env_step ?q c) = fds c" by (simp add: env_step_def)
    ultimately have "?P (env_step ?q c\<lparr>fds := store_revents (fds c) (a_revents ?a)\<rparr>)"
      using store_revents_exactly [where S = S and d = d and c = "env_step ?q c" and rs = "a_revents ?a"] by simp
    with c \<open>?P (env_step ?q c)\<close> show "wp (bindM (getM fds) (\<lambda>ps. bindM (sys (Poll (poll_used ps) (if s < 0 then -1 else 1000 * s + t)))
        (\<lambda>a. if a_ret a < 0 then retM (if a_errno a = EINTR then Inr () else Inl (a_ret a))
             else seqM (modM (\<lambda>c. c\<lparr>fds := store_revents ps (a_revents a)\<rparr>)) (retM (Inl (a_ret a))))))
        (\<lambda>r c'. case r of Inl b \<Rightarrow> ?P c' | Inr a' \<Rightarrow> ?P c') (\<lambda>_. ?P) c"
      by (simp add: wp_eqs del: wp_sys)
  qed (use S in simp_all)
  then show "wp (s_poll_wait s t) (\<lambda>_ c. watching (d\<lparr>io := c\<rparr>)) (\<lambda>_ c. watching (d\<lparr>io := c\<rparr>)) (io d)"
    by (rule wp_mono) (auto intro: W)
qed

lemma daemon_round_watching: "stays watching daemon_round"
  unfolding daemon_round_def
  by (auto intro!: stays_rules signal_pipe_dispatch_watching s_poll_wait_watching accept_ready_watching frame_intros idle_fds.sys
      split: option.split)

lemma daemon_loop_watching: "stays watching daemon_loop"
  unfolding daemon_loop_def by (intro stays_rules daemon_round_watching)

section \<open>The start\<close>

definition idle_start :: "daemon \<Rightarrow> bool" where
  "idle_start d \<longleftrightarrow> os_ok (os (env (io d))) \<and> 0 \<le> listen_fds_start d"

lemma blind_idle_start: "blind idle_start"
  by (simp add: blind_def idle_start_def idle_fds_def)

lemma stays_cron_init: "blind P \<Longrightarrow> (\<And>d r. P d \<Longrightarrow> P (d\<lparr>threads := r\<rparr>)) \<Longrightarrow> stays P cron_init"
  unfolding cron_init_def by (intro stays_rules stays_sys stays_modM) simp_all

lemma inherit_fds_start:
  assumes "os_ok (os (env (io d)))"
  shows "wp inherit_fds (\<lambda>_. idle_start) (\<lambda>_ _. True) d"
proof -
  have "wp (forM xs (\<lambda>i. bindM (onio (sys (Set_nonblock (3 + int i) True))) (\<lambda>_. retM ()))) (\<lambda>_. idle_start) (\<lambda>_ _. True) d'"
    if "idle_start d'" for xs d'
    by (rule wp_mono [OF staysD [of idle_start, OF _ that]]) (auto intro!: stays_rules stays_sys blind_idle_start)
  then show ?thesis
    using assms by (simp add: inherit_fds_def wp_eqs wp_onio idle_start_def del: wp_sys)
qed

lemma poll_alloc: "poll_inv s_poll_alloc" "poll_want s_poll_alloc g = None"
  by (simp_all add: poll_inv_def poll_want_def poll_used_def s_poll_alloc_def)

lemma main_init_exactly:
  assumes "os_ok (os (env (io d)))"
  shows "wp main_init (\<lambda>_. exactly {}) (\<lambda>_ _. True) d"
proof -
  let ?E = "\<lambda>(k :: stop) (d :: daemon). True"
  have step: "wp (seqM m m') Q ?E d'" if "stays idle_start m" "idle_start d'" "\<And>d'. idle_start d' \<Longrightarrow> wp m' Q ?E d'" for m m' Q d'
    unfolding wp_seqM by (rule wp_mono [OF staysD [OF that(1,2)]]) (auto intro: that(3))
  have must: "stays idle_start (must q)" for q
    unfolding must_def by (intro stays_rules stays_sys blind_idle_start) simp_all
  have cron: "stays idle_start cron_init" by (intro stays_cron_init blind_idle_start) (simp add: idle_start_def)
  have limits: "stays idle_start (bindM (onio (sys Sysconf)) (\<lambda>a. modM (\<lambda>d. d\<lparr>io := (io d)\<lparr>max_fds := fst (get_limits (a_ret a))\<rparr>,
        max_clients := snd (get_limits (a_ret a))\<rparr>)))"
    by (intro stays_rules stays_sys stays_modM blind_idle_start) (simp add: idle_start_def)
  have pipe: "wp (seqM (modM (\<lambda>d. d\<lparr>io := (io d)\<lparr>fds := s_poll_alloc\<rparr>\<rparr>))
      (bindM signal_pipe_init (\<lambda>failed. if failed then stopM Fatal else retM ()))) (\<lambda>_. exactly {}) ?E d'" if "idle_start d'" for d'
  proof -
    have "exactly {} (d'\<lparr>io := (io d')\<lparr>fds := s_poll_alloc\<rparr>\<rparr>)"
      using that by (simp add: exactly_def idle_start_def poll_alloc)
    then show ?thesis
      unfolding wp_seqM wp_modM wp_bindM
      by (intro wp_mono [OF signal_pipe_init_watching]) (auto simp: wp_stopM wp_retM)
  qed
  show ?thesis
    unfolding main_init_def wp_seqM [of inherit_fds]
    by (intro wp_mono [OF inherit_fds_start [OF assms]] step must cron limits pipe stays_modM)
      (auto simp: idle_start_def)
qed

text \<open>The poll set and what it asks about are in step from the end of \<open>bind_ports\<close> on.\<close>

definition in_step :: "daemon \<Rightarrow> bool" where
  "in_step d \<longleftrightarrow> exactly (insert (fst (signal_pipe d)) (bound (ports d))) d"

lemma in_step_watching: "in_step d \<Longrightarrow> watching d"
  by (auto simp: in_step_def watching_def)

lemma blind_in_step: "blind in_step"
  by (auto simp: blind_def in_step_def intro: exactly_idle_fds)

lemma in_step_stays:
  "stays in_step change_root" "stays in_step (drop_privileges b)" "stays in_step (onio (sys q))"
  unfolding change_root_def drop_privileges_def
  by (auto intro!: stays_rules stays_sys blind_in_step split: option.split)

lemma main_configure_in_step:
  assumes "exactly {} d"
  shows "wp main_configure (\<lambda>ok d'. watching d' \<and> (ok \<longrightarrow> in_step d')) (\<lambda>_. watching) d"
proof -
  let ?rest = "bindM change_root (\<lambda>ok. if \<not> ok then retM False
         else bindM (drop_privileges True) (\<lambda>ok. if \<not> ok then retM False
         else bindM (onio (sys Log_open)) (\<lambda>l. if a_ret l \<noteq> 0 then retM False
         else seqM (modM (\<lambda>d. d\<lparr>io := (io d)\<lparr>num_clients := 0\<rparr>\<rparr>)) (retM True))))"
  have "stays in_step ?rest"
    using blind_in_step by (intro stays_rules stays_modM in_step_stays) (auto simp: blind_def idle_fds_def)
  then have rest: "wp ?rest (\<lambda>ok d'. watching d' \<and> (ok \<longrightarrow> in_step d')) (\<lambda>_. watching) d'" if "in_step d'" for d'
    using that by (intro wp_mono [OF staysD [of in_step]]) (auto dest: in_step_watching)
  have "watching (d'\<lparr>ports := p, reloads := n\<rparr>)" if "exactly {} d'" for d' p n
    using that by (auto simp: watching_def intro!: exI [of _ "{}"])
  moreover have "stays (exactly {}) (onio (sys Options_cmdline))"
    by (intro stays_sys) (auto simp: blind_def intro: exactly_idle_fds)
  moreover have "exactly {} d' \<Longrightarrow> watching d'" for d' by (auto simp: watching_def)
  ultimately show ?thesis
    unfolding main_configure_def wp_bindM [of "onio _"]
    by (intro wp_mono [OF staysD [of "exactly {}", OF _ assms]])
      (auto simp: wp_retM wp_seqM options_apply_def wp_modM wp_bindM [of bind_ports] in_step_def [symmetric]
        intro!: wp_mono [OF bind_ports_binds] rest)
qed

lemma daemon_mode_watching: "stays watching (daemon_mode f)"
  unfolding daemon_mode_def daemonize_def create_pid_def Let_def
  by (auto intro!: stays_rules stays_modM daemon_loop_watching frame_intros idle_fds.sys split: option.split)

lemma main_cleanup_watching: "stays watching main_cleanup"
  unfolding main_cleanup_def by (rule unbind_ports_watching)

end
