(* ===== verification/Custody.thy ===== *)
theory Custody
  imports Ports
begin

text \<open>
  Who owns the descriptors of the main thread: while thread creation succeeds, every descriptor it has opened and not
  closed is an end of the signal pipe, a bound port, or in the hands of one client thread. When thread creation
  fails, the accepted descriptor is closed twice.
\<close>

section \<open>The account\<close>

definition port_fds :: "port list \<Rightarrow> int list" where
  "port_fds ps = map s_fd (filter (\<lambda>p. s_accept_on p \<and> s_fd p \<noteq> INVALID_SOCKET) ps)"

fun handed :: "thread \<Rightarrow> int list" where
  "handed Cron_thread = []"
| "handed (Client_thread o' s) = one_fd s"

definition thread_fds :: "thread list \<Rightarrow> int list" where
  "thread_fds ts = concat (map handed ts)"

text \<open>What the environment is assumed to do: threads can be created, no port comes from systemd, libwrap is not
  enabled (the default), and a configuration that was just read has no open ports.\<close>

definition no_libwrap :: "port list \<Rightarrow> bool" where
  "no_libwrap ps \<longleftrightarrow> \<not> (\<exists>p \<in> set ps. s_libwrap p)"

definition quiet_host :: "daemon \<Rightarrow> bool" where
  "quiet_host d \<longleftrightarrow> os_ok (os (env (io d))) \<and> (\<forall>n s. a_ret (os (env (io d)) n (Thread_create s)) = 0) \<and>
     systemd_fds d = 0 \<and> (\<forall>n. a_ret (os (env (io d)) n Sd_listen_fds) = 0) \<and>
     (\<forall>n. port_fds (configs d n) = [] \<and> no_libwrap (configs d n))"

text \<open>The descriptors held, more than \<open>K\<close>: those in \<open>ps\<close>, the pipe if \<open>b\<close>, the ports and those of the threads.\<close>

definition pipe_fds :: "daemon \<Rightarrow> int list" where
  "pipe_fds d = [fst (signal_pipe d), snd (signal_pipe d)]"

definition owns :: "bool \<Rightarrow> daemon \<Rightarrow> int list" where
  "owns b d = (if b then pipe_fds d else []) @ port_fds (ports d) @ thread_fds (threads d)"

definition acct :: "bool \<Rightarrow> int list \<Rightarrow> (int \<Rightarrow> int) \<Rightarrow> daemon \<Rightarrow> bool" where
  "acct b ps K d \<longleftrightarrow> quiet_host d \<and> no_libwrap (ports d) \<and> (\<forall>f. held f (io d) = K f + int (count_list (ps @ owns b d) f))"

text \<open>I/O that opens and closes nothing.\<close>

definition even_io :: "cli \<Rightarrow> cli \<Rightarrow> bool" where
  "even_io c c' \<longleftrightarrow> os (env c') = os (env c) \<and> (\<forall>f. held f c' = held f c)"

interpretation even: frame_rel even_io fd_neutral
  by unfold_locales (auto simp: even_io_def held_def fd_neutral_opens env_step_def held_in_def fd_neutral_def)

lemma even_fds: "even_io c (c\<lparr>fds := p\<rparr>)"
  by (simp add: even_io_def held_def)

lemma even_calls [frame_intros]:
  "keeps even_io poll_init" "keeps even_io (poll_add f r w)" "keeps even_io (poll_remove f)"
  "keeps even_io (set_socket_options f k)" "keeps even_io (s_poll_wait s t)"
  unfolding poll_init_def poll_add_def poll_remove_def set_socket_options_def s_poll_wait_def
  by (auto intro!: even.rules even.modM even_fds frame_intros simp: fd_neutral_def split: list.split)

lemma owns_fields [simp]:
  "owns b (d\<lparr>io := c\<rparr>) = owns b d" "owns b (d\<lparr>sig_buf := x\<rparr>) = owns b d" "owns b (d\<lparr>sig_ptr := n\<rparr>) = owns b d"
  "owns b (d\<lparr>reloads := n\<rparr>) = owns b d"
  by (simp_all add: owns_def pipe_fds_def)

lemma acct_fields [simp]:
  "acct b ps K (d\<lparr>sig_buf := x\<rparr>) = acct b ps K d" "acct b ps K (d\<lparr>sig_ptr := n\<rparr>) = acct b ps K d"
  "acct b ps K (d\<lparr>reloads := n\<rparr>) = acct b ps K d"
  by (simp_all add: acct_def quiet_host_def)

lemma acct_even: "acct b ps K d \<Longrightarrow> even_io (io d) c \<Longrightarrow> acct b ps K (d\<lparr>io := c\<rparr>)"
  by (simp add: acct_def even_io_def quiet_host_def)

definition even_blind :: "(daemon \<Rightarrow> bool) \<Rightarrow> bool" where
  "even_blind P \<longleftrightarrow> (\<forall>d c. P d \<longrightarrow> even_io (io d) c \<longrightarrow> P (d\<lparr>io := c\<rparr>))"

lemma stays_even: "even_blind P \<Longrightarrow> keeps even_io m \<Longrightarrow> stays P (onio m)"
  unfolding stays_def wp_onio even_blind_def by (auto elim!: wp_keeps)

lemma even_unmoved: "even_blind P \<Longrightarrow> unmoved P"
  by (simp add: unmoved_def stays_even even.sys)

lemma even_acct: "even_blind (acct b ps K)"
  by (simp add: even_blind_def acct_even)

lemma quiet_fields [simp]:
  "quiet_host (d\<lparr>ports := p\<rparr>) = quiet_host d" "quiet_host (d\<lparr>threads := t\<rparr>) = quiet_host d"
  by (simp_all add: quiet_host_def)

lemma port_fds_simps [simp]: "port_fds [] = []" "port_fds (ps @ qs) = port_fds ps @ port_fds qs"
  "port_fds (p # ps) = (if s_accept_on p \<and> s_fd p \<noteq> INVALID_SOCKET then s_fd p # port_fds ps else port_fds ps)"
  by (simp_all add: port_fds_def)

lemma thread_fds_snoc [simp]: "thread_fds (ts @ [t]) = thread_fds ts @ handed t" "thread_fds [] = []"
  by (simp_all add: thread_fds_def)

lemma count_port_update:
  assumes "k < length ps"
  shows "count_list (port_fds (ps[k := p])) f + count_list (port_fds [ps ! k]) f =
    count_list (port_fds ps) f + count_list (port_fds [p]) f"
proof -
  have "ps = take k ps @ ps ! k # drop (Suc k) ps" using assms by (simp add: id_take_nth_drop)
  then have "count_list (port_fds ps) f = count_list (port_fds (take k ps)) f + count_list (port_fds [ps ! k]) f
      + count_list (port_fds (drop (Suc k) ps)) f"
    by (metis append_Cons append_Nil add.assoc count_list_append port_fds_simps(2))
  moreover have "count_list (port_fds (ps[k := p])) f = count_list (port_fds (take k ps)) f + count_list (port_fds [p]) f
      + count_list (port_fds (drop (Suc k) ps)) f"
    using assms by (simp add: upd_conv_take_nth_drop)
  ultimately show ?thesis by simp
qed

section \<open>Opening, closing, handing over\<close>

text \<open>Only the I/O state differs.\<close>

definition same :: "daemon \<Rightarrow> daemon \<Rightarrow> bool" where
  "same d d' \<longleftrightarrow> (\<exists>c. d' = d\<lparr>io := c\<rparr>)"

lemma same_refl [simp]: "same d d"
  by (simp add: same_def exI [of _ "io d"])

lemma same_trans: "same a b \<Longrightarrow> same b c \<Longrightarrow> same a c"
  by (auto simp: same_def)

lemma same_fields: "same d d' \<Longrightarrow> ports d' = ports d \<and> threads d' = threads d \<and> signal_pipe d' = signal_pipe d \<and>
  systemd_fds d' = systemd_fds d \<and> listen_fds_start d' = listen_fds_start d"
  by (auto simp: same_def)

abbreviation unless_stopped :: "stop \<Rightarrow> 's \<Rightarrow> bool" where
  "unless_stopped \<equiv> \<lambda>_ _. True"

lemma acct_yields:
  assumes "yields g m" "keeps io_le m" "acct b ps K d"
  shows "wp (onio m) (\<lambda>a d'. acct b (g a @ ps) K d' \<and> same d d') unless_stopped d"
proof -
  have "os_ok (os (env (io d)))" using assms(3) by (simp add: acct_def quiet_host_def)
  then have "wp m (\<lambda>a c. (\<forall>f. held f c = held f (io d) + int (count_list (g a) f)) \<and> io_le (io d) c)
      (\<lambda>k c. True \<and> io_le (io d) c) (io d)"
    using assms(1,2) by (intro wp_conj) (auto simp: yields_def keeps_def)
  then show ?thesis
    unfolding wp_onio
    by (rule wp_mono) (use assms(3) in \<open>auto simp: acct_def same_def quiet_host_def io_le_def env_le_def\<close>)
qed

lemma acct_close:
  assumes "acct b (f # ps) K d"
  shows "wp (onio (closesocket f)) (\<lambda>_ d'. acct b ps K d' \<and> same d d') unless_stopped d"
  using assms
  by (auto simp: wp_onio closesocket_def wp_eqs acct_def same_def quiet_host_def simp del: wp_sys)

lemma acct_sys:
  assumes "acct b ps K d" "fd_neutral q"
  shows "wp (onio (sys q)) (\<lambda>a d'. acct b ps K d' \<and> same d d' \<and> (\<exists>n. a = os (env (io d)) n q)) unless_stopped d"
  using acct_even [OF assms(1) even.env_step [OF assms(2)]]
  by (auto simp: wp_onio wp_eqs same_def simp del: wp_sys)

lemma create_client_acct:
  assumes "acct b (one_fd s @ ps) K d"
  shows "wp (create_client s p) (\<lambda>r d'. r = 0 \<and> acct b ps K d' \<and> ports d' = ports d \<and>
    threads d' = threads d @ [Client_thread (s_opt p) s]) unless_stopped d"
  unfolding create_client_def wp_bindM
  by (rule wp_mono [OF acct_sys [OF assms]])
    (use assms in \<open>auto simp: fd_neutral_def wp_eqs acct_def quiet_host_def same_def owns_def pipe_fds_def\<close>)

lemma accept_loop_acct:
  assumes "acct b ps K d"
  shows "wp (loopD (\<lambda>_. bindM (onio (s_accept f)) (\<lambda>s.
      if s \<noteq> INVALID_SOCKET then retM (Inl (Inl s))
      else bindM (getM (\<lambda>d. errno (env (io d)))) (\<lambda>e. retM (if e = EINTR then Inr () else Inl (Inr (g e)))))) ())
    (\<lambda>r d'. case r of Inl s \<Rightarrow> s \<noteq> INVALID_SOCKET \<and> acct b (s # ps) K d' | Inr (_ :: bool) \<Rightarrow> acct b ps K d') unless_stopped d"
  by (rule wp_loopD [where I = "\<lambda>_. acct b ps K"], use assms in simp)
    (auto simp: wp_bindM one_fd_def wp_getM wp_retM wp_if wp_retM_fun split: sum.split
      intro!: wp_mono [OF acct_yields [OF one_fd_yields(2) fd_io(3)]])

lemma accept_connection_acct:
  assumes "acct b ps K d"
  shows "wp (accept_connection p) (\<lambda>_. acct b ps K) unless_stopped d"
  unfolding accept_connection_def wp_bindM
proof (rule wp_mono [OF accept_loop_acct [OF assms]])
  fix r d'
  assume r: "case r of Inl s \<Rightarrow> s \<noteq> INVALID_SOCKET \<and> acct b (s # ps) K d' | Inr (_ :: bool) \<Rightarrow> acct b ps K d'"
  show "wp (case r of
       Inr delay \<Rightarrow> retM delay
     | Inl s \<Rightarrow>
        bindM (onio (sys Count_clients)) (\<lambda>n.
        bindM (getM max_clients) (\<lambda>limit.
          if limit \<noteq> 0 \<and> a_val n \<ge> limit then seqM (onio (closesocket s)) (retM False)
          else bindM (create_client s p) (\<lambda>e.
            if e \<noteq> 0 then seqM (onio (closesocket s)) (retM False) else retM False))))
      (\<lambda>_. acct b ps K) unless_stopped d'"
  proof (cases r)
    case (Inl s)
    then have s: "s \<noteq> INVALID_SOCKET" "acct b (s # ps) K d'" using r by auto
    then have "acct b (one_fd s @ ps) K d2" if "acct b (s # ps) K d2" for d2 using that by (simp add: one_fd_def)
    then show ?thesis
      unfolding Inl sum.case wp_bindM
      by (intro wp_mono [OF acct_sys [OF s(2)]])
        (auto simp: fd_neutral_def wp_getM wp_seqM wp_retM wp_bindM wp_if
          intro!: wp_mono [OF acct_close] wp_mono [OF create_client_acct])
  qed (use r in \<open>simp add: wp_retM\<close>)
qed simp_all

lemma accept_ready_acct: "acct b ps K d \<Longrightarrow> wp (accept_ready i delay) (\<lambda>_. acct b ps K) unless_stopped d"
  unfolding accept_ready_def get_port_def
  by (auto simp: wp_bindM wp_getM wp_retM wp_retM_fun intro!: wp_mono [OF accept_connection_acct])

section \<open>Ports\<close>

text \<open>The ports from \<open>k\<close> on are closed.\<close>

definition closed_from :: "nat \<Rightarrow> port list \<Rightarrow> bool" where
  "closed_from k ps \<longleftrightarrow> port_fds (drop k ps) = []"

definition closed_to :: "nat \<Rightarrow> port list \<Rightarrow> bool" where
  "closed_to k ps \<longleftrightarrow> port_fds (take k ps) = []"

lemma no_libwrap_update: "no_libwrap ps \<Longrightarrow> \<not> s_libwrap p \<Longrightarrow> no_libwrap (ps[k := p])"
  by (auto simp: no_libwrap_def dest!: set_update_subset_insert [THEN subsetD])

lemma no_libwrap_nth: "no_libwrap ps \<Longrightarrow> k < length ps \<Longrightarrow> \<not> s_libwrap (ps ! k)"
  by (auto simp: no_libwrap_def)

lemma no_libwrap_forget: "no_libwrap ps \<Longrightarrow> no_libwrap (forget_fds ps)"
  by (auto simp: no_libwrap_def forget_fds_def)

lemma acct_set_fd:
  assumes "acct b ps K d" "k < length (ports d)" "s_libwrap p = s_libwrap (ports d ! k)"
    and "\<And>f. count_list ps f + count_list (port_fds [ports d ! k]) f = count_list qs f + count_list (port_fds [p]) f"
  shows "acct b qs K (d\<lparr>ports := (ports d)[k := p]\<rparr>)"
proof -
  have "count_list (ps @ owns b d) f = count_list (qs @ owns b (d\<lparr>ports := (ports d)[k := p]\<rparr>)) f" for f
    using assms(4) [of f] count_port_update [OF assms(2), of p f] by (simp add: owns_def pipe_fds_def)
  moreover have "no_libwrap ((ports d)[k := p])"
    using assms(1-3) no_libwrap_nth [of "ports d" k] by (intro no_libwrap_update) (auto simp: acct_def)
  ultimately show ?thesis using assms(1) by (simp add: acct_def)
qed

lemma forM_append: "forM (xs @ ys) f = seqM (forM xs f) (forM ys f)"
  by (induction xs) (auto simp: fun_eq_iff mdefs split: res.split)

lemma wp_forM_upt:
  assumes "I 0 s" and "\<And>k s. k < n \<Longrightarrow> I k s \<Longrightarrow> wp (f k) (\<lambda>_. I (Suc k)) E s"
  shows "wp (forM [0..<n] f) (\<lambda>_. I n) E s"
proof -
  have "wp (forM [0..<m] f) (\<lambda>_. I m) E s" if "m \<le> n" for m
    using that
  proof (induction m)
    case 0
    then show ?case using assms(1) by (simp add: wp_simps)
  next
    case (Suc m)
    then have "wp (forM [0..<m] f) (\<lambda>_. I m) E s" by simp
    moreover have "wp (f m) (\<lambda>_. I (Suc m)) E s'" if "I m s'" for s'
      using assms(2) [of m] Suc.prems that by simp
    ultimately show ?case
      by (auto simp: forM_append wp_seqM wp_retM_fun elim!: wp_mono)
  qed
  then show ?thesis by simp
qed

lemma watch_pipe_acct: "acct b ps K d \<Longrightarrow> wp watch_pipe (\<lambda>_ d'. acct b ps K d' \<and> same d d') E d"
  using acct_even [of b ps K d]
  by (cases "signal_pipe d") (auto simp: watch_pipe_def wp_simps poll_init_def poll_add_def same_def even_io_def held_def)

lemma wp_seq_stays:
  assumes "stays P m" "P d" "\<And>d'. P d' \<Longrightarrow> wp m' Q E d'" "\<And>k d'. P d' \<Longrightarrow> E k d'"
  shows "wp (seqM m m') Q E d"
  unfolding wp_seqM by (rule wp_mono [OF staysD [OF assms(1,2)]]) (auto intro: assms)

lemma closed_to_Suc: "k < length ps \<Longrightarrow> closed_to (Suc k) ps \<longleftrightarrow> closed_to k ps \<and> port_fds [ps ! k] = []"
  by (simp add: closed_to_def take_Suc_conv_app_nth)

lemma closed_to_update: "closed_to k (ps[k := p]) = closed_to k ps"
  by (simp add: closed_to_def)

lemma daemon_swap: "d\<lparr>ports := p, io := c\<rparr> = d\<lparr>io := c, ports := p\<rparr>"
  by simp

text \<open>Closing a port and forgetting its descriptor, in this order.\<close>

lemma acct_close_port:
  assumes "acct b ps K d" "k < length (ports d)" "s_accept_on (ports d ! k)" "s_fd (ports d ! k) \<noteq> INVALID_SOCKET"
    and "\<And>d'. acct b ps K d' \<Longrightarrow> ports d' = (ports d)[k := (ports d ! k)\<lparr>s_fd := INVALID_SOCKET\<rparr>] \<Longrightarrow>
      threads d' = threads d \<Longrightarrow> wp m Q unless_stopped d'"
  shows "wp (seqM (onio (closesocket (s_fd (ports d ! k)))) (seqM (set_fd k INVALID_SOCKET) m)) Q unless_stopped d"
proof -
  let ?p = "(ports d ! k)\<lparr>s_fd := INVALID_SOCKET\<rparr>"
  have "acct b (s_fd (ports d ! k) # ps) K (d\<lparr>ports := (ports d)[k := ?p]\<rparr>)"
    using assms(1-4) by (intro acct_set_fd [OF assms(1,2)]) simp_all
  from acct_close [OF this] have "now (env (io d)) < horizon (env (io d)) \<Longrightarrow>
      acct b ps K (d\<lparr>io := env_step (Close (s_fd (ports d ! k))) (io d), ports := (ports d)[k := ?p]\<rparr>)"
    by (simp add: wp_onio closesocket_def wp_eqs daemon_swap del: wp_sys)
  then show ?thesis
    using assms(5) by (simp add: wp_seqM wp_onio closesocket_def wp_eqs set_fd_def del: wp_sys)
qed

lemma unbind_port_acct:
  assumes "acct b ps K d" "k < length (ports d)" "closed_to k (ports d)"
  shows "wp (unbind_port k) (\<lambda>_ d'. acct b ps K d' \<and> length (ports d') = length (ports d) \<and> closed_to (Suc k) (ports d'))
    unless_stopped d"
proof -
  let ?p = "ports d ! k" and ?n = "length (ports d)"
  define Q where "Q = (\<lambda>d'. acct b ps K d' \<and> length (ports d') = ?n \<and> closed_to (Suc k) (ports d'))"
  have evQ: "even_blind Q" by (auto simp: Q_def even_blind_def acct_even)
  have flush: "wp (bindM (onio (sys Flush_sessions)) (\<lambda>_. retM ())) (\<lambda>_. Q) unless_stopped d'" if "Q d'" for d'
    using staysD [OF stays_even [OF evQ even.sys] that, of Flush_sessions]
    by (auto simp: wp_bindM wp_retM_fun fd_neutral_def elim!: wp_mono)
  have removed: "wp (remove_socket a) (\<lambda>_. Q) unless_stopped d'" if "Q d'" for a d'
    using staysD [OF remove_socket_stays [OF even_unmoved [OF evQ]] that] by (rule wp_mono) simp_all
  have sys0: "systemd_fds d = 0" using assms(1) by (simp add: acct_def quiet_host_def)
  have first: "wp (if s_accept_on ?p \<and> s_fd ?p \<noteq> INVALID_SOCKET
       then seqM (onio (closesocket (s_fd ?p))) (seqM (set_fd k INVALID_SOCKET) (remove_socket (s_addr ?p)))
       else if exec_connect ?p
       then modM (\<lambda>d. d\<lparr>ports := (ports d)[k := ?p\<lparr>s_opt := (s_opt ?p)\<lparr>o_retry := False\<rparr>\<rparr>]\<rparr>)
       else retM ()) (\<lambda>_. Q) unless_stopped d"
  proof (cases "s_accept_on ?p \<and> s_fd ?p \<noteq> INVALID_SOCKET")
    case True
    have "wp (remove_socket (s_addr ?p)) (\<lambda>_. Q) unless_stopped d'"
      if "acct b ps K d'" "ports d' = (ports d)[k := ?p\<lparr>s_fd := INVALID_SOCKET\<rparr>]" for d'
      using that assms(2,3) by (intro removed) (auto simp: Q_def closed_to_Suc closed_to_update)
    then show ?thesis
      unfolding if_P [OF True] using True by (intro acct_close_port [OF assms(1,2)]) blast+
  next
    case False
    let ?r = "?p\<lparr>s_opt := (s_opt ?p)\<lparr>o_retry := False\<rparr>\<rparr>"
    have none: "port_fds [?p] = []" "port_fds [?r] = []" using False by auto
    have "acct b ps K (d\<lparr>ports := (ports d)[k := ?r]\<rparr>)"
      by (rule acct_set_fd [OF assms(1,2)]) (simp, simp only: none)
    then have "Q (d\<lparr>ports := (ports d)[k := ?r]\<rparr>)" and "Q d"
      using assms none by (simp_all add: Q_def closed_to_Suc closed_to_update del: port_fds_simps)
    then show ?thesis unfolding if_not_P [OF False] wp_if wp_modM wp_retM by simp
  qed
  have outside: "s_fd ?p < listen_fds_start d \<or> listen_fds_start d + int 0 \<le> s_fd ?p" by linarith
  show ?thesis
    unfolding unbind_port_def get_port_def Q_def [symmetric] wp_bindM [of "getM _"] wp_getM sys0 if_P [OF outside] wp_seqM [of "if _ then _ else _"]
    by (rule wp_mono [OF first]) (auto intro: flush)
qed

lemma unbind_ports_acct:
  assumes "acct b ps K d"
  shows "wp unbind_ports (\<lambda>_ d'. acct b ps K d' \<and> port_fds (ports d') = []) unless_stopped d"
proof -
  have "wp (forM [0..<n] unbind_port) (\<lambda>_ d'. acct b ps K d' \<and> port_fds (ports d') = []) unless_stopped d"
    if "acct b ps K d" "n = length (ports d)" for n d
  proof -
    have "wp (forM [0..<n] unbind_port) (\<lambda>_ d'. acct b ps K d' \<and> length (ports d') = n \<and> closed_to n (ports d')) unless_stopped d"
      by (rule wp_forM_upt [where I = "\<lambda>k d. acct b ps K d \<and> length (ports d) = n \<and> closed_to k (ports d)"])
        (use that in \<open>auto simp: closed_to_def intro!: wp_mono [OF unbind_port_acct, simplified]\<close>)
    then show ?thesis by (rule wp_mono) (auto simp: closed_to_def)
  qed
  then show ?thesis
    unfolding unbind_ports_def wp_seqM
    by (intro wp_mono [OF watch_pipe_acct [OF assms]]) (auto simp: wp_bindM wp_getM)
qed

text \<open>Nothing is lost while the \<open>k\<close>-th port is being opened; \<open>f\<close> is its descriptor from the moment it has one.\<close>

definition at_port :: "bool \<Rightarrow> int list \<Rightarrow> (int \<Rightarrow> int) \<Rightarrow> nat \<Rightarrow> nat \<Rightarrow> int list \<Rightarrow> daemon \<Rightarrow> bool" where
  "at_port b ps K k n T d \<longleftrightarrow> acct b ps K d \<and> length (ports d) = n \<and> closed_from (Suc k) (ports d) \<and> thread_fds (threads d) = T"

definition has_port :: "bool \<Rightarrow> int list \<Rightarrow> (int \<Rightarrow> int) \<Rightarrow> nat \<Rightarrow> nat \<Rightarrow> int list \<Rightarrow> int \<Rightarrow> daemon \<Rightarrow> bool" where
  "has_port b ps K k n T f d \<longleftrightarrow> at_port b ps K k n T d \<and> k < n \<and> s_accept_on (ports d ! k) \<and> s_fd (ports d ! k) = f \<and>
     f \<noteq> INVALID_SOCKET"

lemma even_has_port: "even_blind (has_port b ps K k n T f)"
  by (auto simp: even_blind_def has_port_def at_port_def acct_even)

lemma closed_from_update: "closed_from (Suc k) (ps[k := p]) = closed_from (Suc k) ps"
  by (simp add: closed_from_def)

lemma fail_port_acct:
  assumes "has_port b ps K k n T f d"
  shows "wp (fail_port k f) (\<lambda>_. at_port b ps K k n T) unless_stopped d"
proof -
  have "f = s_fd (ports d ! k)" using assms by (simp add: has_port_def)
  have "wp (retM None) (\<lambda>_. at_port b ps K k n T) unless_stopped d'"
    if "acct b ps K d'" "ports d' = (ports d)[k := (ports d ! k)\<lparr>s_fd := INVALID_SOCKET\<rparr>]" "threads d' = threads d" for d'
    using that assms by (simp add: wp_retM has_port_def at_port_def closed_from_update)
  then show ?thesis
    unfolding fail_port_def \<open>f = s_fd (ports d ! k)\<close>
    using assms by (intro acct_close_port) (auto simp: has_port_def at_port_def)
qed

lemma bind_rest_acct:
  assumes "has_port b ps K k n T f d"
  shows "wp (bindM (onio (set_socket_options f 0)) (\<lambda>r. if r < 0 then fail_port k f
      else bindM (bind_listen i f (s_addr p)) (\<lambda>ok. if \<not> ok then fail_port k f
      else seqM (chown_socket p) (seqM (onio (poll_add f True False)) (retM (Some m))))))
    (\<lambda>_. at_port b ps K k n T) unless_stopped d"
proof -
  let ?O = "has_port b ps K k n T f"
  have "wp (seqM (chown_socket p) (seqM (onio (poll_add f True False)) (retM (Some m)))) (\<lambda>_. at_port b ps K k n T) unless_stopped d'"
    if "?O d'" for d'
    by (intro wp_seq_stays [OF chown_socket_stays [OF even_unmoved [OF even_has_port]] that]
        wp_seq_stays [OF stays_even [OF even_has_port even_calls(2)]]) (auto simp: wp_retM has_port_def)
  then show ?thesis
    unfolding wp_bindM
    by (intro wp_mono [OF staysD [OF stays_even [OF even_has_port even_calls(4)] assms]])
      (auto simp: wp_bindM intro!: fail_port_acct wp_mono [OF staysD [OF bind_listen_stays [OF even_unmoved [OF even_has_port]]]])
qed

lemma bind_port_acct:
  assumes "acct b ps K d" "k < length (ports d)" "closed_from k (ports d)"
  shows "wp (bind_port k n) (\<lambda>_. at_port b ps K k (length (ports d)) (thread_fds (threads d))) unless_stopped d"
proof -
  let ?p = "ports d ! k" and ?n = "length (ports d)" and ?T = "thread_fds (threads d)"
  have closed: "port_fds [?p] = []" "closed_from (Suc k) (ports d)"
    using assms(2,3) by (simp_all add: closed_from_def Cons_nth_drop_Suc [symmetric] split: if_splits)
  show ?thesis
  proof (cases "s_accept_on ?p")
    case True
    have set: "at_port b ps K k ?n ?T (d'\<lparr>ports := (ports d)[k := ?p\<lparr>s_fd := f\<rparr>]\<rparr>) \<and>
        (f \<noteq> INVALID_SOCKET \<longrightarrow> has_port b ps K k ?n ?T f (d'\<lparr>ports := (ports d)[k := ?p\<lparr>s_fd := f\<rparr>]\<rparr>))"
      if "acct b (one_fd f @ ps) K d'" "same d d'" for f d'
    proof -
      have "acct b ps K (d'\<lparr>ports := (ports d')[k := ?p\<lparr>s_fd := f\<rparr>]\<rparr>)"
        using that same_fields [OF that(2)] closed(1) assms(2) True
        by (intro acct_set_fd [OF that(1)]) (auto simp: one_fd_def)
      then show ?thesis
        using same_fields [OF that(2)] closed(2) assms(2) True by (simp add: at_port_def has_port_def closed_from_update)
    qed
    have sys0: "systemd_fds d = 0" using assms(1) by (simp add: acct_def quiet_host_def)
    show ?thesis
      unfolding bind_port_def get_port_def set_fd_def wp_bindM [of "getM _"] wp_getM sys0 if_P [OF True]
      unfolding wp_bindM [of "if _ then _ else _"]
      unfolding less_nat_zero_code if_False
    proof (rule wp_mono [OF acct_yields [OF one_fd_yields(1) fd_io(2) assms(1)]])
      fix f d'
      assume "acct b (one_fd f @ ps) K d' \<and> same d d'"
      with set [of f d'] show "wp (seqM (modM (\<lambda>d. d\<lparr>ports := (ports d)[k := (ports d ! k)\<lparr>s_fd := f\<rparr>]\<rparr>))
          (if 0 \<le> n \<and> f = INVALID_SOCKET then retM None
           else bindM (onio (set_socket_options f 0)) (\<lambda>r. if r < 0 then fail_port k f
             else bindM (bind_listen False f (s_addr ?p)) (\<lambda>ok. if \<not> ok then fail_port k f
             else seqM (chown_socket ?p) (seqM (onio (poll_add f True False)) (retM (Some (Suc n))))))))
          (\<lambda>_. at_port b ps K k ?n ?T) unless_stopped d'"
        using same_fields [of d d'] by (auto simp: wp_seqM wp_modM wp_retM intro!: bind_rest_acct)
    qed simp
  next
    case False
    have "wp (create_client INVALID_SOCKET ?p) (\<lambda>_. at_port b ps K k ?n ?T) unless_stopped d"
      using assms closed
      by (intro wp_mono [OF create_client_acct]) (auto simp: one_fd_def at_port_def)
    then show ?thesis
      using False assms closed
      by (auto simp: bind_port_def get_port_def wp_bindM wp_getM wp_seqM wp_retM wp_retM_fun elim!: wp_mono)
        (auto simp: at_port_def)
  qed
qed

lemma forget_fds_closed: "port_fds ps = [] \<Longrightarrow> port_fds (forget_fds ps) = []"
  by (induction ps) (auto simp: forget_fds_def split: if_splits)

lemma bind_loop_acct:
  assumes "acct b ps K d" "port_fds (ports d) = []" "n = length (ports d)"
  shows "wp (foldM (\<lambda>i r. case r of None \<Rightarrow> retM None | Some k \<Rightarrow> bind_port i k) [0..<n] (Some 0))
    (\<lambda>_ d'. acct b ps K d' \<and> thread_fds (threads d') = thread_fds (threads d)) unless_stopped d"
proof -
  define I where "I = (\<lambda>k (_ :: nat option) d'. acct b ps K d' \<and> length (ports d') = n \<and> closed_from k (ports d') \<and>
    thread_fds (threads d') = thread_fds (threads d))"
  have "wp (case r of None \<Rightarrow> retM None | Some m \<Rightarrow> bind_port k m) (I (Suc k)) unless_stopped d'" if "k < n" "I k r d'" for k r d'
  proof (cases r)
    case None
    have "port_fds (drop (Suc k) (ports d')) = []"
      using that by (auto simp: I_def closed_from_def Cons_nth_drop_Suc [symmetric] split: if_splits)
    with None that show ?thesis by (simp add: wp_retM I_def closed_from_def)
  next
    case (Some m)
    with that show ?thesis
      using bind_port_acct [of b ps K d' k m] by (auto simp: I_def at_port_def elim!: wp_mono)
  qed
  moreover have "I 0 (Some 0) d" using assms by (simp add: I_def closed_from_def)
  ultimately have "wp (foldM (\<lambda>i r. case r of None \<Rightarrow> retM None | Some k \<Rightarrow> bind_port i k) [0..<n] (Some 0)) (I n) unless_stopped d"
    by (intro wp_foldM_upt)
  then show ?thesis by (rule wp_mono) (auto simp: I_def)
qed

text \<open>Without libwrap no process is started for it.\<close>

lemma libwrap_start_none: "acct b ps K d \<Longrightarrow> wp libwrap_start Q E d = Q True d"
  by (simp add: libwrap_start_def wp_eqs acct_def no_libwrap_def)

lemma bind_ports_acct:
  assumes "acct b ps K d" "port_fds (ports d) = []"
  shows "wp bind_ports (\<lambda>_ d'. acct b ps K d' \<and> thread_fds (threads d') = thread_fds (threads d)) unless_stopped d"
  unfolding bind_ports_def wp_bindM [of libwrap_start] libwrap_start_none [OF assms(1)] wp_seqM
proof (rule wp_mono [OF watch_pipe_acct [OF assms(1)]])
  fix d' assume d': "acct b ps K d' \<and> same d d'"
  then have p: "ports d' = ports d" "threads d' = threads d" by (auto simp: same_def)
  have "acct b ps K (d'\<lparr>ports := forget_fds (ports d)\<rparr>)"
    using d' p assms(2) forget_fds_closed [OF assms(2)] by (simp add: acct_def owns_def pipe_fds_def no_libwrap_forget)
  then have "wp (foldM (\<lambda>i r. case r of None \<Rightarrow> retM None | Some k \<Rightarrow> bind_port i k) [0..<length (forget_fds (ports d))] (Some 0))
      (\<lambda>_ d2. acct b ps K d2 \<and> thread_fds (threads d2) = thread_fds (threads d)) unless_stopped (d'\<lparr>ports := forget_fds (ports d)\<rparr>)"
    using p forget_fds_closed [OF assms(2)] by (intro wp_mono [OF bind_loop_acct]) auto
  then show "wp (modM (\<lambda>d. d\<lparr>ports := forget_fds (ports d)\<rparr>)) (\<lambda>_. wp (bindM (getM (\<lambda>d. length (ports d))) (\<lambda>n.
       bindM (foldM (\<lambda>i r. case r of None \<Rightarrow> retM None | Some k \<Rightarrow> bind_port i k) [0..<n] (Some 0)) (\<lambda>r.
       bindM (getM systemd_fds) (\<lambda>inherited. retM (case r of None \<Rightarrow> False | Some k \<Rightarrow> \<not> k < inherited)))))
      (\<lambda>_ d'. acct b ps K d' \<and> thread_fds (threads d') = thread_fds (threads d)) unless_stopped) unless_stopped d'"
    by (auto simp: wp_modM wp_bindM wp_getM wp_retM p elim!: wp_mono)
qed simp

section \<open>Signals and the loop\<close>

lemma child_status_acct: "stays (acct b ps K) child_status"
  unfolding child_status_def
  by (intro stays_rules stays_even even_acct even.sys) (simp_all add: fd_neutral_def)

lemma reload_config_acct:
  assumes "acct b ps K d"
  shows "wp reload_config (\<lambda>_. acct b ps K) unless_stopped d"
proof -
  have "acct b ps K (d'\<lparr>ports := configs d' n\<rparr>)" "port_fds (configs d' n) = []"
    if "acct b ps K d'" "port_fds (ports d') = []" for d' n
    using that by (simp_all add: acct_def owns_def pipe_fds_def quiet_host_def)
  then show ?thesis
    unfolding reload_config_def wp_bindM
    by (intro wp_mono [OF acct_sys [OF assms]])
      (auto simp: fd_neutral_def options_apply_def wp_seqM wp_modM wp_retM wp_bindM wp_retM_fun
        intro!: wp_mono [OF unbind_ports_acct] wp_mono [OF bind_ports_acct])
qed

lemma handle_signal_acct: "acct b ps K d \<Longrightarrow> wp (handle_signal s) (\<lambda>_. acct b ps K) unless_stopped d"
  unfolding handle_signal_def
  by (auto simp: wp_seqM wp_retM intro!: wp_mono [OF staysD [OF child_status_acct]] wp_mono [OF reload_config_acct])

lemma signal_pipe_init_acct:
  assumes "acct False ps K d"
  shows "wp signal_pipe_init (\<lambda>failed d'. acct (\<not> failed) ps K d' \<and> ports d' = ports d \<and> threads d' = threads d) unless_stopped d"
  unfolding signal_pipe_init_def wp_bindM
  by (rule wp_mono [OF acct_yields [OF two_fds_yields(2) _ assms]])
    (auto simp: wp_retM wp_seqM wp_modM two_fds_def acct_def owns_def pipe_fds_def quiet_host_def same_def
      intro!: frame_intros split: option.splits)

lemma acct_pipe: "acct True ps K d \<longleftrightarrow> acct False (fst (signal_pipe d) # snd (signal_pipe d) # ps) K d"
  by (simp add: acct_def owns_def pipe_fds_def algebra_simps)

lemma reopen_pipe_acct:
  assumes "acct True ps K d"
  shows "wp reopen_pipe (\<lambda>b. acct (\<not> b) ps K) unless_stopped d"
proof -
  obtain r w where pipe: "signal_pipe d = (r, w)" by (cases "signal_pipe d")
  then have rw: "acct False (r # w # ps) K d" using assms by (simp add: acct_pipe)
  have add: "wp (if b then retM True else bindM (getM signal_pipe) (\<lambda>(r', w'). seqM (onio (poll_add r' True False)) (retM False)))
      (\<lambda>b. acct (\<not> b) ps K) unless_stopped d'" if "acct (\<not> b) ps K d'" for b d'
    using that acct_even [OF that, unfolded even_io_def held_def]
    by (cases "signal_pipe d'") (auto simp: wp_simps poll_add_def)
  have close: "wp (seqM (onio (closesocket r)) (seqM (onio (closesocket w)) (bindM signal_pipe_init (\<lambda>failed.
      if failed then retM True else bindM (getM signal_pipe) (\<lambda>(r', w'). seqM (onio (poll_add r' True False)) (retM False))))))
      (\<lambda>b. acct (\<not> b) ps K) unless_stopped d'" if "acct False (r # w # ps) K d'" for d'
    unfolding wp_seqM [of "onio (closesocket _)"] wp_bindM [of signal_pipe_init]
    by (intro wp_mono [OF acct_close [OF that]]) (auto intro!: wp_mono [OF acct_close] wp_mono [OF signal_pipe_init_acct] add)
  show ?thesis
    using rw close acct_even [OF rw, unfolded even_io_def held_def]
    by (simp add: reopen_pipe_def wp_bindM wp_getM wp_seqM [of "onio (modM _)"] wp_onio poll_remove_def wp_modM pipe)
qed

lemma reopen_pipe_lost:
  assumes "acct True ps K d"
  shows "wp reopen_pipe (\<lambda>b d'. acct True ps K d' \<or> b \<and> acct False ps K d') unless_stopped d"
proof (rule wp_mono [OF reopen_pipe_acct [OF assms]])
  fix b d' assume "acct (\<not> b) ps K d'"
  then show "acct True ps K d' \<or> b \<and> acct False ps K d'" by (cases b) simp_all
qed simp

lemma signal_pipe_dispatch_acct:
  assumes "acct True ps K d"
  shows "wp signal_pipe_dispatch (\<lambda>b d'. acct True ps K d' \<or> b \<and> acct False ps K d') unless_stopped d"
  unfolding signal_pipe_dispatch_def
proof (rule wp_loopD [where I = "\<lambda>_. acct True ps K"])
  fix a d assume d: "acct True ps K d"
  obtain r w where pipe: "signal_pipe d = (r, w)" by (cases "signal_pipe d")
  show "wp (bindM (getM signal_pipe) (\<lambda>(r, w). bindM (getM sig_ptr) (\<lambda>p. bindM (onio (sys (Read r (4 - p)))) (\<lambda>a.
      if a_ret a = -1 \<and> a_errno a = EWOULDBLOCK then retM (Inl False)
      else if a_ret a = -1 \<or> a_ret a = 0 then bindM reopen_pipe (\<lambda>b. retM (Inl b))
      else seqM (modM (\<lambda>d. d\<lparr>sig_buf := memcpy_at (sig_buf d) p (a_data a), sig_ptr := p + length (a_data a)\<rparr>))
        (bindM (getM sig_ptr) (\<lambda>p'. if p' < 4 then retM (Inl False)
          else seqM (modM (\<lambda>d. d\<lparr>sig_ptr := 0\<rparr>))
            (bindM (getM (\<lambda>d. le_int (sig_buf d))) (\<lambda>s. bindM (handle_signal s) (\<lambda>b. retM (if b then Inl True else Inr ()))))))))))
    (\<lambda>r d'. case r of Inl b \<Rightarrow> acct True ps K d' \<or> b \<and> acct False ps K d' | Inr _ \<Rightarrow> acct True ps K d') unless_stopped d"
    unfolding wp_bindM [of "getM _"] wp_getM pipe prod.case wp_bindM [of "onio _"]
    by (rule wp_mono [OF acct_sys [OF d]])
      (auto simp: fd_neutral_def wp_bindM wp_seqM wp_modM wp_getM wp_retM wp_retM_fun
        intro!: wp_mono [OF reopen_pipe_lost] wp_mono [OF handle_signal_acct])
qed (use assms in simp_all)

lemma accept_loop_ready_acct:
  "acct b ps K d \<Longrightarrow> wp (foldM accept_ready [0..<n] delay) (\<lambda>_. acct b ps K) unless_stopped d"
  using wp_foldM_upt [where I = "\<lambda>_ _. acct b ps K" and f = accept_ready] accept_ready_acct by blast

text \<open>One round of the loop loses nothing; only a failure to replace the signal pipe, which ends the loop, does.\<close>

lemma daemon_round_acct:
  assumes "acct True ps K d"
  shows "wp daemon_round (\<lambda>r d'. acct True ps K d' \<or> r = Inl () \<and> acct False ps K d') unless_stopped d"
  unfolding daemon_round_def wp_bindM [of "onio (s_poll_wait _ _)"]
  by (rule wp_mono [OF staysD [OF stays_even [OF even_acct even_calls(5)] assms]])
    (auto simp: wp_bindM wp_getM wp_retM wp_retM_fun wp_seqM fd_neutral_def
      intro!: wp_mono [OF signal_pipe_dispatch_acct] wp_mono [OF accept_loop_ready_acct [of True ps K]]
        wp_mono [OF acct_sys [of True ps K]])

lemma daemon_loop_acct:
  assumes "acct True ps K d"
  shows "wp daemon_loop (\<lambda>_ d'. \<exists>b. acct b ps K d') unless_stopped d"
  unfolding daemon_loop_def
  by (rule wp_loopD [where I = "\<lambda>_. acct True ps K"])
    (use assms in \<open>auto intro!: wp_mono [OF daemon_round_acct] split: sum.split\<close>)

section \<open>What a start keeps\<close>

definition kinds :: "port list \<Rightarrow> (service \<times> bool) list" where
  "kinds ps = map (\<lambda>p. (s_opt p, s_accept_on p)) ps"

text \<open>Threads are only added, and ports keep what they are for.\<close>

definition joined :: "daemon \<Rightarrow> daemon \<Rightarrow> bool" where
  "joined d d' \<longleftrightarrow> os (env (io d')) = os (env (io d)) \<and> set (threads d) \<subseteq> set (threads d') \<and> kinds (ports d') = kinds (ports d) \<and>
     foreground d' = foreground d"

lemma blind_joined: "blind (joined d)"
  by (auto simp: blind_def joined_def idle_fds_def)

lemma joined_add: "joined d d' \<Longrightarrow> joined d (d'\<lparr>threads := threads d' @ [t]\<rparr>)"
  by (auto simp: joined_def)

lemma joined_refl: "joined d d"
  by (simp add: joined_def)

lemma kinds_set_fd: "kinds (ps[k := (ps ! k)\<lparr>s_fd := f\<rparr>]) = kinds ps"
  by (cases "k < length ps") (auto simp: kinds_def map_update list_update_same_conv list_update_beyond)

lemma joined_set_fd: "stays (joined d) (set_fd k f)"
  unfolding set_fd_def by (intro stays_modM) (simp add: joined_def kinds_set_fd)

lemma kinds_forget: "kinds (forget_fds ps) = kinds ps"
  by (simp add: kinds_def forget_fds_def comp_def if_distrib cong: if_cong)

lemma joined_onio: "keeps io_le m \<Longrightarrow> stays (joined d) (onio m)"
  unfolding stays_def wp_onio by (auto elim!: wp_keeps simp: joined_def io_le_def env_le_def)

lemma poll_io [frame_intros]: "keeps io_le poll_init" "keeps io_le (poll_add f r w)"
  unfolding poll_init_def poll_add_def by (auto intro!: io.modM simp: io_le_fds)

lemma joined_calls:
  "stays (joined d) (fail_port k f)" "stays (joined d) (bind_listen b f a)" "stays (joined d) (chown_socket p)"
  "stays (joined d) (create_client s p)" "stays (joined d) watch_pipe"
  unfolding fail_port_def create_client_def watch_pipe_def
  by (auto intro!: stays_rules stays_simps joined_onio joined_set_fd stays_modM bind_listen_stays
      chown_socket_stays blind_unmoved blind_joined frame_intros joined_add io.sys split: prod.split)

lemma bind_port_joined: "stays (joined d) (bind_port k n)"
  unfolding bind_port_def get_port_def
  by (auto intro!: stays_rules stays_simps joined_onio joined_set_fd joined_calls frame_intros io.sys)

lemma joined_trans: "joined a b \<Longrightarrow> joined b c \<Longrightarrow> joined a c"
  by (auto simp: joined_def)

lemma kinds_length: "kinds ps = kinds qs \<Longrightarrow> length ps = length qs"
  by (metis kinds_def length_map)

lemma joined_forget: "stays (joined d) (modM (\<lambda>d. d\<lparr>ports := forget_fds (ports d)\<rparr>))"
  by (intro stays_modM) (simp add: joined_def kinds_forget)

lemma joined_libwrap: "stays (joined d) libwrap_start"
  by (rule libwrap_start_stays) (simp add: apart_def blind_joined, simp add: joined_def)

lemma bind_ports_joined: "stays (joined d) bind_ports"
  unfolding bind_ports_def
  by (auto intro!: stays_rules joined_libwrap joined_calls joined_forget bind_port_joined split: option.split)

section \<open>From start to end\<close>

lemma cron_init_acct:
  assumes "acct b ps K d" "thread_fds (threads d) = []"
  shows "wp cron_init (\<lambda>_ d'. acct b ps K d' \<and> thread_fds (threads d') = [] \<and> port_fds (ports d') = port_fds (ports d)) unless_stopped d"
  unfolding cron_init_def wp_bindM
  by (rule wp_mono [OF acct_sys [OF assms(1)]])
    (use assms in \<open>auto simp: fd_neutral_def wp_retM wp_modM same_def acct_def owns_def pipe_fds_def\<close>)

text \<open>The steps of the initialization before the signal pipe, when nothing is owned yet.\<close>

definition fresh :: "int list \<Rightarrow> (int \<Rightarrow> int) \<Rightarrow> daemon \<Rightarrow> bool" where
  "fresh ps K d \<longleftrightarrow> acct False ps K d \<and> thread_fds (threads d) = [] \<and> port_fds (ports d) = []"

lemma even_fresh: "even_blind (fresh ps K)"
  by (auto simp: even_blind_def fresh_def acct_even)

lemma must_fresh: "fd_neutral q \<Longrightarrow> stays (fresh ps K) (must q)"
  unfolding must_def by (intro stays_rules stays_even even_fresh even.sys) simp_all

lemma cron_init_fresh: "stays (fresh ps K) cron_init"
  unfolding cron_init_def
  by (intro stays_rules stays_even even_fresh even.sys stays_modM)
    (auto simp: fd_neutral_def fresh_def acct_def owns_def)

lemma inherit_fds_fresh:
  assumes "fresh ps K d"
  shows "wp inherit_fds (\<lambda>_. fresh ps K) unless_stopped d"
proof -
  have "a_ret (os (env (io d)) n Sd_listen_fds) = 0" for n using assms by (simp add: fresh_def acct_def quiet_host_def)
  moreover have "fresh ps K (d'\<lparr>systemd_fds := 0, listen_fds_start := 3\<rparr>)" if "fresh ps K d'" for d'
    using that by (simp add: fresh_def acct_def quiet_host_def owns_def pipe_fds_def)
  ultimately show ?thesis
    using assms even_fresh even.env_step [of Sd_listen_fds "io d"]
    by (auto simp: inherit_fds_def wp_eqs wp_onio even_blind_def fd_neutral_def simp del: wp_sys)
qed

lemma main_init_acct:
  assumes "fresh ps K d"
  shows "wp main_init (\<lambda>_ d'. acct True ps K d' \<and> thread_fds (threads d') = [] \<and> port_fds (ports d') = []) unless_stopped d"
proof -
  have step: "wp (seqM m m') Q unless_stopped d'" if "stays (fresh ps K) m" "fresh ps K d'" "\<And>d'. fresh ps K d' \<Longrightarrow> wp m' Q unless_stopped d'" for m m' Q d'
    unfolding wp_seqM by (rule wp_mono [OF staysD [OF that(1,2)]]) (auto intro: that(3))
  have upd: "fresh ps K (d'\<lparr>ports := []\<rparr>)" "fresh ps K (d'\<lparr>io := (io d')\<lparr>max_fds := k\<rparr>, max_clients := n\<rparr>)"
    "fresh ps K (d'\<lparr>io := (io d')\<lparr>fds := q\<rparr>\<rparr>)" if "fresh ps K d'" for d' k n q
    using that by (simp_all add: fresh_def acct_def quiet_host_def owns_def pipe_fds_def held_def no_libwrap_def)
  have pipe: "wp (bindM signal_pipe_init (\<lambda>failed. if failed then stopM Fatal else retM ()))
      (\<lambda>_ d'. acct True ps K d' \<and> thread_fds (threads d') = [] \<and> port_fds (ports d') = []) unless_stopped d'" if "fresh ps K d'" for d'
    using that unfolding wp_bindM fresh_def
    by (intro wp_mono [OF signal_pipe_init_acct]) (auto simp: wp_stopM wp_retM)
  show ?thesis
    unfolding main_init_def wp_seqM [of inherit_fds]
    by (intro wp_mono [OF inherit_fds_fresh [OF assms]] step must_fresh cron_init_fresh pipe stays_modM stays_bindM stays_even even_fresh even.sys)
      (auto simp: fd_neutral_def upd)
qed

lemma change_root_stays: "even_blind P \<Longrightarrow> stays P change_root"
  unfolding change_root_def by (auto intro!: stays_rules stays_even even.sys simp: fd_neutral_def split: option.split)

lemma drop_privileges_stays: "even_blind P \<Longrightarrow> stays P (drop_privileges b)"
  unfolding drop_privileges_def by (auto intro!: stays_rules stays_even even.sys simp: fd_neutral_def)

lemma main_configure_acct:
  assumes "acct b ps K d" "thread_fds (threads d) = []" "port_fds (ports d) = []"
  shows "wp main_configure (\<lambda>_ d'. acct b ps K d' \<and> thread_fds (threads d') = []) unless_stopped d"
proof -
  let ?P = "\<lambda>d. acct b ps K d \<and> thread_fds (threads d) = []"
  have even: "even_blind ?P" by (auto simp: even_blind_def acct_even)
  let ?rest = "bindM change_root (\<lambda>ok. if \<not> ok then retM False
         else bindM (drop_privileges True) (\<lambda>ok. if \<not> ok then retM False
         else bindM (onio (sys Log_open)) (\<lambda>l. if a_ret l \<noteq> 0 then retM False
         else seqM (modM (\<lambda>d. d\<lparr>io := (io d)\<lparr>num_clients := 0\<rparr>\<rparr>)) (retM True))))"
  have "stays ?P ?rest"
    using even by (intro stays_rules stays_modM change_root_stays drop_privileges_stays stays_even even.sys)
      (auto simp: fd_neutral_def even_blind_def even_io_def held_def)
  then have rest: "wp ?rest (\<lambda>_. ?P) unless_stopped d'" if "?P d'" for d'
    using that by (intro wp_mono [OF staysD [of ?P]]) auto
  have conf: "acct b ps K (d'\<lparr>ports := configs d' n, reloads := m\<rparr>)" "port_fds (configs d' n) = []"
    if "acct b ps K d'" "port_fds (ports d') = []" for d' n m
    using that by (simp_all add: acct_def owns_def pipe_fds_def quiet_host_def)
  show ?thesis
    unfolding main_configure_def wp_bindM [of "onio _"]
    by (rule wp_mono [OF acct_sys [OF assms(1)]])
      (use assms(2,3) in \<open>auto simp: fd_neutral_def wp_retM wp_seqM options_apply_def wp_modM wp_bindM [of bind_ports]
        intro!: wp_mono [OF bind_ports_acct] rest conf dest!: same_fields\<close>)
qed

lemma daemonize_acct:
  assumes "acct b ps K d" "thread_fds (threads d) = []"
  shows "wp (daemonize f) (\<lambda>_. acct b ps K) unless_stopped d"
proof -
  let ?P = "\<lambda>d. acct b ps K d \<and> thread_fds (threads d) = []"
  have even: "even_blind ?P" by (auto simp: even_blind_def acct_even)
  have "acct b ps K (d'\<lparr>threads := []\<rparr>)" if "?P d'" for d'
    using that by (simp add: acct_def owns_def pipe_fds_def)
  with even have "stays ?P (daemonize f)"
    unfolding daemonize_def by (intro stays_rules stays_modM stays_even even.sys) (auto simp: fd_neutral_def)
  then have "wp (daemonize f) (\<lambda>_. ?P) (\<lambda>_. ?P) d" using assms by (simp add: stays_def)
  then show ?thesis by (rule wp_mono) simp_all
qed

text \<open>The pid file stays open only when it cannot be written, and then \<open>create_pid\<close> fails.\<close>

definition pid_lost :: "int list \<Rightarrow> (int \<Rightarrow> int) \<Rightarrow> daemon \<Rightarrow> bool" where
  "pid_lost ps K d \<longleftrightarrow> (\<exists>b pid. length pid \<le> 1 \<and> acct b (pid @ ps) K d)"

lemma pid_lostI: "acct b ps K d \<Longrightarrow> pid_lost ps K d" "acct b (f # ps) K d \<Longrightarrow> pid_lost ps K d"
  unfolding pid_lost_def by (rule exI [of _ b], rule exI [of _ "[]"], simp) (rule exI [of _ b], rule exI [of _ "[f]"], simp)

lemma create_pid_acct:
  assumes "acct b ps K d"
  shows "wp create_pid (\<lambda>ok d'. if ok then acct b ps K d' else pid_lost ps K d') unless_stopped d"
proof -
  define Q where "Q = (\<lambda>ok d'. if ok then acct b ps K d' else pid_lost ps K d')"
  have Q: "Q True d' = acct b ps K d'" "acct b ps K d' \<Longrightarrow> Q False d'" "acct b (f # ps) K d' \<Longrightarrow> Q False d'" for f d'
    by (auto simp: Q_def dest: pid_lostI)
  have neutral: "wp (onio (sys q)) (\<lambda>_. acct b qs K) unless_stopped d'" if "fd_neutral q" "acct b qs K d'" for q qs d'
    by (rule wp_mono [OF acct_sys [OF that(2,1)]]) simp_all
  have wrote: "wp (bindM (onio (sys (Write f line))) (\<lambda>w. if a_ret w < int (length line) then retM False
      else seqM (onio (closesocket f)) (retM True))) Q unless_stopped d'" if "acct b (f # ps) K d'" for f line d'
    unfolding wp_bindM
    by (rule wp_mono [OF neutral [OF _ that]])
      (auto simp: fd_neutral_def wp_retM wp_seqM Q(1) intro!: wp_mono [OF acct_close] intro: Q(2,3))
  have opened: "wp (onio (sys (Open p))) (\<lambda>a d'. if a_ret a = -1 then acct b ps K d' else acct b (a_ret a # ps) K d') unless_stopped d'"
    if "acct b ps K d'" for p d'
    using that by (auto simp: wp_onio wp_eqs acct_def quiet_host_def simp del: wp_sys)
  have run: "wp (bindM (onio (sys Getpid)) (\<lambda>pid. bindM (onio (sys (Unlink p))) (\<lambda>_. bindM (onio (sys (Open p))) (\<lambda>a.
      if a_ret a = -1 then retM False
      else bindM (onio (sys (Write (a_ret a) (g pid)))) (\<lambda>w.
        if a_ret w < int (length (g pid)) then retM False else seqM (onio (closesocket (a_ret a))) (retM True))))))
      Q unless_stopped d" for p g
    unfolding wp_bindM [of "onio (sys Getpid)"] wp_bindM [of "onio (sys (Unlink p))"] wp_bindM [of "onio (sys (Open p))"]
    by (intro wp_mono [OF opened] wp_mono [OF neutral [OF _ assms]] wp_mono [OF neutral])
      (auto simp: fd_neutral_def wp_retM intro: Q(2) wrote)
  have "wp create_pid Q unless_stopped d"
    unfolding create_pid_def Let_def
    by (auto simp: wp_bindM [of "getM _"] wp_getM wp_retM assms Q(1) intro: Q(2) run split: option.split)
  then show ?thesis by (simp add: Q_def)
qed

lemma daemon_mode_acct:
  assumes "acct True (f # ps) K d" "thread_fds (threads d) = []"
  shows "wp (daemon_mode f) (\<lambda>_. pid_lost ps K) unless_stopped d"
proof -
  have loop: "wp daemon_loop (\<lambda>_. pid_lost ps K) unless_stopped d'" if "acct True ps K d'" for d'
    by (rule wp_mono [OF daemon_loop_acct [OF that]]) (auto dest: pid_lostI(1))
  show ?thesis
    unfolding daemon_mode_def wp_bindM [of "daemonize f"]
    by (rule wp_mono [OF daemonize_acct [OF assms]])
      (auto simp: wp_seqM wp_retM wp_bindM dest: pid_lostI(1) intro!: wp_mono [OF acct_close] wp_mono [OF create_pid_acct] loop)
qed

text \<open>A configuration with sections is not served in inetd mode.\<close>

lemma blind_sections: "blind (\<lambda>d. configs d (reloads d) \<noteq> [])" "blind (\<lambda>d. ports d \<noteq> [])"
  by (simp_all add: blind_def)

lemma main_init_sections: "stays (\<lambda>d. configs d (reloads d) \<noteq> []) main_init"
  unfolding main_init_def inherit_fds_def must_def cron_init_def signal_pipe_init_def
  by (auto intro!: stays_rules stays_modM stays_sys stays_idle_fds blind_sections frame_intros split: option.split)

lemma main_configure_sections:
  assumes "configs d (reloads d) \<noteq> []"
  shows "wp main_configure (\<lambda>ok d'. ok \<longrightarrow> ports d' \<noteq> []) unless_stopped d"
proof -
  let ?P = "\<lambda>d. configs d (reloads d) \<noteq> []" and ?Q = "\<lambda>d :: daemon. ports d \<noteq> []"
  have bind: "wp bind_ports (\<lambda>_. ?Q) unless_stopped d'" if "?Q d'" for d'
    by (rule wp_mono [OF staysD [OF bind_ports_joined joined_refl [of d']]])
      (use that kinds_length in \<open>fastforce simp: joined_def\<close>)+
  have "stays ?Q (bindM change_root (\<lambda>ok. if \<not> ok then retM False
         else bindM (drop_privileges True) (\<lambda>ok. if \<not> ok then retM False
         else bindM (onio (sys Log_open)) (\<lambda>l. if a_ret l \<noteq> 0 then retM False
         else seqM (modM (\<lambda>d. d\<lparr>io := (io d)\<lparr>num_clients := 0\<rparr>\<rparr>)) (retM True)))))" (is "stays ?Q ?rest")
    unfolding change_root_def drop_privileges_def
    by (auto intro!: stays_rules stays_modM stays_sys blind_sections split: option.split)
  then have rest: "wp ?rest (\<lambda>ok d'. ok \<longrightarrow> ?Q d') unless_stopped d'" if "?Q d'" for d'
    using that by (intro wp_mono [OF staysD [of ?Q]]) auto
  show ?thesis
    unfolding main_configure_def wp_bindM [of "onio (sys Options_cmdline)"]
    by (rule wp_mono [OF staysD [of ?P, OF stays_sys [OF blind_sections(1)] assms]])
      (auto simp: wp_retM wp_seqM options_apply_def wp_modM wp_bindM [of bind_ports] intro!: wp_mono [OF bind] rest)
qed

lemma dev_null:
  assumes "acct b ps K d"
  shows "wp (onio (sys (Open p))) (\<lambda>a d'. (a_ret a \<noteq> -1 \<longrightarrow> acct b (a_ret a # ps) K d') \<and> same d d') unless_stopped d"
  using assms by (auto simp: wp_onio wp_eqs acct_def quiet_host_def same_def simp del: wp_sys)

lemma main_unix_acct:
  assumes "fresh ps K d" "configs d (reloads d) \<noteq> []"
  shows "wp main_unix (\<lambda>_. pid_lost ps K) unless_stopped d"
proof -
  let ?P = "\<lambda>d. configs d (reloads d) \<noteq> []"
  have run: "wp (if \<not> ok then onio (closesocket f) else bindM (getM ports) (\<lambda>qs.
      if qs \<noteq> [] then daemon_mode f else seqM (onio (closesocket f)) inetd)) (\<lambda>_. pid_lost ps K) unless_stopped d'"
    if "acct True (f # ps) K d'" "thread_fds (threads d') = []" "ok \<longrightarrow> ports d' \<noteq> []" for f ok d'
    using that by (auto simp: wp_bindM wp_getM intro!: wp_mono [OF acct_close] wp_mono [OF daemon_mode_acct] dest: pid_lostI(1))
  have conf: "wp main_configure (\<lambda>ok d'. (acct True (f # ps) K d' \<and> thread_fds (threads d') = []) \<and> (ok \<longrightarrow> ports d' \<noteq> [])) unless_stopped d'"
    if "acct True (f # ps) K d'" "thread_fds (threads d') = []" "port_fds (ports d') = []" "?P d'" for f d'
    by (rule wp_mono [OF wp_conj [OF main_configure_acct [OF that(1-3)] main_configure_sections [OF that(4)]]]) simp_all
  have init: "wp main_init (\<lambda>_ d'. (acct True (f # ps) K d' \<and> thread_fds (threads d') = [] \<and> port_fds (ports d') = []) \<and> ?P d')
      unless_stopped d'" if "fresh (f # ps) K d'" "?P d'" for f d'
    by (rule wp_mono [OF wp_conj [OF main_init_acct [OF that(1)] staysD [OF main_init_sections that(2)]]]) simp_all
  have fresh: "fresh (f # ps) K d' \<and> ?P d'" if "acct False (f # ps) K d'" "same d d'" for f d'
    using that assms by (auto simp: fresh_def same_def)
  have acct: "acct False ps K d" using assms(1) by (simp add: fresh_def)
  show ?thesis
    unfolding main_unix_def wp_bindM [of "onio _"]
    by (rule wp_mono [OF dev_null [OF acct]])
      (auto simp: wp_stopM wp_seqM wp_bindM [of main_configure] intro!: wp_mono [OF init] wp_mono [OF conf] run dest: fresh)
qed

lemma main_acct:
  assumes "fresh [] K d" "configs d (reloads d) \<noteq> []"
  shows "wp main (\<lambda>_ d'. (\<exists>b pid. length pid \<le> 1 \<and> acct b pid K d') \<and> port_fds (ports d') = []) unless_stopped d"
proof -
  have "wp unbind_ports (\<lambda>_ d'. (\<exists>b pid. length pid \<le> 1 \<and> acct b pid K d') \<and> port_fds (ports d') = []) unless_stopped d'"
    if "length pid \<le> 1" "acct b pid K d'" for b pid d'
    using that(1) by (intro wp_mono [OF unbind_ports_acct [OF that(2)]]) auto
  then show ?thesis
    unfolding main_def wp_seqM main_cleanup_def
    by (intro wp_mono [OF main_unix_acct [OF assms]]) (auto simp: pid_lost_def)
qed

lemma main_owns:
  assumes "quiet_host d" "threads d = []" "ports d = []" "configs d (reloads d) \<noteq> []" "main d = Ok u d'"
  shows "\<exists>ps pid. (ps = [] \<or> ps = pipe_fds d') \<and> length pid \<le> 1 \<and>
    (\<forall>f. held f (io d') = held f (io d) + int (count_list (ps @ pid @ thread_fds (threads d')) f))"
proof -
  have "fresh [] (\<lambda>f. held f (io d)) d"
    using assms(1-3) by (simp add: fresh_def acct_def owns_def no_libwrap_def)
  from wp_Ok [OF main_acct [OF this assms(4)] assms(5)] obtain b pid where
    "length pid \<le> 1" "acct b pid (\<lambda>f. held f (io d)) d'" "port_fds (ports d') = []" by auto
  then show ?thesis
    by (intro exI [of _ "if b then pipe_fds d' else []"] exI [of _ pid]) (auto simp: acct_def owns_def)
qed

section \<open>When a thread cannot be created\<close>

lemma rejected_closed_twice:
  assumes s: "s = a_ret (os (env (io d)) (now (env (io d))) (Accept (s_fd p)))"
    and "\<forall>n. a_ret (os (env (io d)) n (Thread_create s)) \<noteq> 0"
    and "0 \<le> s" "max_fds (io d) = 0 \<or> s < max_fds (io d)" "max_clients d = 0"
    and "now (env (io d)) + 5 \<le> horizon (env (io d))"
  shows "\<exists>d'. accept_connection p d = Ok False d' \<and> threads d' = threads d \<and>
    map fst (trace (env (io d'))) = map fst (trace (env (io d))) @
      [Accept (s_fd p), Count_clients, Thread_create s, Close s, Close s] \<and>
    held s (io d') = held s (io d) - 1"
proof -
  have s': "s \<noteq> INVALID_SOCKET" "s \<noteq> -1" using assms(3) by (auto simp: INVALID_SOCKET_def)
  let ?c = "env_step (Accept (s_fd p)) (io d)"
  have acc: "s_accept (s_fd p) (io d) = Ok s ?c"
    using assms(2-6) s' unfolding s
    by (auto simp: s_accept_def setup_fd_def mdefs sys_def env_step_def Let_def)
  have loop: "loopD (\<lambda>_. bindM (onio (s_accept (s_fd p))) (\<lambda>s.
      if s \<noteq> INVALID_SOCKET then retM (Inl (Inl s))
      else bindM (getM (\<lambda>d. errno (env (io d)))) (\<lambda>e. retM (if e = EINTR then Inr () else Inl (Inr (g e)))))) () d
    = Ok (Inl s) (d\<lparr>io := ?c\<rparr>)" for g :: "int \<Rightarrow> bool"
    using s'(1) by (simp add: loopD_def fuel_def onio_def acc mdefs)
  show ?thesis
    using assms(2-6) s'
    by (simp add: accept_connection_def bindM_def loop getM_def onio_def create_client_def seqM_def closesocket_def retM_def modM_def
        sys_def env_step_def Let_def held_def s [symmetric])
qed

section \<open>Threads created before the fork\<close>

text \<open>The thread of an \<open>exec\<close>+\<open>connect\<close> service.\<close>

definition serves :: "daemon \<Rightarrow> port \<Rightarrow> bool" where
  "serves d p \<longleftrightarrow> (\<not> s_accept_on p \<and> exec_connect p \<longrightarrow> Client_thread (s_opt p) INVALID_SOCKET \<in> set (threads d))"

lemma serves_cong: "(s_opt p, s_accept_on p) = (s_opt q, s_accept_on q) \<Longrightarrow> serves d p = serves d q"
  by (simp add: serves_def exec_connect_def)

lemma serves_joined: "serves d p \<Longrightarrow> joined d d' \<Longrightarrow> serves d' p"
  by (auto simp: serves_def joined_def)

lemma bind_port_serves:
  assumes "\<forall>n s. a_ret (os (env (io d)) n (Thread_create s)) = 0"
  shows "wp (bind_port k n) (\<lambda>_ d'. joined d d' \<and> serves d' (ports d ! k)) unless_stopped d"
proof -
  have g: "wp (bind_port k n) (\<lambda>_. joined d) unless_stopped d"
    by (rule wp_mono [OF staysD [OF bind_port_joined joined_refl]]) simp_all
  moreover have "wp (bind_port k n) (\<lambda>_ d'. serves d' (ports d ! k)) unless_stopped d"
  proof (cases "\<not> s_accept_on (ports d ! k) \<and> exec_connect (ports d ! k)")
    case True
    have "wp (create_client INVALID_SOCKET (ports d ! k)) (\<lambda>_ d'. serves d' (ports d ! k)) unless_stopped d"
      using assms by (auto simp: create_client_def wp_eqs wp_onio serves_def simp del: wp_sys)
    with True show ?thesis
      by (simp add: bind_port_def get_port_def wp_bindM wp_getM wp_seqM wp_retM wp_retM_fun)
  next
    case False
    then have "serves d' (ports d ! k)" for d' by (auto simp: serves_def)
    with g show ?thesis by (auto elim: wp_mono)
  qed
  ultimately show ?thesis by (auto dest: wp_conj)
qed

lemma kinds_nth: "kinds ps = kinds qs \<Longrightarrow> j < length ps \<Longrightarrow>
  (s_opt (ps ! j), s_accept_on (ps ! j)) = (s_opt (qs ! j), s_accept_on (qs ! j))"
  by (metis (no_types, lifting) kinds_def length_map nth_map)

lemma bind_loop_serves:
  assumes "\<forall>n s. a_ret (os (env (io d)) n (Thread_create s)) = 0"
  shows "wp (foldM (\<lambda>i r. case r of None \<Rightarrow> retM None | Some k \<Rightarrow> bind_port i k) [0..<length (ports d)] (Some 0))
    (\<lambda>r d'. joined d d' \<and> (r \<noteq> None \<longrightarrow> (\<forall>p \<in> set (ports d'). serves d' p))) unless_stopped d"
proof -
  define I where "I = (\<lambda>k (r :: nat option) d'. joined d d' \<and> (r \<noteq> None \<longrightarrow> (\<forall>j < k. serves d' (ports d ! j))))"
  have "wp (case r of None \<Rightarrow> retM None | Some m \<Rightarrow> bind_port k m) (I (Suc k)) unless_stopped d'"
    if "k < length (ports d)" "I k r d'" for k r d'
  proof (cases r)
    case (Some m)
    have g: "joined d d'" "\<forall>j < k. serves d' (ports d ! j)" using that Some by (simp_all add: I_def)
    have ok: "\<forall>n s. a_ret (os (env (io d')) n (Thread_create s)) = 0" using assms g(1) by (simp add: joined_def)
    have "I (Suc k) r' d2" if "joined d' d2" "serves d2 (ports d' ! k)" for r' d2
    proof -
      have "serves d2 (ports d ! k)"
        using that(2) serves_cong [OF kinds_nth [of "ports d" "ports d'" k], of d2] g(1) \<open>k < length (ports d)\<close>
        unfolding joined_def by metis
      with that g show ?thesis by (auto simp: I_def less_Suc_eq intro: joined_trans serves_joined)
    qed
    with wp_mono [OF bind_port_serves [OF ok]] Some show ?thesis by auto
  qed (use that in \<open>simp add: wp_retM I_def\<close>)
  moreover have "I 0 (Some 0) d" by (simp add: I_def joined_refl)
  ultimately have "wp (foldM (\<lambda>i r. case r of None \<Rightarrow> retM None | Some k \<Rightarrow> bind_port i k) [0..<length (ports d)] (Some 0))
      (I (length (ports d))) unless_stopped d"
    by (intro wp_foldM_upt)
  then show ?thesis
  proof (rule wp_mono)
    fix r d' assume I: "I (length (ports d)) r d'"
    then have k: "kinds (ports d') = kinds (ports d)" "joined d d'" by (auto simp: I_def joined_def)
    have "serves d' p" if r: "r \<noteq> None" and p: "p \<in> set (ports d')" for p
    proof -
      obtain j where "j < length (ports d')" "p = ports d' ! j" using p unfolding in_set_conv_nth by blast
      moreover have "serves d' (ports d ! j)"
        using I r kinds_length [OF k(1)] \<open>j < length (ports d')\<close> by (auto simp: I_def)
      ultimately show ?thesis using serves_cong [OF kinds_nth [OF k(1)]] by blast
    qed
    with k show "joined d d' \<and> (r \<noteq> None \<longrightarrow> (\<forall>p \<in> set (ports d'). serves d' p))" by blast
  qed simp
qed

lemma bind_ports_serves:
  assumes "\<forall>n s. a_ret (os (env (io d)) n (Thread_create s)) = 0"
  shows "wp bind_ports (\<lambda>ok d'. joined d d' \<and> (ok \<longrightarrow> (\<forall>p \<in> set (ports d'). serves d' p))) unless_stopped d"
proof -
  have rest: "wp (bindM (foldM (\<lambda>i r. case r of None \<Rightarrow> retM None | Some k \<Rightarrow> bind_port i k) [0..<length (ports d')] (Some 0)) (\<lambda>r.
       bindM (getM systemd_fds) (\<lambda>inherited. retM (case r of None \<Rightarrow> False | Some k \<Rightarrow> \<not> k < inherited))))
      (\<lambda>ok d'. joined d d' \<and> (ok \<longrightarrow> (\<forall>p \<in> set (ports d'). serves d' p))) unless_stopped d'" if "joined d d'" for d'
  proof -
    have "\<forall>n s. a_ret (os (env (io d')) n (Thread_create s)) = 0" using assms that by (simp add: joined_def)
    from bind_loop_serves [OF this] show ?thesis
      unfolding wp_bindM wp_getM wp_retM
      by (rule wp_mono) (auto intro: joined_trans [OF that] split: option.splits)
  qed
  show ?thesis
    unfolding bind_ports_def wp_bindM [of libwrap_start] wp_seqM
    by (rule wp_mono [OF staysD [OF joined_libwrap joined_refl [of d]]], rule wp_mono [OF staysD [OF joined_calls(5)]], assumption,
        rule wp_mono [OF staysD [OF joined_forget]], assumption)
      (auto simp: wp_bindM [of "getM _"] wp_getM intro: rest)
qed

text \<open>The threads after the start: in the foreground those that were created, in the background none.\<close>

definition threads_started :: "bool \<Rightarrow> daemon \<Rightarrow> bool" where
  "threads_started ok d \<longleftrightarrow> (ok \<longrightarrow> (if foreground d
     then Cron_thread \<in> set (threads d) \<and> (\<forall>p \<in> set (ports d). serves d p) else threads d = []))"

definition served :: "daemon \<Rightarrow> bool" where
  "served d \<longleftrightarrow> Cron_thread \<in> set (threads d) \<and> (\<forall>p \<in> set (ports d). serves d p)"

lemma blind_served: "blind served"
  by (simp add: blind_def served_def serves_def)

lemma daemonize_threads:
  assumes "served d"
  shows "wp (daemonize f) threads_started unless_stopped d"
proof -
  have dup: "stays (\<lambda>d. \<not> foreground d) (forM [0, 1, 2] (\<lambda>g. bindM (onio (sys (Dup2 f g))) (\<lambda>_. retM ())))"
    by (intro stays_rules stays_sys stays_simps) (simp add: blind_def)
  have sys: "stays (\<lambda>d. \<not> foreground d) (onio (sys Daemonize))" by (intro stays_sys) (simp add: blind_def)
  show ?thesis
  proof (cases "foreground d")
    case True
    then show ?thesis using assms by (simp add: daemonize_def wp_bindM wp_getM wp_retM threads_started_def served_def)
  next
    case False
    then show ?thesis
      unfolding daemonize_def wp_bindM [of "getM _"] wp_getM if_not_P [OF False] wp_seqM [of "forM _ _"] wp_bindM [of "onio (sys Daemonize)"]
      by (intro wp_mono [OF staysD [OF dup]] wp_mono [OF staysD [OF sys]])
        (auto simp: wp_retM wp_seqM wp_modM threads_started_def)
  qed
qed

definition can_start :: "daemon \<Rightarrow> bool" where
  "can_start d \<longleftrightarrow> (\<forall>n s. a_ret (os (env (io d)) n (Thread_create s)) = 0)"

lemma blind_can_start: "blind can_start" "blind (\<lambda>d. can_start d \<and> Cron_thread \<in> set (threads d))"
  by (simp_all add: blind_def can_start_def idle_fds_def)

lemma main_init_threads:
  assumes "can_start d"
  shows "wp main_init (\<lambda>_ d'. can_start d' \<and> Cron_thread \<in> set (threads d')) unless_stopped d"
proof -
  let ?Q = "\<lambda>d. can_start d \<and> Cron_thread \<in> set (threads d)"
  have before: "stays can_start inherit_fds" "stays can_start (must q)" for q
    unfolding inherit_fds_def must_def
    by (intro stays_rules stays_sys stays_modM blind_can_start stays_simps; simp add: can_start_def)+
  have cron: "wp cron_init (\<lambda>_. ?Q) unless_stopped d'" if "can_start d'" for d'
    using that by (auto simp: cron_init_def wp_eqs wp_onio can_start_def simp del: wp_sys)
  have "stays ?Q (seqM (modM (\<lambda>d. d\<lparr>ports := []\<rparr>))
    (seqM (bindM (onio (sys Sysconf)) (\<lambda>a. modM (\<lambda>d. d\<lparr>io := (io d)\<lparr>max_fds := fst (get_limits (a_ret a))\<rparr>,
        max_clients := snd (get_limits (a_ret a))\<rparr>)))
    (seqM (modM (\<lambda>d. d\<lparr>io := (io d)\<lparr>fds := s_poll_alloc\<rparr>\<rparr>))
    (bindM signal_pipe_init (\<lambda>failed. if failed then stopM Fatal else retM ())))))" (is "stays ?Q ?rest")
    unfolding signal_pipe_init_def
    by (auto intro!: stays_rules stays_sys stays_idle_fds stays_modM stays_simps blind_can_start blind_can_start [unfolded can_start_def] frame_intros simp: can_start_def split: option.split)
  then have rest: "wp ?rest (\<lambda>_. ?Q) unless_stopped d'" if "?Q d'" for d'
    using that by (intro wp_mono [OF staysD [of ?Q]]) auto
  show ?thesis
    unfolding main_init_def wp_seqM [of inherit_fds] wp_seqM [of "must _"] wp_seqM [of cron_init]
    by (rule wp_mono [OF staysD [OF before(1) assms]], rule wp_mono [OF staysD [OF before(2)]], assumption,
        rule wp_mono [OF staysD [OF before(2)]], assumption, rule wp_mono [OF cron], assumption, rule rest) simp_all
qed

lemma main_configure_threads:
  assumes "can_start d" "Cron_thread \<in> set (threads d)"
  shows "wp main_configure (\<lambda>ok d'. ok \<longrightarrow> served d') unless_stopped d"
proof -
  let ?P = "\<lambda>d. can_start d \<and> Cron_thread \<in> set (threads d)"
  have bind: "wp bind_ports (\<lambda>ok d'. ok \<longrightarrow> served d') unless_stopped d'" if "?P d'" for d'
    by (rule wp_mono [OF bind_ports_serves]) (use that in \<open>auto simp: can_start_def joined_def served_def\<close>)
  have "stays served (bindM change_root (\<lambda>ok. if \<not> ok then retM False
         else bindM (drop_privileges True) (\<lambda>ok. if \<not> ok then retM False
         else bindM (onio (sys Log_open)) (\<lambda>l. if a_ret l \<noteq> 0 then retM False
         else seqM (modM (\<lambda>d. d\<lparr>io := (io d)\<lparr>num_clients := 0\<rparr>\<rparr>)) (retM True)))))" (is "stays served ?rest")
    unfolding change_root_def drop_privileges_def
    by (auto intro!: stays_rules stays_modM stays_sys blind_served simp: served_def serves_def split: option.split)
  then have rest: "wp ?rest (\<lambda>ok d'. ok \<longrightarrow> served d') unless_stopped d'" if "served d'" for d'
    using that by (intro wp_mono [OF staysD [of served]]) auto
  show ?thesis
    unfolding main_configure_def wp_bindM [of "onio (sys Options_cmdline)"]
    by (rule wp_mono [OF staysD [of ?P, OF stays_sys [OF blind_can_start(2)]]])
      (use assms in \<open>auto simp: wp_retM wp_seqM options_apply_def wp_modM wp_bindM [of bind_ports] can_start_def
        intro!: wp_mono [OF bind] rest\<close>)
qed

lemma startup_threads:
  assumes "\<forall>n s. a_ret (os (env (io d)) n (Thread_create s)) = 0"
  shows "wp (seqM main_init (bindM main_configure (\<lambda>ok. if ok then daemonize f else retM False))) threads_started unless_stopped d"
proof -
  have "can_start d" using assms by (simp add: can_start_def)
  then show ?thesis
    unfolding wp_seqM wp_bindM
    by (intro wp_mono [OF main_init_threads])
      (auto simp: wp_retM threads_started_def [of False] intro!: wp_mono [OF main_configure_threads] daemonize_threads)
qed

section \<open>When the libwrap processes cannot be started\<close>

lemma foldM_stopped: "foldM (\<lambda>i ok. if ok then f i else retM False) xs False = retM False"
  by (induction xs) (simp_all add: fun_eq_iff mdefs)

lemma libwrap_start_half:
  assumes "\<not> libwrap_initialized d" "\<exists>p \<in> set (ports d). s_libwrap p"
    and "\<forall>n. a_ret (os (env (io d)) n Fork) = -1"
    and "\<forall>n. 0 \<le> a_ret (os (env (io d)) n Socketpair) \<and> 0 \<le> a_fds (os (env (io d)) n Socketpair) ! 0 \<and>
      0 \<le> a_fds (os (env (io d)) n Socketpair) ! 1"
    and "max_fds (io d) = 0" "now (env (io d)) + 2 \<le> horizon (env (io d))"
  shows "\<exists>d'. libwrap_start d = Ok False d' \<and> libwrap_processes d' = LIBWRAP_CLIENTS \<and> \<not> libwrap_initialized d' \<and>
    (\<forall>i < LIBWRAP_CLIENTS. 0 < i \<longrightarrow> ipc_socket d' ! (2 * i) = 0)"
proof -
  have upt: "[0..<LIBWRAP_CLIENTS] = 0 # [1..<5]" by (simp add: LIBWRAP_CLIENTS_def upt_rec)
  let ?a = "os (env (io d)) (now (env (io d))) Socketpair"
  let ?d = "d\<lparr>libwrap_processes := LIBWRAP_CLIENTS, ipc_socket := replicate (2 * LIBWRAP_CLIENTS) 0\<rparr>"
  have a: "\<not> a_ret ?a < 0" "a_fds ?a ! 0 \<noteq> -1" "a_fds ?a ! Suc 0 \<noteq> -1" "\<not> a_fds ?a ! 0 < 0" "\<not> a_fds ?a ! Suc 0 < 0"
    using spec [OF assms(4), of "now (env (io d))"] by auto
  have "\<exists>d'. libwrap_spawn 0 ?d = Ok False d' \<and> libwrap_processes d' = LIBWRAP_CLIENTS \<and> \<not> libwrap_initialized d' \<and>
      ipc_socket d' = (replicate (2 * LIBWRAP_CLIENTS) 0)[0 := a_fds ?a ! 0, 1 := a_fds ?a ! 1]"
    using assms(1,3,5,6) a
    by (simp add: libwrap_spawn_def mdefs onio_def sys_def Let_def setup_pair_def setup_fd_def INVALID_SOCKET_def)
  then obtain d' where "libwrap_spawn 0 ?d = Ok False d'" "libwrap_processes d' = LIBWRAP_CLIENTS" "\<not> libwrap_initialized d'"
    "ipc_socket d' = (replicate (2 * LIBWRAP_CLIENTS) 0)[0 := a_fds ?a ! 0, 1 := a_fds ?a ! 1]" by blast
  moreover from this have "libwrap_start d = Ok False d'"
    using assms(1,2) by (simp add: libwrap_start_def mdefs upt foldM_stopped)
  ultimately show ?thesis by (auto simp: nth_list_update LIBWRAP_CLIENTS_def)
qed
end
