(* ===== verification/Demo.thy ===== *)
theory Demo
  imports Protocol Transfer_Loop Custody
begin

unbundle bit_operations_syntax

text \<open>
  Concrete environments and connections: an operating system that follows a script, used to show that
  the hypotheses of the properties can hold and what the definitions compute.
\<close>

definition blank :: ans where
  "blank = \<lparr>a_ret = 0, a_errno = 0, a_val = 0, a_data = [], a_fds = [], a_revents = [],
     a_ssl = SSL_NONE, a_sent = False, a_rcvd = False, a_reneg = False,
     a_addr = AF_INET [127, 0, 0, 1] [0, 80], a_addrs = [], a_host = ''localhost'', a_port = ''80''\<rparr>"

text \<open>Calls succeed, writes accept everything, nothing arrives.\<close>

fun mild :: "req \<Rightarrow> ans" where
  "mild (Poll ps t) = blank\<lparr>a_ret := 1, a_revents := replicate (length ps) (POLLIN OR POLLOUT)\<rparr>"
| "mild (Write f bs) = blank\<lparr>a_ret := int (length bs)\<rparr>"
| "mild (Ssl_write bs) = blank\<lparr>a_ret := int (length bs), a_ssl := (if bs = [] then SSL_OTHER else SSL_NONE)\<rparr>"
| "mild (Ssl_read n) = blank\<lparr>a_ssl := SSL_ZERO_RETURN\<rparr>"
| "mild (Socket d) = blank\<lparr>a_ret := 7\<rparr>"
| "mild (Accept s) = blank\<lparr>a_ret := 8\<rparr>"
| "mild Socketpair = blank\<lparr>a_fds := [9, 10]\<rparr>"
| "mild Pipe = blank\<lparr>a_fds := [11, 12]\<rparr>"
| "mild Pty_allocate = blank\<lparr>a_fds := [13, 14]\<rparr>"
| "mild (Md4 m) = blank\<lparr>a_data := replicate 16 0\<rparr>"
| "mild (Des_ecb k b) = blank\<lparr>a_data := take 8 (b @ replicate 8 0)\<rparr>"
| "mild Bio_new = blank\<lparr>a_ret := 1\<rparr>"
| "mild (Ssl_handshake b) = blank\<lparr>a_ret := 1\<rparr>"
| "mild Ssl_new = blank\<lparr>a_ret := 1\<rparr>"
| "mild (Getaddrinfo h p f s g) = blank\<lparr>a_addrs := [AF_INET [10, 0, 0, 3] [0, 80]]\<rparr>"
| "mild _ = blank"

lemma mild_ok: "ans_ok q (mild q)"
  by (cases q) (auto simp: blank_def)

text \<open>The bytes that arrive, by the number of the request that reads them.\<close>

definition arrive :: "req \<Rightarrow> byte list \<Rightarrow> ans" where
  "arrive q bs = (mild q)\<lparr>a_ret := int (length bs), a_data := bs, a_ssl := SSL_NONE\<rparr>"

fun reads_at_most :: "req \<Rightarrow> nat \<Rightarrow> bool" where
  "reads_at_most (Read f n) k = (k \<le> n)"
| "reads_at_most (Ssl_read n) k = (k \<le> n)"
| "reads_at_most _ k = False"

definition scripted :: "(nat \<times> byte list) list \<Rightarrow> nat \<Rightarrow> req \<Rightarrow> ans" where
  "scripted scr n q = (case map_of scr n of
      Some bs \<Rightarrow> if bs \<noteq> [] \<and> reads_at_most q (length bs) then arrive q bs else mild q
    | None \<Rightarrow> mild q)"

lemma scripted_ok: "os_ok (scripted scr)"
proof -
  have "ans_ok q (arrive q bs)" if "bs \<noteq> []" "reads_at_most q (length bs)" for q bs
    using that by (cases q) (auto simp: arrive_def)
  then show ?thesis by (auto simp: os_ok_def scripted_def mild_ok split: option.split)
qed

text \<open>An unconfigured service and a connection for it.\<close>

definition plain_service :: service where
  "plain_service = \<lparr>o_client = False, o_connect_before_ssl = False, o_protocol_endpoint = False,
     o_transparent_src = False, o_transparent_dst = False, o_local = False, o_pty = False, o_retry = False,
     o_reset = True, o_renegotiation = True, o_exec_name = None, o_sni = [],
     o_connect_addr = empty_addrlist\<lparr>al_addr := [AF_INET [10, 0, 0, 1] [0, 80], AF_INET [10, 0, 0, 2] [0, 80]],
       al_session := Some [None, None]\<rparr>,
     o_redirect_addr = empty_addrlist, o_source_addr = AF_INET [0, 0, 0, 0] [0, 0],
     o_local_addr = AF_INET [0, 0, 0, 0] [0, 0], o_timeout_busy = 300, o_timeout_close = 60,
     o_timeout_connect = 10, o_timeout_idle = 43200, o_failover = FAILOVER_RR, o_username = None,
     o_session = None, o_chain = None, o_protocol = None, o_protocol_host = None, o_protocol_domain = None,
     o_protocol_username = None, o_protocol_password = None, o_protocol_authentication = ''basic'',
     o_log_level = 5\<rparr>"

definition world :: "(nat \<Rightarrow> req \<Rightarrow> ans) \<Rightarrow> nat \<Rightarrow> env" where
  "world f n = \<lparr>os = f, now = 0, horizon = n, trace = [], errno = 0\<rparr>"

text \<open>The local client on descriptor 3, the server on descriptor 5.\<close>

definition conn :: "(nat \<times> byte list) list \<Rightarrow> nat \<Rightarrow> service \<Rightarrow> cli" where
  "conn scr n z = \<lparr>env = world (scripted scr) n, opt = z, ssl = True, ssl_sent = False, ssl_rcvd = False,
     sess_redirect = (\<lambda>_. 0), sess_addr = (\<lambda>_. None), peer_addr = AF_INET [192, 0, 2, 1] [4, 0],
     bind_addr = None, connect_addr = empty_addrlist, idx = 0, local_rfd = \<lparr>fd = 3, is_socket = True\<rparr>,
     local_wfd = \<lparr>fd = 3, is_socket = True\<rparr>, remote_fd = \<lparr>fd = 5, is_socket = True\<rparr>, tmp_fd = -1,
     reneg_state = RENEG_INIT, sock_buff = [], ssl_buff = [], sock_ptr = 0, ssl_ptr = 0,
     sock_rfd = Remote_fd, sock_wfd = Remote_fd, ssl_rfd = Local_rfd, ssl_wfd = Local_wfd,
     sock_bytes = 0, ssl_bytes = 0, fds = s_poll_alloc, redirect = 2, num_clients = 1, max_fds = 0,
     sock_opts = []\<rparr>"

lemma conn_ok [simp]: "os_ok (os (env (conn scr n z)))"
  by (simp add: conn_def world_def scripted_ok)

lemma conn_opt [simp]: "opt (conn scr n z) = z"
  by (simp add: conn_def)

text \<open>One byte at a time, every \<open>k\<close>-th request from request \<open>i\<close> on.\<close>

definition drip :: "nat \<Rightarrow> nat \<Rightarrow> byte list \<Rightarrow> (nat \<times> byte list) list" where
  "drip i k bs = zip (map (\<lambda>j. i + k * j) [0..<length bs]) (map (\<lambda>b. [b]) bs)"

text \<open>The buffers as \<open>alloc_client_session\<close> leaves them.\<close>

definition buffered :: "cli \<Rightarrow> cli" where
  "buffered c = c\<lparr>sock_buff := replicate BUFFSIZE 0, ssl_buff := replicate BUFFSIZE 0\<rparr>"

lemma buffered_simps [simp]:
  "length (sock_buff (buffered c)) = BUFFSIZE" "length (ssl_buff (buffered c)) = BUFFSIZE"
  "env (buffered c) = env c" "opt (buffered c) = opt c"
  by (simp_all add: buffered_def)

text \<open>The peer's certificate is rejected, or it has none.\<close>

fun stern :: "req \<Rightarrow> ans" where
  "stern (Ssl_handshake b) = blank\<lparr>a_ret := 1, a_val := 1\<rparr>"
| "stern q = mild q"

text \<open>A service that sends the peers it does not trust elsewhere.\<close>

definition elsewhere :: service where
  "elsewhere = plain_service\<lparr>o_redirect_addr := empty_addrlist\<lparr>al_addr := [AF_INET [10, 0, 0, 9] [0, 80]],
     al_names := [''h:80''], al_session := Some [None]\<rparr>\<rparr>"

definition facing :: "(req \<Rightarrow> ans) \<Rightarrow> nat \<Rightarrow> service \<Rightarrow> cli" where
  "facing f n z = (conn [] n z)\<lparr>env := world (\<lambda>_. f) n\<rparr>"

text \<open>Nobody listens.\<close>

fun deaf :: "req \<Rightarrow> ans" where
  "deaf (Connect f a) = blank\<lparr>a_ret := -1\<rparr>"
| "deaf (Libwrap_auth s) = blank\<lparr>a_ret := 1\<rparr>"
| "deaf q = mild q"

lemma facing_ok [simp]: "os_ok (os (env (facing mild n z)))" "os_ok (os (env (facing deaf n z)))" "os_ok (os (env (facing stern n z)))"
proof -
  have "ans_ok q (deaf q)" "ans_ok q (stern q)" for q
    using mild_ok [of q] by (cases q; simp add: blank_def)+
  then show "os_ok (os (env (facing mild n z)))" "os_ok (os (env (facing deaf n z)))" "os_ok (os (env (facing stern n z)))"
    by (simp_all add: facing_def world_def os_ok_def mild_ok)
qed

text \<open>The main thread: a client comes, then, from request \<open>k\<close> on, the signal to terminate. The pid file and \<open>/dev/null\<close>
  are opened as descriptor 15.\<close>

fun visited :: "nat \<Rightarrow> nat \<Rightarrow> req \<Rightarrow> ans" where
  "visited k n (Poll (p # ps) t) = blank\<lparr>a_ret := 1,
     a_revents := (if n < k then 0 # replicate (length ps) POLLIN else POLLIN # replicate (length ps) 0)\<rparr>"
| "visited k n (Open p) = blank\<lparr>a_ret := 15\<rparr>"
| "visited k n (Read f m) = (if m = 4 then arrive (Read f m) [15, 0, 0, 0] else mild (Read f m))"
| "visited k n q = mild q"

text \<open>No thread can be created.\<close>

fun threadless :: "nat \<Rightarrow> req \<Rightarrow> ans" where
  "threadless n (Thread_create s) = blank\<lparr>a_ret := 11\<rparr>"
| "threadless n q = mild q"

lemma visited_ok: "os_ok (visited k)" "os_ok threadless"
proof -
  have "ans_ok q (visited k n q)" for k n q
    using mild_ok [of q] by (cases "(k, n, q)" rule: visited.cases) (auto simp: blank_def arrive_def)
  moreover have "ans_ok q (threadless n q)" for n q
    using mild_ok [of q] by (cases q) (auto simp: blank_def)
  ultimately show "os_ok (visited k)" "os_ok threadless" by (simp_all add: os_ok_def)
qed

definition listening :: port where
  "listening = \<lparr>s_opt = plain_service, s_accept_on = True, s_fd = INVALID_SOCKET, s_addr = AF_INET [0, 0, 0, 0] [4, 1], s_owner = False,
     s_libwrap = False\<rparr>"

text \<open>A service that runs a program and connects to a server.\<close>

definition calling :: port where
  "calling = listening\<lparr>s_accept_on := False, s_opt := plain_service\<lparr>o_exec_name := Some ''/bin/cat'',
     o_connect_addr := (o_connect_addr plain_service)\<lparr>al_names := [''h:80'']\<rparr>\<rparr>\<rparr>"

definition hosted :: "(nat \<Rightarrow> req \<Rightarrow> ans) \<Rightarrow> bool \<Rightarrow> port list \<Rightarrow> daemon" where
  "hosted f fg ps = \<lparr>io = (conn [] 0 plain_service)\<lparr>env := world f 60\<rparr>, ports = [], signal_pipe = (-1, -1),
     sig_buf = [0, 0, 0, 0], sig_ptr = 0, max_clients = 0, systemd_fds = 0, listen_fds_start = 0, configs = (\<lambda>_. ps),
     reloads = 0, threads = [], global_opt = plain_service, foreground = fg, pidfile = Some ''/run/stunnel.pid'',
     chroot_dir = Some ''/var'', group_id = 7, user_id = 7, libwrap_processes = 0, ipc_socket = [],
     libwrap_initialized = False\<rparr>"

lemma hosted_ok [simp]: "os_ok (os (env (io (hosted (visited k) fg ps))))" "os_ok (os (env (io (hosted threadless fg ps))))"
  by (simp_all add: hosted_def world_def visited_ok)

lemma quiet_visited: "quiet_host (hosted (visited k) fg [listening])"
  by (simp add: quiet_host_def) (simp add: hosted_def world_def blank_def listening_def no_libwrap_def INVALID_SOCKET_def)

definition came_back :: "'a \<Rightarrow> 'a dm \<Rightarrow> daemon \<Rightarrow> bool" where
  "came_back r m d = (case m d of Ok r' d' \<Rightarrow> r' = r | Stop k d' \<Rightarrow> False)"

lemma came_back: "came_back r m d \<Longrightarrow> \<exists>d'. m d = Ok r d'"
  by (auto simp: came_back_def split: res.splits)

section \<open>Evaluation\<close>

text \<open>Code equations that stay put on arguments not yet known, where the simplifier would unfold the
  recursion of \<open>dec\<close>, of an interval and of the bitwise conjunction for ever.\<close>

primrec dec_go :: "nat \<Rightarrow> nat \<Rightarrow> string" where
  "dec_go 0 n = [digit (n mod 10)]"
| "dec_go (Suc k) n = (if n < 10 then [digit n] else dec_go k (n div 10) @ [digit (n mod 10)])"

lemma dec_go: "n \<le> k \<Longrightarrow> dec_go k n = dec n"
proof (induction k arbitrary: n)
  case 0
  then show ?case by (simp add: dec.simps)
next
  case (Suc k)
  have "n div 10 \<le> k" if "10 \<le> n"
  proof -
    have "n div 10 < n" using that by (intro div_less_dividend) simp_all
    with Suc.prems show ?thesis by simp
  qed
  with Suc.IH [of "n div 10"] show ?case by (simp add: dec.simps [of n])
qed

lemma dec_code [code]: "dec n = dec_go n n"
  by (simp add: dec_go)

primrec count_up :: "nat \<Rightarrow> nat list" where
  "count_up 0 = []"
| "count_up (Suc n) = count_up n @ [n]"

lemma count_up: "[0..<n] = count_up n"
  by (induction n) simp_all

lemmas daemon_code [code] = unbind_ports_def [unfolded count_up] bind_ports_def [unfolded count_up]
  daemon_round_def [unfolded count_up] inherit_fds_def [unfolded count_up]


lemma le_int_code [code]:
  "le_int bs = (foldr (\<lambda>b n. uint b + 256 * n) bs 0 + 2147483648) mod 4294967296 - 2147483648"
proof -
  have "int (foldr (\<lambda>b n. unat b + 256 * n) bs 0) = foldr (\<lambda>b n. uint b + 256 * n) bs 0"
    by (induction bs) simp_all
  moreover have "sint (word_of_nat n :: 32 word) = (int n + 2147483648) mod 4294967296 - 2147483648" for n
    by (simp only: signed_of_nat) (simp add: signed_take_bit_eq_take_bit_shift take_bit_eq_mod)
  ultimately show ?thesis by (simp only: le_int_def)
qed

text \<open>The bounds on the length of a line are compared as integers, not as successor numerals.\<close>

lemma getline_loop_code [code]:
  "getline_loop rd lines = loopM (\<lambda>(ptr, line).
     if int ptr > 65536 then stopM (Longjmp 1)
     else let line1 = (if length line < ptr + 1 then realloc_list 0 line (2 * length line) else line)
       in bindM rd (\<lambda>bs.
         if ptr \<ge> length line1 then stopM Overflow
         else retM (getline_put lines ptr line1 (hd bs)))) (0, replicate 32 0)"
proof -
  have "int ptr > 65536 \<longleftrightarrow> ptr > 65536" for ptr by linarith
  then show ?thesis by (simp only: getline_loop_def)
qed

lemma ssl_putline_code [code]:
  "ssl_putline line =
    (let tmpline = line @ CRLF
     in if int (length tmpline) > 2147483647 then stopM (Longjmp 1) else s_ssl_write (raw tmpline))"
proof -
  have "int n > 2147483647 \<longleftrightarrow> n > 2147483647" for n by linarith
  then show ?thesis by (simp only: ssl_putline_def)
qed

text \<open>A run that comes to its end.\<close>

definition ran :: "'a cm \<Rightarrow> cli \<Rightarrow> bool" where
  "ran m c = (case m c of Ok r c' \<Rightarrow> True | Stop k c' \<Rightarrow> False)"

lemma wp_ran: "wp m Q E c \<Longrightarrow> ran m c \<Longrightarrow> \<exists>r c'. m c = Ok r c' \<and> Q r c'"
  by (auto simp: ran_def wp_def split: res.splits)

definition off_loopback :: "byte list \<Rightarrow> bool" where
  "off_loopback a \<longleftrightarrow> (of_nat (be_nat a) :: 32 word) AND 0xff000000 \<noteq> 0x7f000000"

fun inet_allowed :: "byte list \<Rightarrow> bool" where
  "inet_allowed [a, b, c, d] \<longleftrightarrow> a \<noteq> 127"
| "inet_allowed bs \<longleftrightarrow> off_loopback bs"

lemma inet_allowed: "inet_allowed a \<longleftrightarrow> allowed (AF_INET a p)"
  by (cases a rule: inet_allowed.cases) (simp_all add: allowed_inet off_loopback_def del: allowed.simps(2),
      simp_all add: off_loopback_def)

lemma allowed_code [code]:
  "allowed (AF_INET6 a p) \<longleftrightarrow> take 16 a \<noteq> ipv6_loopback"
  "allowed (AF_INET a p) \<longleftrightarrow> inet_allowed a"
  "allowed (AF_UNIX s) \<longleftrightarrow> False"
  "allowed (AF_OTHER n) \<longleftrightarrow> False"
  by (simp_all add: inet_allowed [symmetric] del: allowed.simps(2))

end
