(* ===== verification/Leaks.thy ===== *)
theory Leaks
  imports Probe
begin

text \<open>
  The leak detection of str.c: an open-addressing hash table that counts, for every line of the source that allocates,
  the allocations that were not freed. A place is a file and a line; the file is compared as the pointer
  to its name. A call of \<open>str_leak_debug\<close> is one step here.
\<close>

section \<open>The table\<close>

type_synonym place = "string \<times> nat"

record leak_entry =
  e_file :: string
  e_line :: nat
  e_num :: int
  e_most :: int

record leaks =
  leak_hash_table :: "leak_entry list"
  entries :: nat
  leak_results :: "nat list"
  number_of_sections :: nat
  leak_clients :: int
  locks_ready :: bool

definition LEAK_TABLE_SIZE :: nat where "LEAK_TABLE_SIZE = 997"

definition entry_at :: "leaks \<Rightarrow> nat \<Rightarrow> leak_entry" where
  "entry_at l i = leak_hash_table l ! i"

definition at_place :: "place \<Rightarrow> leak_entry \<Rightarrow> bool" where
  "at_place p e \<longleftrightarrow> e_line e = snd p \<and> e_file e = fst p"

text \<open>The index of the entry found.\<close>

definition leak_search :: "leaks \<Rightarrow> place \<Rightarrow> nat option" where
  "leak_search l p =
    probe (\<lambda>i. e_line (entry_at l i) = 0 \<or> at_place p (entry_at l i)) LEAK_TABLE_SIZE (snd p mod LEAK_TABLE_SIZE)"

definition leak_threshold :: "leaks \<Rightarrow> int" where
  "leak_threshold l = 10000 * (int (number_of_sections l) + 1) + 100 * leak_clients l"

definition set_entry :: "nat \<Rightarrow> leak_entry \<Rightarrow> leaks \<Rightarrow> leaks" where
  "set_entry i e l = l\<lparr>leak_hash_table := (leak_hash_table l)[i := e]\<rparr>"

text \<open>The second half of \<open>str_leak_debug\<close>: count, and note a new maximum.\<close>

definition leak_count :: "nat \<Rightarrow> int \<Rightarrow> leaks \<Rightarrow> leaks" where
  "leak_count i change l =
    (let e = entry_at l i; allocations = e_num e + change;
         l1 = set_entry i (e\<lparr>e_num := allocations\<rparr>) l
     in if allocations > leak_threshold l \<and> allocations > e_most e
        then set_entry i (e\<lparr>e_num := allocations, e_most := allocations\<rparr>)
          (if e_most e = 0 then l1\<lparr>leak_results := leak_results l1 @ [i]\<rparr> else l1)
        else l1)"

text \<open>\<open>None\<close>: the search does not end.\<close>

definition str_leak_debug :: "place \<Rightarrow> int \<Rightarrow> leaks \<Rightarrow> leaks option" where
  "str_leak_debug p change l =
    (if \<not> locks_ready l \<or> number_of_sections l = 0 then Some l
     else case leak_search l p of
       None \<Rightarrow> None
     | Some i \<Rightarrow>
         if at_place p (entry_at l i) then Some (leak_count i change l)
         else case leak_search l p of
           None \<Rightarrow> None
         | Some i \<Rightarrow>
             if e_line (entry_at l i) = 0 then
               if entries l > LEAK_TABLE_SIZE - 100 then Some l
               else Some (leak_count i change
                 (set_entry i ((entry_at l i)\<lparr>e_file := fst p, e_line := snd p\<rparr>) (l\<lparr>entries := entries l + 1\<rparr>)))
             else Some (leak_count i change l))"

text \<open>What is logged: places, with the most allocations counted.\<close>

definition leak_report :: "leaks \<Rightarrow> (place \<times> int) list" where
  "leak_report l = map (\<lambda>i. ((e_file (entry_at l i), e_line (entry_at l i)), e_most (entry_at l i)))
     (filter (\<lambda>i. e_most (entry_at l i) > leak_threshold l) (leak_results l))"

definition leak_init :: "nat \<Rightarrow> int \<Rightarrow> leaks" where
  "leak_init sections clients = \<lparr>leak_hash_table = replicate LEAK_TABLE_SIZE \<lparr>e_file = [], e_line = 0, e_num = 0, e_most = 0\<rparr>,
     entries = 0, leak_results = [], number_of_sections = sections, leak_clients = clients, locks_ready = True\<rparr>"

fun leak_run :: "(place \<times> int) list \<Rightarrow> leaks \<Rightarrow> leaks option" where
  "leak_run [] l = Some l"
| "leak_run ((p, c) # xs) l = (case str_leak_debug p c l of None \<Rightarrow> None | Some l' \<Rightarrow> leak_run xs l')"

section \<open>What the table is meant to be\<close>

definition occupied :: "leaks \<Rightarrow> nat \<Rightarrow> bool" where
  "occupied l i \<longleftrightarrow> i < LEAK_TABLE_SIZE \<and> e_line (entry_at l i) \<noteq> 0"

definition place_at :: "leaks \<Rightarrow> nat \<Rightarrow> place" where
  "place_at l i = (e_file (entry_at l i), e_line (entry_at l i))"

definition places :: "leaks \<Rightarrow> place set" where
  "places l = place_at l ` {i. occupied l i}"

text \<open>A map from places to counts.\<close>

definition tally :: "leaks \<Rightarrow> place \<Rightarrow> int" where
  "tally l p = (\<Sum>i | occupied l i \<and> place_at l i = p. e_num (entry_at l i))"

definition leak_inv :: "leaks \<Rightarrow> bool" where
  "leak_inv l \<longleftrightarrow> length (leak_hash_table l) = LEAK_TABLE_SIZE \<and> -1 \<le> leak_clients l \<and>
     entries l = card (places l) \<and> entries l \<le> LEAK_TABLE_SIZE - 99 \<and> inj_on (place_at l) {i. occupied l i} \<and>
     (\<forall>i. occupied l i \<longrightarrow> (\<exists>m. i = (e_line (entry_at l i) + m) mod LEAK_TABLE_SIZE \<and>
        (\<forall>j < m. occupied l ((e_line (entry_at l i) + j) mod LEAK_TABLE_SIZE)))) \<and>
     (\<forall>i < LEAK_TABLE_SIZE. \<not> occupied l i \<longrightarrow> e_num (entry_at l i) = 0 \<and> e_most (entry_at l i) = 0) \<and>
     distinct (leak_results l) \<and> (\<forall>i \<in> set (leak_results l). occupied l i \<and> e_most (entry_at l i) \<noteq> 0)"

lemma finite_occupied [simp]: "finite {i. occupied l i}" "finite {i. occupied l i \<and> P i}"
  by (rule finite_subset [of _ "{..<LEAK_TABLE_SIZE}"]; auto simp: occupied_def)+

lemma at_place_iff: "at_place p (entry_at l i) \<longleftrightarrow> place_at l i = p"
  by (cases p) (auto simp: at_place_def place_at_def)

lemma size_pos [simp]: "0 < LEAK_TABLE_SIZE" "n mod LEAK_TABLE_SIZE < LEAK_TABLE_SIZE"
  by (simp_all add: LEAK_TABLE_SIZE_def)

lemma card_occupied: "leak_inv l \<Longrightarrow> card {i. occupied l i} = entries l"
  by (simp add: leak_inv_def places_def card_image)

text \<open>The search finds the entry of a place, or the slot for it.\<close>

lemma leak_search_known:
  assumes "leak_inv l" "occupied l i" "place_at l i = p"
  shows "leak_search l p = Some i"
proof -
  have p: "e_line (entry_at l i) = snd p" using assms(3) by (auto simp: place_at_def)
  obtain m0 where m0: "i = (snd p + m0) mod LEAK_TABLE_SIZE"
    "\<forall>j < m0. occupied l ((snd p + j) mod LEAK_TABLE_SIZE)"
    using assms(1,2) unfolding leak_inv_def p [symmetric] by blast
  define m where "m = (LEAST m. i = (snd p + m) mod LEAK_TABLE_SIZE)"
  have m: "i = (snd p + m) mod LEAK_TABLE_SIZE" unfolding m_def by (rule LeastI) (rule m0(1))
  have "m \<le> m0" unfolding m_def using m0(1) by (rule Least_le)
  have "place_at l ((snd p + j) mod LEAK_TABLE_SIZE) \<noteq> p \<and> occupied l ((snd p + j) mod LEAK_TABLE_SIZE)" if "j < m" for j
  proof -
    have "occupied l ((snd p + j) mod LEAK_TABLE_SIZE)" using m0(2) \<open>m \<le> m0\<close> that by simp
    moreover have "i \<noteq> (snd p + j) mod LEAK_TABLE_SIZE" using not_less_Least that unfolding m_def by blast
    moreover have "inj_on (place_at l) {i. occupied l i}" using assms(1) by (simp add: leak_inv_def)
    ultimately show ?thesis using assms(2,3) by (auto dest: inj_onD)
  qed
  note before = this
  let ?stop = "\<lambda>i. e_line (entry_at l i) = 0 \<or> at_place p (entry_at l i)"
  have h: "(snd p mod LEAK_TABLE_SIZE + j) mod LEAK_TABLE_SIZE = (snd p + j) mod LEAK_TABLE_SIZE" for j
    by (rule mod_add_left_eq)
  have "\<not> ?stop ((snd p mod LEAK_TABLE_SIZE + j) mod LEAK_TABLE_SIZE)" if "j < m" for j
    using before [OF that] unfolding h by (auto simp: at_place_iff occupied_def)
  moreover have "?stop ((snd p mod LEAK_TABLE_SIZE + m) mod LEAK_TABLE_SIZE)"
    unfolding h m [symmetric] using assms(3) by (simp add: at_place_iff)
  ultimately have "probe ?stop LEAK_TABLE_SIZE (snd p mod LEAK_TABLE_SIZE) = Some ((snd p mod LEAK_TABLE_SIZE + m) mod LEAK_TABLE_SIZE)"
    by (intro probe_first) simp_all
  then show ?thesis unfolding leak_search_def h m [symmetric] .
qed

lemma leak_search_unknown:
  assumes "leak_inv l" "p \<notin> places l" "0 < snd p"
  shows "\<exists>i m. leak_search l p = Some i \<and> i < LEAK_TABLE_SIZE \<and> \<not> occupied l i \<and> \<not> at_place p (entry_at l i) \<and>
    i = (snd p + m) mod LEAK_TABLE_SIZE \<and> (\<forall>j < m. occupied l ((snd p + j) mod LEAK_TABLE_SIZE))"
proof -
  have "card {i. occupied l i} < card {..<LEAK_TABLE_SIZE}"
    using card_occupied [OF assms(1)] assms(1) by (simp add: leak_inv_def LEAK_TABLE_SIZE_def)
  then have "{..<LEAK_TABLE_SIZE} \<noteq> {i. occupied l i}" by (metis less_irrefl)
  moreover have "{i. occupied l i} \<subseteq> {..<LEAK_TABLE_SIZE}" by (auto simp: occupied_def)
  ultimately obtain q where q: "q < LEAK_TABLE_SIZE" "\<not> occupied l q" by auto
  let ?stop = "\<lambda>i. e_line (entry_at l i) = 0 \<or> at_place p (entry_at l i)"
  have "?stop q" using q by (simp add: occupied_def)
  from probe_finds [OF size_pos(2) q(1), of ?stop, OF this, of "snd p"]
  obtain m where m: "leak_search l p = Some ((snd p + m) mod LEAK_TABLE_SIZE)" "?stop ((snd p + m) mod LEAK_TABLE_SIZE)"
    "\<forall>j < m. \<not> ?stop ((snd p + j) mod LEAK_TABLE_SIZE)"
    unfolding leak_search_def mod_add_left_eq by blast
  have "\<not> at_place p (entry_at l i)" if "i < LEAK_TABLE_SIZE" for i
    using assms(2,3) that by (cases "occupied l i") (auto simp: at_place_iff places_def occupied_def place_at_def)
  with m show ?thesis
    by (intro exI [of _ "(snd p + m) mod LEAK_TABLE_SIZE"] exI [of _ m]) (auto simp: occupied_def)
qed

section \<open>Counting\<close>

lemma set_entry_fields [simp]:
  "length (leak_hash_table (set_entry i e l)) = length (leak_hash_table l)" "entries (set_entry i e l) = entries l"
  "leak_results (set_entry i e l) = leak_results l" "leak_clients (set_entry i e l) = leak_clients l"
  "number_of_sections (set_entry i e l) = number_of_sections l" "locks_ready (set_entry i e l) = locks_ready l"
  by (simp_all add: set_entry_def)

lemma entry_at_set [simp]:
  "i < length (leak_hash_table l) \<Longrightarrow> entry_at (set_entry i e l) j = (if j = i then e else entry_at l j)"
  by (simp add: entry_at_def set_entry_def nth_list_update)

lemma entry_at_fields [simp]:
  "entry_at (l\<lparr>entries := n\<rparr>) = entry_at l" "entry_at (l\<lparr>leak_results := r\<rparr>) = entry_at l"
  by (simp_all add: entry_at_def fun_eq_iff)

text \<open>Two tables with the same places.\<close>

definition same_places :: "leaks \<Rightarrow> leaks \<Rightarrow> bool" where
  "same_places l l' \<longleftrightarrow> occupied l' = occupied l \<and> place_at l' = place_at l \<and> entries l' = entries l \<and>
     length (leak_hash_table l') = length (leak_hash_table l) \<and> leak_clients l' = leak_clients l \<and>
     number_of_sections l' = number_of_sections l \<and> locks_ready l' = locks_ready l"

lemma leak_count_places:
  assumes "leak_inv l" "i < LEAK_TABLE_SIZE"
  shows "same_places l (leak_count i c l)"
proof -
  have "i < length (leak_hash_table l)" using assms by (simp add: leak_inv_def)
  then show ?thesis
    by (auto simp: same_places_def leak_count_def Let_def occupied_def place_at_def fun_eq_iff)
qed

lemma leak_count_num:
  assumes "leak_inv l" "i < LEAK_TABLE_SIZE"
  shows "e_num (entry_at (leak_count i c l) j) = e_num (entry_at l j) + (if j = i then c else 0)"
proof -
  have "i < length (leak_hash_table l)" using assms by (simp add: leak_inv_def)
  then show ?thesis by (auto simp: leak_count_def Let_def)
qed

lemma leak_count_results:
  assumes "leak_inv l" "occupied l i" "number_of_sections l \<noteq> 0"
  shows "distinct (leak_results (leak_count i c l)) \<and>
    (\<forall>j \<in> set (leak_results (leak_count i c l)). occupied l j \<and> e_most (entry_at (leak_count i c l) j) \<noteq> 0) \<and>
    (\<forall>j. j \<noteq> i \<longrightarrow> entry_at (leak_count i c l) j = entry_at l j)"
proof -
  have i: "i < length (leak_hash_table l)" using assms by (simp add: leak_inv_def occupied_def)
  have "0 < leak_threshold l" using assms by (simp add: leak_threshold_def leak_inv_def)
  then show ?thesis
    using assms i by (auto simp: leak_count_def Let_def leak_inv_def)
qed

lemma leak_count_inv:
  assumes "leak_inv l" "occupied l i" "number_of_sections l \<noteq> 0"
  shows "leak_inv (leak_count i c l)"
proof -
  let ?l = "leak_count i c l"
  have i: "i < LEAK_TABLE_SIZE" using assms(2) by (simp add: occupied_def)
  have s: "same_places l ?l" using assms(1) i by (rule leak_count_places)
  then have line: "e_line (entry_at ?l j) = e_line (entry_at l j)" for j
    by (simp add: same_places_def place_at_def fun_eq_iff)
  have "places ?l = places l" using s by (simp add: same_places_def places_def)
  then show ?thesis
    using assms(1,2) s leak_count_results [OF assms, of c] unfolding leak_inv_def line same_places_def
    by (metis (no_types, lifting))
qed

lemma tally_known: "leak_inv l \<Longrightarrow> occupied l i \<Longrightarrow> tally l (place_at l i) = e_num (entry_at l i)"
proof -
  assume a: "leak_inv l" "occupied l i"
  then have "inj_on (place_at l) {i. occupied l i}" by (simp add: leak_inv_def)
  with a(2) have "{j. occupied l j \<and> place_at l j = place_at l i} = {i}" by (auto dest: inj_onD)
  then show ?thesis by (simp add: tally_def)
qed

lemma tally_unknown: "p \<notin> places l \<Longrightarrow> tally l p = 0"
proof -
  assume "p \<notin> places l"
  then have "{j. occupied l j \<and> place_at l j = p} = {}" by (auto simp: places_def)
  then show ?thesis by (simp only: tally_def sum.empty)
qed

lemma tally_count:
  assumes "leak_inv l" "occupied l i" "number_of_sections l \<noteq> 0"
  shows "tally (leak_count i c l) = (tally l)(place_at l i := tally l (place_at l i) + c)"
proof
  fix p
  let ?l = "leak_count i c l"
  have i: "i < LEAK_TABLE_SIZE" using assms(2) by (simp add: occupied_def)
  note s = leak_count_places [OF assms(1) i, of c] and inv = leak_count_inv [OF assms, of c]
  show "tally ?l p = ((tally l)(place_at l i := tally l (place_at l i) + c)) p"
  proof (cases "p \<in> places l")
    case True
    then obtain j where j: "occupied l j" "p = place_at l j" by (auto simp: places_def)
    then have j': "occupied ?l j" "p = place_at ?l j" using s by (simp_all add: same_places_def)
    have "place_at l j = place_at l i \<longleftrightarrow> j = i" using assms(1,2) j(1) by (auto simp: leak_inv_def dest: inj_onD)
    then show ?thesis
      using tally_known [OF inv j'(1)] tally_known [OF assms(1) j(1)] tally_known [OF assms(1,2)] j(2) j'(2)
        leak_count_num [OF assms(1) i, of c j] by auto
  next
    case False
    then have "p \<notin> places ?l" "p \<noteq> place_at l i" using s assms(2) by (auto simp: same_places_def places_def)
    with False show ?thesis by (simp add: tally_unknown)
  qed
qed

section \<open>A new place\<close>

definition new_entry :: "nat \<Rightarrow> place \<Rightarrow> leaks \<Rightarrow> leaks" where
  "new_entry i p l = set_entry i ((entry_at l i)\<lparr>e_file := fst p, e_line := snd p\<rparr>) (l\<lparr>entries := entries l + 1\<rparr>)"

lemma new_entry_facts:
  assumes "leak_inv l" "i < LEAK_TABLE_SIZE" "\<not> occupied l i" "0 < snd p"
  shows "occupied (new_entry i p l) j \<longleftrightarrow> j = i \<or> occupied l j"
    "place_at (new_entry i p l) j = (if j = i then p else place_at l j)"
    "e_num (entry_at (new_entry i p l) j) = e_num (entry_at l j)" "e_most (entry_at (new_entry i p l) j) = e_most (entry_at l j)"
    "e_line (entry_at (new_entry i p l) j) = (if j = i then snd p else e_line (entry_at l j))"
    "places (new_entry i p l) = insert p (places l)"
proof -
  have i: "i < length (leak_hash_table (l\<lparr>entries := entries l + 1\<rparr>))" using assms by (simp add: leak_inv_def)
  show o: "occupied (new_entry i p l) j \<longleftrightarrow> j = i \<or> occupied l j" for j
    using assms i by (auto simp: new_entry_def occupied_def)
  show pl: "place_at (new_entry i p l) j = (if j = i then p else place_at l j)" for j
    using i by (simp add: new_entry_def place_at_def)
  show "e_num (entry_at (new_entry i p l) j) = e_num (entry_at l j)" "e_most (entry_at (new_entry i p l) j) = e_most (entry_at l j)"
    "e_line (entry_at (new_entry i p l) j) = (if j = i then snd p else e_line (entry_at l j))"
    using i by (simp_all add: new_entry_def)
  have "{j. occupied (new_entry i p l) j} = insert i {j. occupied l j}" using o by auto
  moreover have "place_at (new_entry i p l) ` {j. occupied l j} = place_at l ` {j. occupied l j}"
    using assms(3) pl by (intro image_cong) auto
  ultimately show "places (new_entry i p l) = insert p (places l)" using pl [of i] by (simp add: places_def)
qed

lemma new_entry_inv:
  assumes "leak_inv l" "i < LEAK_TABLE_SIZE" "\<not> occupied l i" "0 < snd p" "p \<notin> places l" "entries l \<le> LEAK_TABLE_SIZE - 100"
    and "i = (snd p + m) mod LEAK_TABLE_SIZE" "\<forall>j < m. occupied l ((snd p + j) mod LEAK_TABLE_SIZE)"
  shows "leak_inv (new_entry i p l)"
proof -
  let ?l = "new_entry i p l"
  note f = new_entry_facts [OF assms(1-4)]
  have fields: "length (leak_hash_table ?l) = length (leak_hash_table l)" "entries ?l = entries l + 1"
    "leak_results ?l = leak_results l" "leak_clients ?l = leak_clients l" by (simp_all add: new_entry_def)
  have "finite (places l)" by (simp add: places_def)
  then have "card (places ?l) = card (places l) + 1" using assms(5) by (simp add: f(6))
  moreover have "inj_on (place_at ?l) {j. occupied ?l j}"
  proof (rule inj_onI)
    fix a b assume ab: "a \<in> {j. occupied ?l j}" "b \<in> {j. occupied ?l j}" "place_at ?l a = place_at ?l b"
    have "place_at l j \<noteq> p" if "occupied l j" for j using assms(5) that by (auto simp: places_def)
    moreover have "inj_on (place_at l) {j. occupied l j}" using assms(1) by (simp add: leak_inv_def)
    ultimately show "a = b" using ab by (auto simp: f(1,2) dest: inj_onD split: if_splits)
  qed
  moreover have "\<exists>m. j = (e_line (entry_at ?l j) + m) mod LEAK_TABLE_SIZE \<and>
      (\<forall>k < m. occupied ?l ((e_line (entry_at ?l j) + k) mod LEAK_TABLE_SIZE))" if "occupied ?l j" for j
  proof (cases "j = i")
    case True
    then have "e_line (entry_at ?l j) = snd p" by (simp add: f(5))
    moreover have "\<forall>k < m. occupied ?l ((snd p + k) mod LEAK_TABLE_SIZE)" using assms(8) by (simp add: f(1))
    ultimately show ?thesis using assms(7) True by metis
  next
    case False
    then have "occupied l j" using that by (simp add: f(1))
    then obtain m' where "j = (e_line (entry_at l j) + m') mod LEAK_TABLE_SIZE"
      "\<forall>k < m'. occupied l ((e_line (entry_at l j) + k) mod LEAK_TABLE_SIZE)"
      using assms(1) unfolding leak_inv_def by blast
    then show ?thesis unfolding f(1,5) using False by auto
  qed
  moreover have "e_num (entry_at ?l j) = 0 \<and> e_most (entry_at ?l j) = 0" if "j < LEAK_TABLE_SIZE" "\<not> occupied ?l j" for j
    using assms(1) that unfolding leak_inv_def f(1,3,4) by blast
  moreover have "\<forall>j \<in> set (leak_results l). occupied ?l j \<and> e_most (entry_at ?l j) \<noteq> 0"
    using assms(1) unfolding leak_inv_def f(1,4) by blast
  ultimately show ?thesis
    using assms(1,6) unfolding leak_inv_def fields by (auto simp: LEAK_TABLE_SIZE_def)
qed

lemma tally_new:
  assumes "leak_inv l" "i < LEAK_TABLE_SIZE" "\<not> occupied l i" "0 < snd p" "p \<notin> places l"
  shows "tally (new_entry i p l) = tally l"
proof
  fix q
  note f = new_entry_facts [OF assms(1-4)]
  have zero: "e_num (entry_at l i) = 0" using assms(1-3) by (simp add: leak_inv_def)
  show "tally (new_entry i p l) q = tally l q"
  proof (cases "q = p")
    case True
    have "place_at l j \<noteq> p" if "occupied l j" for j using assms(5) that by (auto simp: places_def)
    then have "{j. occupied (new_entry i p l) j \<and> place_at (new_entry i p l) j = p} = {i}"
      using assms(3) by (auto simp: f(1,2))
    then show ?thesis using True zero tally_unknown [OF assms(5)] by (simp add: tally_def f(3))
  next
    case False
    then have "{j. occupied (new_entry i p l) j \<and> place_at (new_entry i p l) j = q} = {j. occupied l j \<and> place_at l j = q}"
      using assms(3) by (auto simp: f(1,2))
    then show ?thesis by (simp add: tally_def f(3))
  qed
qed

section \<open>Every call\<close>

lemma str_leak_debug_cases:
  assumes "leak_inv l" "0 < snd p"
  obtains (ignored) "str_leak_debug p c l = Some l"
      "locks_ready l \<and> number_of_sections l \<noteq> 0 \<Longrightarrow> p \<notin> places l \<and> entries l > LEAK_TABLE_SIZE - 100"
    | (known) i where "str_leak_debug p c l = Some (leak_count i c l)" "occupied l i" "place_at l i = p"
      "locks_ready l" "number_of_sections l \<noteq> 0"
    | (new) i where "str_leak_debug p c l = Some (leak_count i c (new_entry i p l))" "i < LEAK_TABLE_SIZE" "\<not> occupied l i"
      "p \<notin> places l" "leak_inv (new_entry i p l)" "locks_ready l" "number_of_sections l \<noteq> 0"
proof (cases "locks_ready l \<and> number_of_sections l \<noteq> 0")
  case True
  show thesis
  proof (cases "p \<in> places l")
    case in_table: True
    then obtain i where i: "occupied l i" "place_at l i = p" by (auto simp: places_def)
    have "str_leak_debug p c l = Some (leak_count i c l)"
      using True leak_search_known [OF assms(1) i] i(2) by (simp add: str_leak_debug_def at_place_iff)
    with known i True show thesis by blast
  next
    case unknown: False
    obtain i m where i: "leak_search l p = Some i" "i < LEAK_TABLE_SIZE" "\<not> occupied l i" "\<not> at_place p (entry_at l i)"
      "i = (snd p + m) mod LEAK_TABLE_SIZE" "\<forall>j < m. occupied l ((snd p + j) mod LEAK_TABLE_SIZE)"
      using leak_search_unknown [OF assms(1) unknown assms(2)] by blast
    have empty: "e_line (entry_at l i) = 0" using i(2,3) by (simp add: occupied_def)
    show thesis
    proof (cases "entries l > LEAK_TABLE_SIZE - 100")
      case full: True
      have "str_leak_debug p c l = Some l"
        using True i(1,4) empty full by (simp add: str_leak_debug_def)
      with ignored unknown full show thesis by blast
    next
      case room: False
      have "leak_inv (new_entry i p l)" using assms i unknown room by (intro new_entry_inv [of l i p m]) simp_all
      moreover have "str_leak_debug p c l = Some (leak_count i c (new_entry i p l))"
        using True i(1,4) empty room by (simp add: str_leak_debug_def new_entry_def)
      ultimately show thesis using new i(2,3) unknown True by blast
    qed
  qed
next
  case False
  then have "str_leak_debug p c l = Some l" by (auto simp: str_leak_debug_def)
  with ignored False show thesis by blast
qed

lemma leak_count_keeps:
  "leak_inv l \<Longrightarrow> i < LEAK_TABLE_SIZE \<Longrightarrow> places (leak_count i c l) = places l \<and>
    number_of_sections (leak_count i c l) = number_of_sections l \<and> locks_ready (leak_count i c l) = locks_ready l"
  using leak_count_places [of l i c] by (simp add: same_places_def places_def)

lemma str_leak_debug_step:
  assumes "leak_inv l" "0 < snd p"
  shows "\<exists>l'. str_leak_debug p c l = Some l' \<and> leak_inv l' \<and> number_of_sections l' = number_of_sections l \<and>
    locks_ready l' = locks_ready l \<and> places l' \<subseteq> insert p (places l) \<and>
    (locks_ready l \<and> number_of_sections l \<noteq> 0 \<and> card (insert p (places l)) \<le> LEAK_TABLE_SIZE - 99 \<longrightarrow>
      tally l' = (tally l)(p := tally l p + c))"
  using assms
proof (cases rule: str_leak_debug_cases [where c = c])
  case ignored
  have "finite (places l)" by (simp add: places_def)
  then have "card (insert p (places l)) = entries l + 1" if "p \<notin> places l" using that assms(1) by (simp add: leak_inv_def)
  then show ?thesis using ignored assms(1) by (auto simp: LEAK_TABLE_SIZE_def)
next
  case (known i)
  then have "i < LEAK_TABLE_SIZE" by (simp add: occupied_def)
  from leak_count_keeps [OF assms(1) this, of c] show ?thesis
    using known leak_count_inv [OF assms(1) known(2), of c] tally_count [OF assms(1) known(2), of c] by auto
next
  case (new i)
  note f = new_entry_facts [OF assms(1) new(2,3) assms(2)]
  have o: "occupied (new_entry i p l) i" "place_at (new_entry i p l) i = p" by (simp_all add: f(1,2))
  have "number_of_sections (new_entry i p l) = number_of_sections l" "locks_ready (new_entry i p l) = locks_ready l"
    by (simp_all add: new_entry_def)
  then show ?thesis
    using new leak_count_keeps [OF new(5,2), of c] leak_count_inv [OF new(5) o(1), of c] tally_count [OF new(5) o(1), of c]
      tally_new [OF assms(1) new(2,3) assms(2) new(4)] o(2) f(6) by auto
qed

lemma leak_inv_init: "-1 \<le> clients \<Longrightarrow> leak_inv (leak_init n clients)"
proof -
  have "\<not> occupied (leak_init n clients) i" for i by (simp add: occupied_def entry_at_def leak_init_def)
  moreover from this have "places (leak_init n clients) = {}" by (simp add: places_def)
  ultimately show "-1 \<le> clients \<Longrightarrow> leak_inv (leak_init n clients)"
    by (simp add: leak_inv_def entry_at_def) (simp add: leak_init_def)
qed

text \<open>The array of results never overflows.\<close>

lemma leak_results_fit:
  assumes "leak_inv l"
  shows "length (leak_results l) \<le> LEAK_TABLE_SIZE - 99"
proof -
  have "length (leak_results l) = card (set (leak_results l))" using assms by (simp add: leak_inv_def distinct_card)
  also have "\<dots> \<le> card {i. occupied l i}" using assms by (intro card_mono) (auto simp: leak_inv_def)
  finally show ?thesis using card_occupied [OF assms] assms by (simp add: leak_inv_def)
qed

lemma leak_run_inv:
  assumes "leak_inv l" "\<forall>(p, c) \<in> set xs. 0 < snd p"
  shows "\<exists>l'. leak_run xs l = Some l' \<and> leak_inv l'"
  using assms
proof (induction xs arbitrary: l)
  case (Cons x xs)
  obtain p c where x: "x = (p, c)" by (cases x)
  obtain l' where "str_leak_debug p c l = Some l'" "leak_inv l'"
    using str_leak_debug_step [of l p c] Cons.prems x by auto
  with Cons.IH [of l'] Cons.prems x show ?case by simp
qed simp

lemma leak_run_tally:
  assumes "leak_inv l" "\<forall>(p, c) \<in> set xs. 0 < snd p" "locks_ready l" "number_of_sections l \<noteq> 0"
    and "card (places l \<union> fst ` set xs) \<le> LEAK_TABLE_SIZE - 99" "leak_run xs l = Some l'"
  shows "tally l' p = tally l p + (\<Sum>(q, c) \<leftarrow> xs. if q = p then c else 0)"
  using assms
proof (induction xs arbitrary: l)
  case (Cons x xs)
  obtain q c where x: "x = (q, c)" by (cases x)
  have fin: "finite (places l)" by (simp add: places_def)
  have "card (insert q (places l)) \<le> card (places l \<union> fst ` set (x # xs))"
    using fin x by (intro card_mono) auto
  then have "card (insert q (places l)) \<le> LEAK_TABLE_SIZE - 99" using Cons.prems(5) by linarith
  then obtain l1 where l1: "str_leak_debug q c l = Some l1" "leak_inv l1" "number_of_sections l1 = number_of_sections l"
    "locks_ready l1 = locks_ready l" "places l1 \<subseteq> insert q (places l)" "tally l1 = (tally l)(q := tally l q + c)"
    using str_leak_debug_step [of l q c] Cons.prems(1-4) x by auto
  have "card (places l1 \<union> fst ` set xs) \<le> card (places l \<union> fst ` set (x # xs))"
    using fin l1(5) x by (intro card_mono) auto
  then have "tally l' p = tally l1 p + (\<Sum>(q, c) \<leftarrow> xs. if q = p then c else 0)"
    using Cons.IH [of l1] Cons.prems l1 x by simp
  then show ?case using l1(6) x by simp
qed simp

section \<open>Reporting\<close>

text \<open>A count above the threshold is noted.\<close>

definition leaks_noted :: "leaks \<Rightarrow> bool" where
  "leaks_noted l \<longleftrightarrow> (\<forall>i < LEAK_TABLE_SIZE. (e_most (entry_at l i) \<noteq> 0 \<longrightarrow> i \<in> set (leak_results l)) \<and>
     (e_num (entry_at l i) > leak_threshold l \<longrightarrow> e_num (entry_at l i) \<le> e_most (entry_at l i)))"

lemma leak_count_noted:
  assumes "leak_inv l" "leaks_noted l" "i < LEAK_TABLE_SIZE"
  shows "leaks_noted (leak_count i c l)"
proof -
  have i: "i < length (leak_hash_table l)" using assms by (simp add: leak_inv_def)
  have "leak_threshold (leak_count i c l) = leak_threshold l"
    by (simp add: leak_threshold_def leak_count_def Let_def)
  then show ?thesis
    using assms(2) i unfolding leaks_noted_def by (simp add: leak_count_def Let_def) linarith
qed

lemma new_entry_noted:
  assumes "leak_inv l" "leaks_noted l" "i < LEAK_TABLE_SIZE"
  shows "leaks_noted (new_entry i p l)"
proof -
  have i: "i < length (leak_hash_table (l\<lparr>entries := entries l + 1\<rparr>))" using assms by (simp add: leak_inv_def)
  have "e_num (entry_at (new_entry i p l) j) = e_num (entry_at l j)" "e_most (entry_at (new_entry i p l) j) = e_most (entry_at l j)" for j
    using i by (simp_all add: new_entry_def)
  moreover have "leak_results (new_entry i p l) = leak_results l" "leak_threshold (new_entry i p l) = leak_threshold l"
    by (simp_all add: new_entry_def leak_threshold_def)
  ultimately show ?thesis using assms(2) by (simp add: leaks_noted_def)
qed

lemma leak_count_threshold [simp]: "leak_threshold (leak_count i c l) = leak_threshold l"
  by (simp add: leak_threshold_def leak_count_def Let_def)

lemma new_entry_threshold [simp]: "leak_threshold (new_entry i p l) = leak_threshold l"
  by (simp add: leak_threshold_def new_entry_def)

lemma str_leak_debug_noted:
  assumes "leak_inv l" "leaks_noted l" "0 < snd p" "str_leak_debug p c l = Some l'"
  shows "leaks_noted l' \<and> leak_threshold l' = leak_threshold l"
  using assms(1,3)
proof (cases rule: str_leak_debug_cases [where c = c])
  case ignored
  then show ?thesis using assms(2,4) by simp
next
  case (known i)
  then show ?thesis using assms leak_count_noted [OF assms(1,2), of i c] by (auto simp: occupied_def)
next
  case (new i)
  then show ?thesis using assms leak_count_noted [OF new(5) new_entry_noted [OF assms(1,2) new(2)] new(2), of c] by auto
qed

lemma leaks_noted_init: "leaks_noted (leak_init n clients)" if "-1 \<le> clients"
  using that by (auto simp: leaks_noted_def entry_at_def leak_init_def leak_threshold_def)

lemma leak_run_noted:
  assumes "leak_inv l" "leaks_noted l" "\<forall>(p, c) \<in> set xs. 0 < snd p" "leak_run xs l = Some l'"
  shows "leaks_noted l' \<and> leak_threshold l' = leak_threshold l"
  using assms
proof (induction xs arbitrary: l)
  case (Cons x xs)
  obtain p c where x: "x = (p, c)" by (cases x)
  obtain l1 where l1: "str_leak_debug p c l = Some l1" "leak_inv l1"
    using str_leak_debug_step [of l p c] Cons.prems x by auto
  have "leaks_noted l1 \<and> leak_threshold l1 = leak_threshold l"
    using str_leak_debug_noted [OF Cons.prems(1,2) _ l1(1)] Cons.prems(3) x by simp
  with Cons.IH [of l1] Cons.prems x l1 show ?case by simp
qed simp

lemma leak_reported:
  assumes "leak_inv l" "leaks_noted l" "0 \<le> leak_threshold l" "tally l p > leak_threshold l"
  shows "\<exists>m \<ge> tally l p. (p, m) \<in> set (leak_report l)"
proof -
  have "p \<in> places l" using assms(3,4) tally_unknown [of p l] by fastforce
  then obtain i where i: "occupied l i" "place_at l i = p" by (auto simp: places_def)
  then have n: "tally l p = e_num (entry_at l i)" using tally_known [OF assms(1) i(1)] by simp
  then have "e_num (entry_at l i) \<le> e_most (entry_at l i)" "i < LEAK_TABLE_SIZE"
    using assms(2,4) i(1) by (auto simp: leaks_noted_def occupied_def)
  moreover from this have "i \<in> set (leak_results l)" using assms(2,3,4) n by (auto simp: leaks_noted_def)
  ultimately show ?thesis
    using i(2) n assms(4)
    by (intro exI [of _ "e_most (entry_at l i)"]) (auto simp: leak_report_def place_at_def intro!: image_eqI [of _ _ i])
qed

end
