(* ===== verification/Alloc.thy ===== *)
theory Alloc
  imports Leaks Cstring
begin

text \<open>
  The allocator of str.c: blocks with a header that carries a magic number, the list of the thread that allocated the
  block, and a canary behind the data. The store maps addresses of headers to blocks, whether allocated or not: \<open>free()\<close> only
  gives the address back, and what is read there later is what was left. The address of the data is that of
  the header here (the code adds and subtracts the size of the header).
\<close>

section \<open>The store\<close>

definition CANARY_INITIALIZED :: "64 word" where "CANARY_INITIALIZED = 0x0000c0ded0000000"
definition CANARY_UNINITIALIZED :: "64 word" where "CANARY_UNINITIALIZED = 0x0000abadbabe0000"
definition MAGIC_ALLOCATED :: "64 word" where "MAGIC_ALLOCATED = 0x0000a110c8ed0000"
definition MAGIC_DEALLOCATED :: "64 word" where "MAGIC_DEALLOCATED = 0x0000defec8ed0000"

text \<open>\<open>b_data\<close> is the data with the canary behind it.\<close>

record block =
  b_prev :: "nat option"
  b_next :: "nat option"
  b_tls :: "nat option"
  b_size :: nat
  b_alloc :: place
  b_free :: place
  b_canary :: "64 word"
  b_magic :: "64 word"
  b_data :: "byte list"

text \<open>
  \<open>malloc n U\<close> and \<open>realloc n U a\<close> are what the \<open>n\<close>-th call of the C library's allocator answers when the addresses \<open>U\<close> are
  in use, 0 for NULL. \<open>TLS_DATA\<close> is kept for each thread.
\<close>

record heap =
  mem :: "nat \<Rightarrow> block"
  in_use :: "nat set"
  alloc_head :: "nat \<Rightarrow> nat option"
  alloc_bytes :: "nat \<Rightarrow> 64 word"
  alloc_blocks :: "nat \<Rightarrow> 64 word"
  canary :: "byte list"
  canary_initialized :: "64 word"
  leaks_of :: leaks
  alloc_calls :: nat
  malloc :: "nat \<Rightarrow> nat set \<Rightarrow> nat"
  realloc :: "nat \<Rightarrow> nat set \<Rightarrow> nat \<Rightarrow> nat"

type_synonym 'a hm = "heap \<Rightarrow> ('a, heap) res"

definition block_at :: "nat \<Rightarrow> block hm" where
  "block_at a = getM (\<lambda>s. mem s a)"

definition set_block :: "nat \<Rightarrow> (block \<Rightarrow> block) \<Rightarrow> unit hm" where
  "set_block a f = modM (\<lambda>s. s\<lparr>mem := (mem s)(a := f (mem s a))\<rparr>)"

definition set_opt :: "nat option \<Rightarrow> (block \<Rightarrow> block) \<Rightarrow> unit hm" where
  "set_opt p f = (case p of None \<Rightarrow> retM () | Some a \<Rightarrow> set_block a f)"

definition set_head :: "nat \<Rightarrow> nat option \<Rightarrow> unit hm" where
  "set_head t p = modM (\<lambda>s. s\<lparr>alloc_head := (alloc_head s)(t := p)\<rparr>)"

definition add_stats :: "nat \<Rightarrow> 64 word \<Rightarrow> 64 word \<Rightarrow> unit hm" where
  "add_stats t n k = modM (\<lambda>s. s\<lparr>alloc_bytes := (alloc_bytes s)(t := alloc_bytes s t + n),
     alloc_blocks := (alloc_blocks s)(t := alloc_blocks s t + k)\<rparr>)"

definition note_leak :: "place \<Rightarrow> int \<Rightarrow> unit hm" where
  "note_leak p change s = (case str_leak_debug p change (leaks_of s) of
     None \<Rightarrow> Stop Blocked s
   | Some l \<Rightarrow> Ok () (s\<lparr>leaks_of := l\<rparr>))"

section \<open>Allocating\<close>

definition str_alloc_detached :: "nat \<Rightarrow> place \<Rightarrow> nat hm" where
  "str_alloc_detached n p =
    bindM (getM (\<lambda>s. malloc s (alloc_calls s) (in_use s))) (\<lambda>a.
    seqM (modM (\<lambda>s. s\<lparr>alloc_calls := alloc_calls s + 1\<rparr>))
      (if a = 0 then stopM Fatal
       else seqM (modM (\<lambda>s. s\<lparr>in_use := insert a (in_use s), mem := (mem s)(a :=
              \<lparr>b_prev = None, b_next = None, b_tls = None, b_size = n, b_alloc = p, b_free = (''none'', 0),
               b_canary = canary_initialized s, b_magic = MAGIC_ALLOCATED, b_data = replicate n 0 @ canary s\<rparr>)\<rparr>))
         (seqM (note_leak p 1) (retM a))))"

definition str_alloc :: "nat \<Rightarrow> nat \<Rightarrow> place \<Rightarrow> nat hm" where
  "str_alloc t n p =
    bindM (str_alloc_detached n p) (\<lambda>a.
    bindM (getM (\<lambda>s. alloc_head s t)) (\<lambda>h.
    seqM (set_block a (\<lambda>b. b\<lparr>b_prev := None, b_next := h, b_tls := Some t\<rparr>))
      (seqM (set_opt h (\<lambda>b. b\<lparr>b_prev := Some a\<rparr>))
        (seqM (set_head t (Some a)) (seqM (add_stats t (of_nat n) 1) (retM a))))))"

section \<open>Checking\<close>

definition get_alloc_list_ptr :: "nat \<Rightarrow> nat \<Rightarrow> unit hm" where
  "get_alloc_list_ptr t a =
    bindM (block_at a) (\<lambda>b.
    bindM (getM canary) (\<lambda>c.
      if b_magic b \<noteq> MAGIC_ALLOCATED then stopM Fatal
      else if b_tls b \<noteq> None \<and> b_tls b \<noteq> Some t then stopM Fatal
      else if b_canary b \<noteq> CANARY_UNINITIALIZED \<and> safe_memcmp (drop (b_size b) (b_data b)) c 10 then stopM Fatal
      else retM ()))"

section \<open>Releasing\<close>

definition str_detach :: "nat \<Rightarrow> nat option \<Rightarrow> unit hm" where
  "str_detach t p = (case p of None \<Rightarrow> retM () | Some a \<Rightarrow>
    seqM (get_alloc_list_ptr t a)
      (bindM (block_at a) (\<lambda>b. case b_tls b of
         None \<Rightarrow> retM ()
       | Some u \<Rightarrow>
          bindM (getM (\<lambda>s. alloc_head s u)) (\<lambda>h.
          seqM (if h = Some a then set_head u (b_next b) else retM ())
            (seqM (set_opt (b_next b) (\<lambda>x. x\<lparr>b_prev := b_prev b\<rparr>))
              (seqM (set_opt (b_prev b) (\<lambda>x. x\<lparr>b_next := b_next b\<rparr>))
                (seqM (add_stats u (- of_nat (b_size b)) (-1))
                  (set_block a (\<lambda>x. x\<lparr>b_next := None, b_prev := None, b_tls := None\<rparr>)))))))))"

definition str_free :: "nat \<Rightarrow> nat option \<Rightarrow> place \<Rightarrow> unit hm" where
  "str_free t p at = (case p of None \<Rightarrow> retM () | Some a \<Rightarrow>
    bindM (block_at a) (\<lambda>b.
      if b_magic b = MAGIC_DEALLOCATED then retM ()
      else seqM (str_detach t (Some a))
        (seqM (note_leak (b_alloc b) (-1))
          (seqM (set_block a (\<lambda>x. x\<lparr>b_free := at, b_magic := MAGIC_DEALLOCATED, b_data := replicate (b_size x + 10) 0\<rparr>))
            (modM (\<lambda>s. s\<lparr>in_use := in_use s - {a}\<rparr>))))))"

text \<open>\<open>while(tls_data->alloc_head) str_free(...)\<close>: each round takes an address out of use.\<close>

definition cleanup_round :: "nat \<Rightarrow> place \<Rightarrow> (unit + unit) hm" where
  "cleanup_round t at = bindM (getM (\<lambda>s. alloc_head s t)) (\<lambda>h. case h of
     None \<Rightarrow> retM (Inl ())
   | Some a \<Rightarrow> seqM (str_free t (Some a) at) (retM (Inr ())))"

definition str_cleanup :: "nat \<Rightarrow> place \<Rightarrow> unit hm" where
  "str_cleanup t at = bindM (getM (\<lambda>s. card (in_use s))) (\<lambda>n. iterM (Suc n) (\<lambda>_. cleanup_round t at) ())"

section \<open>Resizing\<close>

text \<open>What is cut off is cleared first; \<open>realloc()\<close> keeps the common part, the rest is cleared, the canary is
  put behind it.\<close>

definition resized :: "nat \<Rightarrow> byte list \<Rightarrow> block \<Rightarrow> block" where
  "resized n c b = b\<lparr>b_data := (take n (take (b_size b) (b_data b)) @ replicate (n - b_size b) 0) @ c\<rparr>"

definition str_realloc_internal :: "nat \<Rightarrow> nat \<Rightarrow> nat \<Rightarrow> place \<Rightarrow> nat hm" where
  "str_realloc_internal t a n p =
    seqM (get_alloc_list_ptr t a)
    (bindM (block_at a) (\<lambda>old.
     seqM (note_leak (b_alloc old) (-1))
     (seqM (set_block a (\<lambda>x. if b_size x > n then x\<lparr>b_data := memset (b_data x) n 0 (b_size x - n)\<rparr> else x))
     (bindM (getM (\<lambda>s. realloc s (alloc_calls s) (in_use s) a)) (\<lambda>a'.
      seqM (modM (\<lambda>s. s\<lparr>alloc_calls := alloc_calls s + 1\<rparr>))
      (if a' = 0 then stopM Fatal
       else seqM (modM (\<lambda>s. s\<lparr>in_use := insert a' (in_use s - {a}), mem := (mem s)(a' := resized n (canary s) (mem s a))\<rparr>))
        (seqM (case b_tls old of
            None \<Rightarrow> retM ()
          | Some u \<Rightarrow>
              bindM (getM (\<lambda>s. alloc_head s u)) (\<lambda>h.
              seqM (if h = Some a then set_head u (Some a') else retM ())
                (seqM (set_opt (b_next old) (\<lambda>x. x\<lparr>b_prev := Some a'\<rparr>))
                  (seqM (set_opt (b_prev old) (\<lambda>x. x\<lparr>b_next := Some a'\<rparr>))
                    (add_stats u (of_nat n - of_nat (b_size old)) 0)))))
         (bindM (getM canary_initialized) (\<lambda>v.
          seqM (set_block a' (\<lambda>x. x\<lparr>b_size := n, b_alloc := p, b_free := (''none'', 0), b_canary := v\<rparr>))
            (seqM (note_leak p 1) (retM a')))))))))))"

definition str_realloc :: "nat \<Rightarrow> nat option \<Rightarrow> nat \<Rightarrow> place \<Rightarrow> nat hm" where
  "str_realloc t q n p = (case q of Some a \<Rightarrow> str_realloc_internal t a n p | None \<Rightarrow> str_alloc t n p)"

definition str_realloc_detached :: "nat \<Rightarrow> nat option \<Rightarrow> nat \<Rightarrow> place \<Rightarrow> nat hm" where
  "str_realloc_detached t q n p = (case q of Some a \<Rightarrow> str_realloc_internal t a n p | None \<Rightarrow> str_alloc_detached n p)"

text \<open>The canary is set once, from random bytes.\<close>

definition str_canary_init :: "byte list \<Rightarrow> unit hm" where
  "str_canary_init random = bindM (getM canary_initialized) (\<lambda>v.
     if v \<noteq> CANARY_UNINITIALIZED then retM ()
     else modM (\<lambda>s. s\<lparr>canary := random, canary_initialized := CANARY_INITIALIZED\<rparr>))"

definition str_init :: "nat \<Rightarrow> unit hm" where
  "str_init t = modM (\<lambda>s. s\<lparr>alloc_head := (alloc_head s)(t := None), alloc_bytes := (alloc_bytes s)(t := 0),
     alloc_blocks := (alloc_blocks s)(t := 0)\<rparr>)"

section \<open>Linked lists\<close>

text \<open>\<open>linked m p xs q\<close>: the blocks \<open>xs\<close> are linked both ways, between a predecessor \<open>p\<close> and a successor \<open>q\<close>.\<close>

definition first_of :: "nat list \<Rightarrow> nat option \<Rightarrow> nat option" where
  "first_of xs q = (case xs of [] \<Rightarrow> q | x # _ \<Rightarrow> Some x)"

definition last_of :: "nat option \<Rightarrow> nat list \<Rightarrow> nat option" where
  "last_of p xs = (if xs = [] then p else Some (last xs))"

fun linked :: "(nat \<Rightarrow> block) \<Rightarrow> nat option \<Rightarrow> nat list \<Rightarrow> nat option \<Rightarrow> bool" where
  "linked m p [] q \<longleftrightarrow> True"
| "linked m p (x # xs) q \<longleftrightarrow> b_prev (m x) = p \<and> b_next (m x) = first_of xs q \<and> linked m (Some x) xs q"

lemma first_of_simps [simp]: "first_of [] q = q" "first_of (x # xs) q = Some x"
  "first_of (xs @ ys) q = first_of xs (first_of ys q)"
  by (simp_all add: first_of_def split: list.split)

lemma last_of_simps [simp]: "last_of p [] = p" "last_of p (xs @ [x]) = Some x"
  "last_of p (x # xs) = last_of (Some x) xs" "last_of p (xs @ ys) = last_of (last_of p xs) ys"
  by (simp_all add: last_of_def)

lemma linked_append: "linked m p (xs @ ys) q \<longleftrightarrow> linked m p xs (first_of ys q) \<and> linked m (last_of p xs) ys q"
  by (induction xs arbitrary: p) auto

lemma linked_cong:
  "(\<And>x. x \<in> set xs \<Longrightarrow> b_prev (m' x) = b_prev (m x) \<and> b_next (m' x) = b_next (m x)) \<Longrightarrow> linked m' p xs q = linked m p xs q"
  by (induction xs arbitrary: p) auto

lemma linked_upd: "a \<notin> set xs \<Longrightarrow> linked (m(a := c)) p xs q = linked m p xs q"
  by (rule linked_cong) auto

text \<open>Updates through a pointer that may be NULL.\<close>

definition upd_opt :: "nat option \<Rightarrow> (block \<Rightarrow> block) \<Rightarrow> (nat \<Rightarrow> block) \<Rightarrow> nat \<Rightarrow> block" where
  "upd_opt p f m = (case p of None \<Rightarrow> m | Some a \<Rightarrow> m(a := f (m a)))"

lemma upd_opt_simps [simp]: "upd_opt None f m = m" "upd_opt (Some a) f m = m(a := f (m a))"
  by (simp_all add: upd_opt_def)

lemma linked_set_next:
  assumes "linked m p xs q" "distinct xs"
  shows "linked (upd_opt (last_of None xs) (\<lambda>x. x\<lparr>b_next := q'\<rparr>) m) p xs q'"
proof (cases xs rule: rev_cases)
  case (snoc ys y)
  with assms have "linked (m(y := (m y)\<lparr>b_next := q'\<rparr>)) p ys (Some y)"
    by (subst linked_cong [of ys _ m]) (auto simp: linked_append)
  with snoc assms show ?thesis by (simp add: linked_append)
qed simp

lemma linked_set_prev:
  assumes "linked m p ys q" "distinct ys"
  shows "linked (upd_opt (first_of ys None) (\<lambda>x. x\<lparr>b_prev := p'\<rparr>) m) p' ys q"
proof (cases ys)
  case (Cons y zs)
  with assms have "linked (m(y := (m y)\<lparr>b_prev := p'\<rparr>)) (Some y) zs q"
    by (subst linked_cong [of zs _ m]) auto
  with Cons assms show ?thesis by simp
qed simp

lemma upd_opt_field: "(\<And>b. g (f b) = g b) \<Longrightarrow> g (upd_opt p f m x) = g (m x)"
  by (cases p) auto

lemma upd_opt_other: "p \<noteq> Some x \<Longrightarrow> upd_opt p f m x = m x"
  by (cases p) auto

lemma first_of_in: "first_of ys None = Some x \<Longrightarrow> x \<in> set ys"
  by (cases ys) auto

lemma last_of_in: "last_of None xs = Some x \<Longrightarrow> x \<in> set xs"
  by (cases xs rule: rev_cases) auto

section \<open>The invariant\<close>

text \<open>\<open>own t\<close> are the blocks of thread \<open>t\<close>, the newest first.\<close>

type_synonym owners = "nat \<Rightarrow> nat list"

definition bytes_of :: "(nat \<Rightarrow> block) \<Rightarrow> nat list \<Rightarrow> 64 word" where
  "bytes_of m xs = (\<Sum>a \<leftarrow> xs. of_nat (b_size (m a)))"

definition lists_ok :: "owners \<Rightarrow> heap \<Rightarrow> bool" where
  "lists_ok own s \<longleftrightarrow>
     (\<forall>t. alloc_head s t = first_of (own t) None \<and> linked (mem s) None (own t) None \<and> distinct (own t)) \<and>
     (\<forall>t a. a \<in> set (own t) \<longleftrightarrow> a \<in> in_use s \<and> b_tls (mem s a) = Some t) \<and>
     (\<forall>t. alloc_blocks s t = of_nat (length (own t)) \<and> alloc_bytes s t = bytes_of (mem s) (own t))"

definition block_sound :: "heap \<Rightarrow> block \<Rightarrow> bool" where
  "block_sound s b \<longleftrightarrow> b_magic b = MAGIC_ALLOCATED \<and> length (b_data b) = b_size b + 10 \<and> 0 < snd (b_alloc b) \<and>
     (b_canary b \<noteq> CANARY_UNINITIALIZED \<longrightarrow> drop (b_size b) (b_data b) = canary s) \<and>
     (canary_initialized s = CANARY_UNINITIALIZED \<longrightarrow> b_canary b = CANARY_UNINITIALIZED)"

text \<open>What the C library promises: a block in use is not given out again.\<close>

definition malloc_ok :: "heap \<Rightarrow> bool" where
  "malloc_ok s \<longleftrightarrow> (\<forall>n U. finite U \<and> 0 \<notin> U \<longrightarrow> malloc s n U \<notin> U \<and> (\<forall>a. realloc s n U a \<notin> U - {a}))"

definition heap_inv :: "owners \<Rightarrow> heap \<Rightarrow> bool" where
  "heap_inv own s \<longleftrightarrow> lists_ok own s \<and> (\<forall>a \<in> in_use s. block_sound s (mem s a)) \<and> finite (in_use s) \<and> 0 \<notin> in_use s \<and>
     length (canary s) = 10 \<and> leak_inv (leaks_of s) \<and> malloc_ok s"

lemma heap_inv_leaks: "heap_inv own s \<Longrightarrow> leak_inv l \<Longrightarrow> heap_inv own (s\<lparr>leaks_of := l\<rparr>)"
  by (simp add: heap_inv_def lists_ok_def block_sound_def malloc_ok_def)

lemma note_leak_wp:
  assumes "leak_inv (leaks_of s)" "0 < snd p" "\<And>l. leak_inv l \<Longrightarrow> Q () (s\<lparr>leaks_of := l\<rparr>)"
  shows "wp (note_leak p c) Q E s"
  using str_leak_debug_step [OF assms(1,2), of c] assms(3) by (auto simp: wp_def note_leak_def)

text \<open>What makes a list of blocks longer by one, and shorter by one.\<close>

lemma listsI:
  assumes "\<And>u. alloc_head s u = first_of (own u) None" "\<And>u. linked (mem s) None (own u) None" "\<And>u. distinct (own u)"
    and "\<And>u x. x \<in> set (own u) \<longleftrightarrow> x \<in> in_use s \<and> b_tls (mem s x) = Some u"
    and "\<And>u. alloc_blocks s u = of_nat (length (own u))" "\<And>u. alloc_bytes s u = bytes_of (mem s) (own u)"
  shows "lists_ok own s"
  using assms by (simp add: lists_ok_def)

lemma lists_member: "lists_ok own s \<Longrightarrow> x \<in> set (own u) \<longleftrightarrow> x \<in> in_use s \<and> b_tls (mem s x) = Some u"
  by (simp add: lists_ok_def)

lemma own_in_use: "lists_ok own s \<Longrightarrow> x \<in> set (own t) \<Longrightarrow> x \<in> in_use s"
  by (simp add: lists_ok_def)

lemma own_disjoint: "lists_ok own s \<Longrightarrow> x \<in> set (own t) \<Longrightarrow> x \<in> set (own u) \<Longrightarrow> t = u"
  by (auto simp: lists_ok_def)

lemma bytes_of_cong: "(\<And>x. x \<in> set xs \<Longrightarrow> b_size (m' x) = b_size (m x)) \<Longrightarrow> bytes_of m' xs = bytes_of m xs"
  by (induction xs) (simp_all add: bytes_of_def)

lemma bytes_of_simps [simp]: "bytes_of m [] = 0" "bytes_of m (x # xs) = of_nat (b_size (m x)) + bytes_of m xs"
  "bytes_of m (xs @ ys) = bytes_of m xs + bytes_of m ys"
  by (simp_all add: bytes_of_def)

definition push_block :: "nat \<Rightarrow> nat \<Rightarrow> heap \<Rightarrow> heap" where
  "push_block t a s = s\<lparr>
     mem := upd_opt (alloc_head s t) (\<lambda>b. b\<lparr>b_prev := Some a\<rparr>)
       ((mem s)(a := (mem s a)\<lparr>b_prev := None, b_next := alloc_head s t, b_tls := Some t\<rparr>)),
     alloc_head := (alloc_head s)(t := Some a),
     alloc_bytes := (alloc_bytes s)(t := alloc_bytes s t + of_nat (b_size (mem s a))),
     alloc_blocks := (alloc_blocks s)(t := alloc_blocks s t + 1)\<rparr>"

lemma lists_push:
  assumes "lists_ok own s" "a \<in> in_use s" "b_tls (mem s a) = None"
  shows "lists_ok (own(t := a # own t)) (push_block t a s)"
proof -
  let ?h = "alloc_head s t" and ?m = "(mem s)(a := (mem s a)\<lparr>b_prev := None, b_next := alloc_head s t, b_tls := Some t\<rparr>)"
  let ?s = "push_block t a s"
  have new: "a \<notin> set (own u)" for u using assms(1,3) by (auto simp: lists_ok_def)
  have h: "?h = first_of (own t) None" using assms(1) by (simp add: lists_ok_def)
  have st: "mem ?s = upd_opt ?h (\<lambda>b. b\<lparr>b_prev := Some a\<rparr>) ?m" by (simp add: push_block_def)
  have ha: "?h \<noteq> Some a" using first_of_in [of "own t" a] new h by auto
  have field: "b_tls (mem ?s x) = (if x = a then Some t else b_tls (mem s x))" "b_size (mem ?s x) = b_size (mem s x)" for x
    unfolding st by (subst upd_opt_field [where g = b_tls], simp, simp) (subst upd_opt_field [where g = b_size], simp, simp)
  have "linked ?m None (own t) None" using assms(1) new by (subst linked_cong [of _ _ "mem s"]) (auto simp: lists_ok_def)
  then have "linked (mem ?s) (Some a) (own t) None"
    unfolding st h using assms(1) by (intro linked_set_prev) (auto simp: lists_ok_def)
  moreover have "mem ?s a = ?m a" unfolding st using ha by (rule upd_opt_other)
  ultimately have mine: "linked (mem ?s) None (a # own t) None" using h by simp
  have other: "linked (mem ?s) None (own u) None" if "u \<noteq> t" for u
  proof -
    have "x \<noteq> a \<and> ?h \<noteq> Some x" if "x \<in> set (own u)" for x
      using that new h first_of_in [of "own t" x] own_disjoint [OF assms(1), of x t u] \<open>u \<noteq> t\<close> by auto
    then have "linked (mem ?s) None (own u) None = linked (mem s) None (own u) None"
      unfolding st by (intro linked_cong) (simp add: upd_opt_other)
    then show ?thesis using assms(1) by (simp add: lists_ok_def)
  qed
  have "bytes_of (mem ?s) xs = bytes_of (mem s) xs" for xs by (rule bytes_of_cong) (simp add: field)
  with mine other field new assms show ?thesis
    by (auto simp: lists_ok_def push_block_def)
qed

text \<open>The neighbours of a block are given new pointers, \<open>n\<close> forwards and \<open>p\<close> backwards.\<close>

definition relink :: "block \<Rightarrow> nat option \<Rightarrow> nat option \<Rightarrow> (nat \<Rightarrow> block) \<Rightarrow> nat \<Rightarrow> block" where
  "relink b n p m = upd_opt (b_prev b) (\<lambda>x. x\<lparr>b_next := n\<rparr>) (upd_opt (b_next b) (\<lambda>x. x\<lparr>b_prev := p\<rparr>) m)"

lemma relink_field:
  "(\<And>b q. g (b\<lparr>b_next := q\<rparr>) = g b) \<Longrightarrow> (\<And>b q. g (b\<lparr>b_prev := q\<rparr>) = g b) \<Longrightarrow> g (relink b n p m x) = g (m x)"
  unfolding relink_def by (subst upd_opt_field [where g = g], assumption, subst upd_opt_field [where g = g], assumption) simp

lemma relink_fields [simp]:
  "b_tls (relink b n p m x) = b_tls (m x)" "b_size (relink b n p m x) = b_size (m x)"
  "b_magic (relink b n p m x) = b_magic (m x)" "b_data (relink b n p m x) = b_data (m x)"
  "b_canary (relink b n p m x) = b_canary (m x)" "b_alloc (relink b n p m x) = b_alloc (m x)"
  by (rule relink_field; simp)+

lemma relink_other: "b_prev b \<noteq> Some x \<Longrightarrow> b_next b \<noteq> Some x \<Longrightarrow> relink b n p m x = m x"
  by (simp add: relink_def upd_opt_other)

lemma own_split:
  assumes "lists_ok own s" "a \<in> in_use s" "b_tls (mem s a) = Some t"
  obtains xs ys where "own t = xs @ a # ys" "b_prev (mem s a) = last_of None xs" "b_next (mem s a) = first_of ys None"
    "linked (mem s) None xs (Some a)" "linked (mem s) (Some a) ys None" "distinct (xs @ a # ys)"
proof -
  have "a \<in> set (own t)" using assms by (simp add: lists_ok_def)
  then obtain xs ys where own: "own t = xs @ a # ys" by (meson split_list)
  moreover have "linked (mem s) None (own t) None" "distinct (own t)" using assms(1) by (simp_all add: lists_ok_def)
  ultimately show thesis using that [of xs ys] by (simp add: linked_append)
qed

lemma linked_relink:
  assumes "own_t = xs @ a # ys" "b_prev b = last_of None xs" "b_next b = first_of ys None"
    and "linked m None xs (Some a)" "linked m (Some a) ys None" "distinct (xs @ a # ys)"
  shows "linked (relink b n p m) None xs n \<and> linked (relink b n p m) p ys None"
proof -
  let ?m1 = "upd_opt (b_next b) (\<lambda>x. x\<lparr>b_prev := p\<rparr>) m"
  have "x \<noteq> y" if "x \<in> set xs" "y \<in> set ys" for x y using assms(6) that by auto
  then have apart: "b_next b \<noteq> Some x" "b_prev b \<noteq> Some y" if "x \<in> set xs" "y \<in> set ys" for x y
    using that first_of_in [of ys x] last_of_in [of xs y] assms(2,3) by auto
  have "linked ?m1 p ys None" unfolding assms(3) using assms(5,6) by (intro linked_set_prev) auto
  then have "linked (relink b n p m) p ys None"
    by (subst linked_cong [of ys _ ?m1]) (use apart last_of_in [of xs] assms(2,6) in \<open>auto simp: relink_def upd_opt_def split: option.split\<close>)
  moreover have "linked ?m1 None xs (Some a)"
    by (subst linked_cong [of xs _ m]) (use first_of_in [of ys] assms(3,4,6) in \<open>auto simp: upd_opt_def split: option.split\<close>)
  then have "linked (relink b n p m) None xs n"
    unfolding relink_def assms(2) using assms(6) by (intro linked_set_next) auto
  ultimately show ?thesis by blast
qed

lemma neighbours:
  assumes "own_t = xs @ a # ys" "b_prev b = last_of None xs" "b_next b = first_of ys None" "b_prev b = Some x \<or> b_next b = Some x"
  shows "x \<in> set xs \<union> set ys"
  using assms last_of_in [of xs x] first_of_in [of ys x] by auto

definition pop_block :: "nat \<Rightarrow> nat \<Rightarrow> heap \<Rightarrow> heap" where
  "pop_block t a s = (let b = mem s a; m = relink b (b_next b) (b_prev b) (mem s) in s\<lparr>
     mem := m(a := (m a)\<lparr>b_next := None, b_prev := None, b_tls := None\<rparr>),
     alloc_head := (alloc_head s)(t := if alloc_head s t = Some a then b_next b else alloc_head s t),
     alloc_bytes := (alloc_bytes s)(t := alloc_bytes s t - of_nat (b_size b)),
     alloc_blocks := (alloc_blocks s)(t := alloc_blocks s t - 1)\<rparr>)"

lemma lists_pop:
  assumes "lists_ok own s" "a \<in> in_use s" "b_tls (mem s a) = Some t"
  shows "lists_ok (own(t := remove1 a (own t))) (pop_block t a s)"
proof -
  let ?b = "mem s a" and ?s = "pop_block t a s"
  obtain xs ys where own: "own t = xs @ a # ys" "b_prev ?b = last_of None xs" "b_next ?b = first_of ys None"
    "linked (mem s) None xs (Some a)" "linked (mem s) (Some a) ys None" "distinct (xs @ a # ys)"
    using own_split [OF assms] by metis
  let ?m = "relink ?b (b_next ?b) (b_prev ?b) (mem s)"
  have st: "mem ?s = ?m(a := (?m a)\<lparr>b_next := None, b_prev := None, b_tls := None\<rparr>)" by (simp add: pop_block_def Let_def)
  have rem: "remove1 a (own t) = xs @ ys" using own(1,6) by (simp add: remove1_append)
  have field: "b_tls (mem ?s x) = (if x = a then None else b_tls (mem s x))" "b_size (mem ?s x) = b_size (mem s x)" for x
    unfolding st by simp_all
  have "linked ?m None (xs @ ys) None" using linked_relink [OF own(1-6)] own(2,3) by (simp add: linked_append)
  then have mine: "linked (mem ?s) None (xs @ ys) None"
    unfolding st using own(6) by (subst linked_cong [of _ _ ?m]) auto
  have other: "linked (mem ?s) None (own u) None" if "u \<noteq> t" for u
  proof -
    have "b_prev ?b \<noteq> Some x \<and> b_next ?b \<noteq> Some x \<and> x \<noteq> a" if x: "x \<in> set (own u)" for x
    proof -
      have "x \<notin> set (own t)" using own_disjoint [OF assms(1) x, of t] \<open>u \<noteq> t\<close> by auto
      then show ?thesis using neighbours [OF own(1-3), of x] own(1) by auto
    qed
    then have "linked (mem ?s) None (own u) None = linked (mem s) None (own u) None"
      unfolding st by (intro linked_cong) (simp add: relink_other)
    then show ?thesis using assms(1) by (simp add: lists_ok_def)
  qed
  have head: "alloc_head s t = first_of xs (Some a)" "alloc_blocks s t = of_nat (length (own t))"
    "alloc_bytes s t = bytes_of (mem s) (own t)" using assms(1) own(1) by (simp_all add: lists_ok_def)
  have head': "(if alloc_head s t = Some a then b_next ?b else alloc_head s t) = first_of (xs @ ys) None"
    using head(1) own(3,6) by (cases xs) auto
  have bytes: "bytes_of (mem ?s) zs = bytes_of (mem s) zs" for zs by (rule bytes_of_cong) (simp add: field)
  have members: "x \<in> set (own u) \<longleftrightarrow> x \<in> in_use s \<and> b_tls (mem s x) = Some u" for x u using assms(1) by (simp add: lists_ok_def)
  have set: "set (xs @ ys) = set (own t) - {a}" using own(1,6) by auto
  show ?thesis
  proof (rule listsI)
    fix u
    show "alloc_head ?s u = first_of ((own(t := remove1 a (own t))) u) None"
      using head' assms(1) unfolding rem by (simp add: pop_block_def Let_def lists_ok_def)
    show "linked (mem ?s) None ((own(t := remove1 a (own t))) u) None" unfolding rem using mine other by simp
    show "distinct ((own(t := remove1 a (own t))) u)" unfolding rem using own(6) assms(1) by (simp add: lists_ok_def)
    show "x \<in> set ((own(t := remove1 a (own t))) u) \<longleftrightarrow> x \<in> in_use ?s \<and> b_tls (mem ?s x) = Some u" for x
    proof -
      have "in_use ?s = in_use s" by (simp add: pop_block_def Let_def)
      then show ?thesis unfolding rem field using members [of x u] set assms(3) by (cases "u = t"; cases "x = a") simp_all
    qed
    show "alloc_blocks ?s u = of_nat (length ((own(t := remove1 a (own t))) u))"
      using head(2) assms(1) own(1) unfolding rem by (simp add: pop_block_def Let_def lists_ok_def)
    show "alloc_bytes ?s u = bytes_of (mem ?s) ((own(t := remove1 a (own t))) u)"
      using head(3) assms(1) own(1) unfolding rem bytes by (simp add: pop_block_def Let_def lists_ok_def)
  qed
qed

lemma relink_update: "b_prev b \<noteq> Some x \<Longrightarrow> b_next b \<noteq> Some x \<Longrightarrow> relink b n p (m(x := y)) = (relink b n p m)(x := y)"
  by (cases "b_prev b"; cases "b_next b") (auto simp: relink_def fun_upd_twist)

text \<open>A block moves to another address, or stays where it is.\<close>

definition move_block :: "nat \<Rightarrow> nat \<Rightarrow> nat \<Rightarrow> block \<Rightarrow> heap \<Rightarrow> heap" where
  "move_block t a a' c s = (let b = mem s a in s\<lparr>
     in_use := insert a' (in_use s - {a}),
     mem := (relink b (Some a') (Some a') (mem s))(a' := c),
     alloc_head := (alloc_head s)(t := if alloc_head s t = Some a then Some a' else alloc_head s t),
     alloc_bytes := (alloc_bytes s)(t := alloc_bytes s t + (of_nat (b_size c) - of_nat (b_size b)))\<rparr>)"

lemma lists_move:
  assumes "lists_ok own s" "a \<in> in_use s" "b_tls (mem s a) = Some t" "a' \<notin> in_use s - {a}"
    and "b_tls c = Some t" "b_prev c = b_prev (mem s a)" "b_next c = b_next (mem s a)"
  shows "\<exists>xs ys. own t = xs @ a # ys \<and> lists_ok (own(t := xs @ a' # ys)) (move_block t a a' c s)"
proof -
  let ?b = "mem s a" and ?s = "move_block t a a' c s"
  obtain xs ys where own: "own t = xs @ a # ys" "b_prev ?b = last_of None xs" "b_next ?b = first_of ys None"
    "linked (mem s) None xs (Some a)" "linked (mem s) (Some a) ys None" "distinct (xs @ a # ys)"
    using own_split [OF assms(1-3)] by metis
  let ?m = "relink ?b (Some a') (Some a') (mem s)"
  have st: "mem ?s = ?m(a' := c)" "in_use ?s = insert a' (in_use s - {a})" by (simp_all add: move_block_def Let_def)
  have members: "x \<in> set (own u) \<longleftrightarrow> x \<in> in_use s \<and> b_tls (mem s x) = Some u" for x u using assms(1) by (simp add: lists_ok_def)
  have new: "a' \<notin> set xs \<union> set ys"
  proof
    assume "a' \<in> set xs \<union> set ys"
    then have "a' \<in> in_use s" "a' \<noteq> a" using members [of a' t] own(1,6) by auto
    with assms(4) show False by simp
  qed
  have "linked ?m None xs (Some a') \<and> linked ?m (Some a') ys None" by (rule linked_relink [OF own(1-6)])
  then have "linked (mem ?s) None xs (Some a')" "linked (mem ?s) (Some a') ys None"
    unfolding st using new by (simp_all add: linked_upd)
  then have mine: "linked (mem ?s) None (xs @ a' # ys) None"
    using assms(6,7) own(2,3) by (simp add: linked_append st)
  have other: "linked (mem ?s) None (own u) None" if "u \<noteq> t" for u
  proof -
    have "b_prev ?b \<noteq> Some x \<and> b_next ?b \<noteq> Some x \<and> x \<noteq> a'" if x: "x \<in> set (own u)" for x
    proof -
      have t: "x \<notin> set (own t)" using own_disjoint [OF assms(1) x, of t] \<open>u \<noteq> t\<close> by auto
      moreover have "x \<noteq> a" using t own(1) by auto
      ultimately show ?thesis using neighbours [OF own(1-3), of x] own(1) assms(4) own_in_use [OF assms(1) x] by auto
    qed
    then have "linked (mem ?s) None (own u) None = linked (mem s) None (own u) None"
      unfolding st by (intro linked_cong) (simp add: relink_other)
    then show ?thesis using assms(1) by (simp add: lists_ok_def)
  qed
  have not_mine: "a' \<notin> set (own u)" if "u \<noteq> t" for u
    using members [of a' u] assms(3,4) that by auto
  have head: "alloc_head s t = first_of xs (Some a)" "alloc_blocks s t = of_nat (length (own t))"
    "alloc_bytes s t = bytes_of (mem s) (own t)" using assms(1) own(1) by (simp_all add: lists_ok_def)
  have head': "(if alloc_head s t = Some a then Some a' else alloc_head s t) = first_of (xs @ a' # ys) None"
    using head(1) own(6) by (cases xs) auto
  have size: "b_size (mem ?s x) = (if x = a' then b_size c else b_size (mem s x))" for x by (simp add: st)
  have bytes: "bytes_of (mem ?s) zs = bytes_of (mem s) zs" if "a' \<notin> set zs" for zs
    using that by (intro bytes_of_cong) (auto simp: size)
  have "lists_ok (own(t := xs @ a' # ys)) ?s"
  proof (rule listsI)
    fix u
    show "alloc_head ?s u = first_of ((own(t := xs @ a' # ys)) u) None"
      using head' assms(1) by (simp add: move_block_def Let_def lists_ok_def)
    show "linked (mem ?s) None ((own(t := xs @ a' # ys)) u) None" using mine other by simp
    show "distinct ((own(t := xs @ a' # ys)) u)" using own(6) new assms(1) by (simp add: lists_ok_def)
    show "x \<in> set ((own(t := xs @ a' # ys)) u) \<longleftrightarrow> x \<in> in_use ?s \<and> b_tls (mem ?s x) = Some u" for x
    proof (cases "x = a'")
      case True
      then show ?thesis using not_mine [of u] assms(5) by (cases "u = t") (simp_all add: st)
    next
      case False
      then have "x \<in> in_use ?s \<and> b_tls (mem ?s x) = Some u \<longleftrightarrow> x \<noteq> a \<and> x \<in> set (own u)"
        unfolding st members by auto
      then show ?thesis using False own(1,6) members [of a u] assms(3) by (cases "u = t") auto
    qed
    show "alloc_blocks ?s u = of_nat (length ((own(t := xs @ a' # ys)) u))"
      using head(2) assms(1) own(1) by (simp add: move_block_def Let_def lists_ok_def)
    show "alloc_bytes ?s u = bytes_of (mem ?s) ((own(t := xs @ a' # ys)) u)"
    proof (cases "u = t")
      case True
      have "bytes_of (mem ?s) (xs @ a' # ys) = bytes_of (mem s) xs + of_nat (b_size c) + bytes_of (mem s) ys"
        using bytes [of xs] bytes [of ys] new by (simp add: size)
      then show ?thesis using True head(3) own(1) by (simp add: move_block_def Let_def)
    next
      case False
      then show ?thesis using assms(1) bytes [OF not_mine [OF False]] by (simp add: move_block_def Let_def lists_ok_def)
    qed
  qed
  with own(1) show ?thesis by blast
qed

text \<open>Blocks that belong to no thread come and go.\<close>

lemma lists_loose:
  assumes "lists_ok own s" "alloc_head s' = alloc_head s" "alloc_blocks s' = alloc_blocks s" "alloc_bytes s' = alloc_bytes s"
    and "\<And>x u. x \<in> in_use s' \<and> b_tls (mem s' x) = Some u \<longleftrightarrow> x \<in> in_use s \<and> b_tls (mem s x) = Some u"
    and "\<And>x. x \<in> in_use s \<Longrightarrow> b_tls (mem s x) \<noteq> None \<Longrightarrow> b_prev (mem s' x) = b_prev (mem s x) \<and>
      b_next (mem s' x) = b_next (mem s x) \<and> b_size (mem s' x) = b_size (mem s x)"
  shows "lists_ok own s'"
proof -
  have mine: "x \<in> in_use s \<and> b_tls (mem s x) \<noteq> None" if "x \<in> set (own u)" for x u
    using assms(1) that by (auto simp: lists_ok_def)
  have "linked (mem s') None (own u) None = linked (mem s) None (own u) None" for u
    using mine assms(6) by (intro linked_cong) blast
  moreover have "bytes_of (mem s') (own u) = bytes_of (mem s) (own u)" for u
    using mine assms(6) by (intro bytes_of_cong) blast
  moreover have "x \<in> set (own u) \<longleftrightarrow> x \<in> in_use s' \<and> b_tls (mem s' x) = Some u" for x u
    using assms(1) unfolding assms(5) by (simp add: lists_ok_def)
  ultimately show ?thesis using assms(1-4) by (intro listsI) (simp_all add: lists_ok_def)
qed

section \<open>The contract\<close>

text \<open>What a caller sees: the data of the blocks in use, and the threads that own them.\<close>

record view =
  contents :: "nat \<Rightarrow> byte list option"
  owned_by :: "nat \<Rightarrow> nat option"

definition view_of :: "heap \<Rightarrow> view" where
  "view_of s = \<lparr>contents = (\<lambda>a. if a \<in> in_use s then Some (take (b_size (mem s a)) (b_data (mem s a))) else None),
     owned_by = (\<lambda>a. if a \<in> in_use s then b_tls (mem s a) else None)\<rparr>"

lemma view_eqI: "contents v = contents w \<Longrightarrow> owned_by v = owned_by w \<Longrightarrow> v = (w :: view)"
  by (cases v; cases w) simp

lemma view_fields [simp]:
  "view_of (s\<lparr>leaks_of := l\<rparr>) = view_of s" "view_of (s\<lparr>alloc_calls := n\<rparr>) = view_of s"
  by (simp_all add: view_of_def cong: if_cong)

lemma heap_inv_calls [simp]: "heap_inv own (s\<lparr>alloc_calls := n\<rparr>) = heap_inv own s"
  by (simp add: heap_inv_def lists_ok_def block_sound_def malloc_ok_def)

definition fresh_block :: "nat \<Rightarrow> place \<Rightarrow> heap \<Rightarrow> block" where
  "fresh_block n p s = \<lparr>b_prev = None, b_next = None, b_tls = None, b_size = n, b_alloc = p, b_free = (''none'', 0),
     b_canary = canary_initialized s, b_magic = MAGIC_ALLOCATED, b_data = replicate n 0 @ canary s\<rparr>"

lemma heap_inv_new:
  assumes "heap_inv own s" "a \<notin> in_use s" "a \<noteq> 0" "0 < snd p"
  shows "heap_inv own (s\<lparr>in_use := insert a (in_use s), mem := (mem s)(a := fresh_block n p s)\<rparr>)"
proof -
  let ?s = "s\<lparr>in_use := insert a (in_use s), mem := (mem s)(a := fresh_block n p s)\<rparr>"
  have "lists_ok own ?s"
    by (rule lists_loose [of own s]) (use assms(1,2) in \<open>auto simp: heap_inv_def fresh_block_def\<close>)
  moreover have "block_sound ?s (fresh_block n p s)"
    using assms(1,4) by (simp add: block_sound_def fresh_block_def heap_inv_def)
  moreover have "block_sound ?s b = block_sound s b" for b by (simp add: block_sound_def)
  ultimately show ?thesis using assms by (auto simp: heap_inv_def malloc_ok_def)
qed

lemma str_alloc_detached_wp:
  assumes "heap_inv own s" "0 < snd p"
    and "\<And>a l. a \<notin> in_use s \<Longrightarrow> a \<noteq> 0 \<Longrightarrow> leak_inv l \<Longrightarrow>
      Q a (s\<lparr>alloc_calls := alloc_calls s + 1, in_use := insert a (in_use s), mem := (mem s)(a := fresh_block n p s), leaks_of := l\<rparr>)"
    and "malloc s (alloc_calls s) (in_use s) = 0 \<Longrightarrow> E Fatal (s\<lparr>alloc_calls := alloc_calls s + 1\<rparr>)"
  shows "wp (str_alloc_detached n p) Q E s"
proof -
  let ?a = "malloc s (alloc_calls s) (in_use s)"
  have a: "?a \<notin> in_use s" using assms(1) by (simp add: heap_inv_def malloc_ok_def)
  have "leak_inv (leaks_of s)" using assms(1) by (simp add: heap_inv_def)
  then show ?thesis
    using assms(2-4) a
    by (auto simp: str_alloc_detached_def wp_bindM wp_getM wp_seqM wp_modM wp_stopM wp_retM fresh_block_def intro!: note_leak_wp)
qed

lemma wp_block_ops:
  "wp (block_at a) R E s = R (mem s a) s"
  "wp (set_block a f) Q E s = Q () (s\<lparr>mem := (mem s)(a := f (mem s a))\<rparr>)"
  "wp (set_opt p f) Q E s = Q () (s\<lparr>mem := upd_opt p f (mem s)\<rparr>)"
  "wp (set_head t h) Q E s = Q () (s\<lparr>alloc_head := (alloc_head s)(t := h)\<rparr>)"
  "wp (add_stats t n k) Q E s = Q () (s\<lparr>alloc_bytes := (alloc_bytes s)(t := alloc_bytes s t + n),
     alloc_blocks := (alloc_blocks s)(t := alloc_blocks s t + k)\<rparr>)"
  by (simp_all add: block_at_def set_block_def set_opt_def set_head_def add_stats_def wp_getM wp_modM wp_retM split: option.split)

lemmas wp_heap = wp_block_ops wp_bindM wp_seqM wp_getM wp_modM wp_retM wp_stopM

text \<open>Blocks whose data and header, links apart, are the same.\<close>

definition alike :: "block \<Rightarrow> block \<Rightarrow> bool" where
  "alike b c \<longleftrightarrow> b_magic c = b_magic b \<and> b_size c = b_size b \<and> b_alloc c = b_alloc b \<and> b_canary c = b_canary b \<and> b_data c = b_data b"

lemma heap_inv_relinked:
  assumes "heap_inv own s" "lists_ok own' s'" "in_use s' = in_use s" "\<And>x. x \<in> in_use s \<Longrightarrow> alike (mem s x) (mem s' x)"
    and "canary s' = canary s" "canary_initialized s' = canary_initialized s" "leaks_of s' = leaks_of s"
    and "malloc s' = malloc s" "realloc s' = realloc s"
  shows "heap_inv own' s'"
  using assms by (auto simp: heap_inv_def block_sound_def alike_def malloc_ok_def)

lemma alike_refl [simp]: "alike b b"
  by (simp add: alike_def)

lemma push_block_alike: "alike (mem s x) (mem (push_block t a s) x)"
  by (cases "alloc_head s t") (auto simp: push_block_def alike_def)

lemma heap_inv_push:
  "heap_inv own s \<Longrightarrow> a \<in> in_use s \<Longrightarrow> b_tls (mem s a) = None \<Longrightarrow> heap_inv (own(t := a # own t)) (push_block t a s)"
  by (rule heap_inv_relinked [of own s])
    (auto simp: push_block_alike heap_inv_def intro: lists_push, simp_all add: push_block_def)

lemma view_push:
  assumes "heap_inv own s" "a \<in> in_use s" "b_tls (mem s a) = None"
  shows "view_of (push_block t a s) = (view_of s)\<lparr>owned_by := (owned_by (view_of s))(a := Some t)\<rparr>"
proof (rule view_eqI)
  have "b_tls (mem (push_block t a s) x) = (if x = a then Some t else b_tls (mem s x))" for x
    by (cases "alloc_head s t") (auto simp: push_block_def)
  moreover have "in_use (push_block t a s) = in_use s" by (simp add: push_block_def)
  ultimately show "owned_by (view_of (push_block t a s)) = owned_by ((view_of s)\<lparr>owned_by := (owned_by (view_of s))(a := Some t)\<rparr>)"
    using assms(2) by (auto simp: view_of_def fun_eq_iff)
  show "contents (view_of (push_block t a s)) = contents ((view_of s)\<lparr>owned_by := (owned_by (view_of s))(a := Some t)\<rparr>)"
    using push_block_alike [of s _ t a] \<open>in_use (push_block t a s) = in_use s\<close> by (auto simp: view_of_def fun_eq_iff alike_def)
qed

lemma str_alloc_wp:
  assumes "heap_inv own s" "0 < snd p"
  shows "wp (str_alloc t n p) (\<lambda>a s'. a \<notin> in_use s \<and> a \<noteq> 0 \<and> heap_inv (own(t := a # own t)) s' \<and>
      view_of s' = (view_of s)\<lparr>contents := (contents (view_of s))(a \<mapsto> replicate n 0), owned_by := (owned_by (view_of s))(a := Some t)\<rparr>)
    (\<lambda>k s'. k = Fatal \<and> malloc s (alloc_calls s) (in_use s) = 0) s"
  unfolding str_alloc_def wp_bindM [of "str_alloc_detached n p"]
proof (rule str_alloc_detached_wp [OF assms])
  fix a l
  assume a: "a \<notin> in_use s" "a \<noteq> 0" "leak_inv l"
  let ?s1 = "s\<lparr>alloc_calls := alloc_calls s + 1, in_use := insert a (in_use s), mem := (mem s)(a := fresh_block n p s), leaks_of := l\<rparr>"
  have "heap_inv own (s\<lparr>alloc_calls := alloc_calls s + 1\<rparr>)" using assms(1) by simp
  from heap_inv_new [OF this, of a p n] have inv: "heap_inv own ?s1"
    using a assms(2) by (intro heap_inv_leaks) (simp_all add: fresh_block_def)
  have v: "view_of ?s1 = (view_of s)\<lparr>contents := (contents (view_of s))(a \<mapsto> replicate n 0), owned_by := (owned_by (view_of s))(a := None)\<rparr>"
    using a(1) by (intro view_eqI) (auto simp: view_of_def fresh_block_def fun_eq_iff)
  have tls: "a \<in> in_use ?s1" "b_tls (mem ?s1 a) = None" "b_size (mem ?s1 a) = n" by (simp_all add: fresh_block_def)
  have "view_of (push_block t a ?s1) = (view_of s)\<lparr>contents := (contents (view_of s))(a \<mapsto> replicate n 0), owned_by := (owned_by (view_of s))(a := Some t)\<rparr>"
    unfolding view_push [OF inv tls(1,2)] v by simp
  moreover have "heap_inv (own(t := a # own t)) (push_block t a ?s1)" by (rule heap_inv_push [OF inv tls(1,2)])
  moreover have "wp (bindM (getM (\<lambda>s. alloc_head s t)) (\<lambda>h. seqM (set_block a (\<lambda>b. b\<lparr>b_prev := None, b_next := h, b_tls := Some t\<rparr>))
      (seqM (set_opt h (\<lambda>b. b\<lparr>b_prev := Some a\<rparr>)) (seqM (set_head t (Some a)) (seqM (add_stats t (of_nat n) 1) (retM a))))))
      Q E ?s1 = Q a (push_block t a ?s1)" for Q E
    by (simp add: wp_heap push_block_def fresh_block_def)
  ultimately show "wp (bindM (getM (\<lambda>s. alloc_head s t)) (\<lambda>h. seqM (set_block a (\<lambda>b. b\<lparr>b_prev := None, b_next := h, b_tls := Some t\<rparr>))
      (seqM (set_opt h (\<lambda>b. b\<lparr>b_prev := Some a\<rparr>)) (seqM (set_head t (Some a)) (seqM (add_stats t (of_nat n) 1) (retM a))))))
      (\<lambda>a s'. a \<notin> in_use s \<and> a \<noteq> 0 \<and> heap_inv (own(t := a # own t)) s' \<and>
        view_of s' = (view_of s)\<lparr>contents := (contents (view_of s))(a \<mapsto> replicate n 0), owned_by := (owned_by (view_of s))(a := Some t)\<rparr>)
      (\<lambda>k s'. k = Fatal \<and> malloc s (alloc_calls s) (in_use s) = 0)
      (s\<lparr>alloc_calls := alloc_calls s + 1, in_use := insert a (in_use s), mem := (mem s)(a := fresh_block n p s), leaks_of := l\<rparr>)"
    using a by simp
qed (simp add: assms(1))

text \<open>A block in use passes the checks of its thread, and of any thread when it is detached.\<close>

definition mine :: "nat \<Rightarrow> nat \<Rightarrow> heap \<Rightarrow> bool" where
  "mine t a s \<longleftrightarrow> a \<in> in_use s \<and> (b_tls (mem s a) = None \<or> b_tls (mem s a) = Some t)"

lemma get_alloc_list_ptr_ok:
  assumes "heap_inv own s" "mine t a s"
  shows "get_alloc_list_ptr t a s = Ok () s"
proof -
  have b: "block_sound s (mem s a)" "length (canary s) = 10" using assms by (simp_all add: heap_inv_def mine_def)
  have "\<not> safe_memcmp (drop (b_size (mem s a)) (b_data (mem s a))) (canary s) 10"
    if "b_canary (mem s a) \<noteq> CANARY_UNINITIALIZED"
    using b that safe_memcmp_equal [of 10 "canary s" "canary s"] by (simp add: block_sound_def)
  then show ?thesis using assms(2) b(1) by (auto simp: get_alloc_list_ptr_def block_at_def mdefs block_sound_def mine_def)
qed

lemma pop_block_alike: "alike (mem s x) (mem (pop_block t a s) x)"
  by (auto simp: pop_block_def alike_def Let_def)

lemma heap_inv_pop:
  "heap_inv own s \<Longrightarrow> a \<in> in_use s \<Longrightarrow> b_tls (mem s a) = Some t \<Longrightarrow>
    heap_inv (own(t := remove1 a (own t))) (pop_block t a s)"
  by (rule heap_inv_relinked [of own s])
    (auto simp: pop_block_alike heap_inv_def intro: lists_pop, simp_all add: pop_block_def Let_def)

lemma view_pop:
  assumes "a \<in> in_use s"
  shows "view_of (pop_block t a s) = (view_of s)\<lparr>owned_by := (owned_by (view_of s))(a := None)\<rparr>"
proof (rule view_eqI)
  have "in_use (pop_block t a s) = in_use s" by (simp add: pop_block_def Let_def)
  moreover have "b_tls (mem (pop_block t a s) x) = (if x = a then None else b_tls (mem s x))" for x
    by (simp add: pop_block_def Let_def)
  ultimately show "owned_by (view_of (pop_block t a s)) = owned_by ((view_of s)\<lparr>owned_by := (owned_by (view_of s))(a := None)\<rparr>)"
    using assms by (auto simp: view_of_def fun_eq_iff)
  show "contents (view_of (pop_block t a s)) = contents ((view_of s)\<lparr>owned_by := (owned_by (view_of s))(a := None)\<rparr>)"
    using pop_block_alike [of s _ t a] \<open>in_use (pop_block t a s) = in_use s\<close> by (auto simp: view_of_def fun_eq_iff alike_def)
qed

lemma detached_same: "b_tls (mem s a) = None \<Longrightarrow> (view_of s)\<lparr>owned_by := (owned_by (view_of s))(a := None)\<rparr> = view_of s"
  by (intro view_eqI) (auto simp: view_of_def fun_eq_iff)

definition disown :: "heap \<Rightarrow> nat \<Rightarrow> owners \<Rightarrow> owners" where
  "disown s a own = (case b_tls (mem s a) of None \<Rightarrow> own | Some t \<Rightarrow> own(t := remove1 a (own t)))"

lemma neighbours_not_self:
  assumes "lists_ok own s" "a \<in> in_use s" "b_tls (mem s a) = Some t"
  shows "b_prev (mem s a) \<noteq> Some a" "b_next (mem s a) \<noteq> Some a"
proof -
  obtain xs ys where "b_prev (mem s a) = last_of None xs" "b_next (mem s a) = first_of ys None" "distinct (xs @ a # ys)"
    using own_split [OF assms] by metis
  then show "b_prev (mem s a) \<noteq> Some a" "b_next (mem s a) \<noteq> Some a"
    using first_of_in [of ys a] last_of_in [of xs a] by auto
qed

lemma str_detach_wp:
  assumes "heap_inv own s" "mine t a s"
  shows "\<exists>s'. str_detach t (Some a) s = Ok () s' \<and> heap_inv (disown s a own) s' \<and> in_use s' = in_use s \<and>
    b_tls (mem s' a) = None \<and> b_alloc (mem s' a) = b_alloc (mem s a) \<and> b_size (mem s' a) = b_size (mem s a) \<and>
    view_of s' = (view_of s)\<lparr>owned_by := (owned_by (view_of s))(a := None)\<rparr>"
proof (cases "b_tls (mem s a)")
  case None
  then show ?thesis
    using assms detached_same [OF None]
    by (simp add: str_detach_def get_alloc_list_ptr_ok [OF assms] mdefs block_at_def disown_def)
next
  case (Some u)
  then have a: "a \<in> in_use s" "b_tls (mem s a) = Some t" using assms(2) by (auto simp: mine_def)
  have no: "b_prev (mem s a) \<noteq> Some a" "b_next (mem s a) \<noteq> Some a"
    using neighbours_not_self [of own s a t] assms(1) a by (simp_all add: heap_inv_def)
  have "wp (str_detach t (Some a)) (\<lambda>_ s'. s' = pop_block t a s) (\<lambda>_ _. False) s"
    using a get_alloc_list_ptr_ok [OF assms] no
    by (simp add: str_detach_def wp_heap wp_def [of "get_alloc_list_ptr t a"] pop_block_def Let_def relink_def fun_upd_twist)
  then have run: "str_detach t (Some a) s = Ok () (pop_block t a s)" by (auto simp: wp_def split: res.splits)
  have "relink (mem s a) n p (mem s) a = mem s a" for n p using no by (simp add: relink_other)
  then show ?thesis
    using run heap_inv_pop [OF assms(1) a] view_pop [OF a(1), of t] a
    by (simp add: disown_def) (simp add: pop_block_def Let_def)
qed

lemma str_free_ok:
  assumes "heap_inv own s" "mine t a s"
  shows "\<exists>s'. str_free t (Some a) p s = Ok () s' \<and> heap_inv (disown s a own) s' \<and> in_use s' = in_use s - {a} \<and>
    b_magic (mem s' a) = MAGIC_DEALLOCATED \<and>
    view_of s' = (view_of s)\<lparr>contents := (contents (view_of s))(a := None), owned_by := (owned_by (view_of s))(a := None)\<rparr>"
proof -
  let ?own = "disown s a own"
  obtain s1 where s1: "str_detach t (Some a) s = Ok () s1" "heap_inv ?own s1" "in_use s1 = in_use s"
    "b_tls (mem s1 a) = None" "b_alloc (mem s1 a) = b_alloc (mem s a)"
    "view_of s1 = (view_of s)\<lparr>owned_by := (owned_by (view_of s))(a := None)\<rparr>"
    using str_detach_wp [OF assms] by blast
  have a: "a \<in> in_use s1" using assms(2) s1(3) by (simp add: mine_def)
  have snd: "block_sound s (mem s a)" using assms by (simp add: heap_inv_def mine_def)
  then obtain l where l: "str_leak_debug (b_alloc (mem s a)) (-1) (leaks_of s1) = Some l" "leak_inv l"
    using str_leak_debug_step [of "leaks_of s1" "b_alloc (mem s a)" "-1"] s1(2) by (auto simp: heap_inv_def block_sound_def)
  let ?s = "s1\<lparr>leaks_of := l, mem := (mem s1)(a := (mem s1 a)\<lparr>b_free := p, b_magic := MAGIC_DEALLOCATED,
      b_data := replicate (b_size (mem s1 a) + 10) 0\<rparr>), in_use := in_use s1 - {a}\<rparr>"
  have "b_magic (mem s a) \<noteq> MAGIC_DEALLOCATED"
    using snd by (simp add: block_sound_def MAGIC_ALLOCATED_def MAGIC_DEALLOCATED_def)
  then have run: "str_free t (Some a) p s = Ok () ?s"
    by (simp add: str_free_def block_at_def mdefs s1(1) note_leak_def l(1) set_block_def)
  have inv1: "heap_inv ?own (s1\<lparr>leaks_of := l\<rparr>)" using s1(2) l(2) by (rule heap_inv_leaks)
  have "lists_ok ?own ?s"
    by (rule lists_loose [of _ "s1\<lparr>leaks_of := l\<rparr>"]) (use inv1 s1(4) in \<open>auto simp: heap_inv_def\<close>)
  then have "heap_inv ?own ?s" using inv1 by (auto simp: heap_inv_def block_sound_def malloc_ok_def)
  moreover have "view_of ?s = (view_of s1)\<lparr>contents := (contents (view_of s1))(a := None), owned_by := (owned_by (view_of s1))(a := None)\<rparr>"
    by (intro view_eqI) (auto simp: view_of_def fun_eq_iff)
  ultimately show ?thesis using run s1(3,6) by simp
qed

text \<open>A block that was freed and not given out again is not freed twice.\<close>

lemma str_free_again: "b_magic (mem s a) = MAGIC_DEALLOCATED \<Longrightarrow> str_free t (Some a) p s = Ok () s"
  by (simp add: str_free_def block_at_def mdefs)

section \<open>Cleaning up\<close>

lemma disown_own: "heap_inv own s \<Longrightarrow> own t = a # as \<Longrightarrow> disown s a own = own(t := as) \<and> mine t a s"
proof -
  assume a: "heap_inv own s" "own t = a # as"
  then have "lists_ok own s" by (simp add: heap_inv_def)
  from lists_member [OF this, of a t] a(2) have "a \<in> in_use s \<and> b_tls (mem s a) = Some t" by simp
  with a show ?thesis by (simp add: disown_def mine_def)
qed

lemma iterM_step: "iterM (Suc n) body a s = (case body a s of
    Ok r s' \<Rightarrow> (case r of Inl b \<Rightarrow> Ok b s' | Inr a' \<Rightarrow> iterM n body a' s') | Stop k s' \<Rightarrow> Stop k s')"
  by (simp add: bindM_def retM_def split: res.split sum.split)

lemma cleanup_loop:
  assumes "heap_inv own s" "length (own t) < n"
  shows "\<exists>s'. iterM n (\<lambda>_. cleanup_round t at) () s = Ok () s' \<and> heap_inv (own(t := [])) s' \<and>
    view_of s' = \<lparr>contents = (\<lambda>a. if a \<in> set (own t) then None else contents (view_of s) a),
      owned_by = (\<lambda>a. if a \<in> set (own t) then None else owned_by (view_of s) a)\<rparr>"
  using assms
proof (induction n arbitrary: own s)
  case (Suc n)
  have h: "alloc_head s t = first_of (own t) None" using Suc.prems(1) by (simp add: heap_inv_def lists_ok_def)
  show ?case
  proof (cases "own t")
    case Nil
    then have "own(t := []) = own" by (simp add: fun_upd_idem)
    moreover have "cleanup_round t at s = Ok (Inl ()) s" using Nil h by (simp add: cleanup_round_def mdefs)
    ultimately show ?thesis using Nil Suc.prems(1) by (simp add: iterM_step del: iterM.simps)
  next
    case (Cons a as)
    have d: "disown s a own = own(t := as)" "mine t a s" using disown_own [OF Suc.prems(1) Cons] by simp_all
    obtain s1 where s1: "str_free t (Some a) at s = Ok () s1" "heap_inv (own(t := as)) s1"
      "view_of s1 = (view_of s)\<lparr>contents := (contents (view_of s))(a := None), owned_by := (owned_by (view_of s))(a := None)\<rparr>"
      using str_free_ok [OF Suc.prems(1) d(2), of at] d(1) by auto
    have "length ((own(t := as)) t) < n" using Suc.prems(2) Cons by simp
    from Suc.IH [OF s1(2) this, unfolded fun_upd_upd fun_upd_same] obtain s' where
      s': "iterM n (\<lambda>_. cleanup_round t at) () s1 = Ok () s'" "heap_inv (own(t := [])) s'"
      "view_of s' = \<lparr>contents = (\<lambda>x. if x \<in> set as then None else contents (view_of s1) x),
        owned_by = (\<lambda>x. if x \<in> set as then None else owned_by (view_of s1) x)\<rparr>" by blast
    have "cleanup_round t at s = Ok (Inr ()) s1" using Cons h s1(1) by (simp add: cleanup_round_def mdefs)
    then have "iterM (Suc n) (\<lambda>_. cleanup_round t at) () s = Ok () s'"
      using s'(1) by (simp add: iterM_step del: iterM.simps)
    moreover have "view_of s' = \<lparr>contents = (\<lambda>x. if x \<in> set (own t) then None else contents (view_of s) x),
        owned_by = (\<lambda>x. if x \<in> set (own t) then None else owned_by (view_of s) x)\<rparr>"
      using s'(3) s1(3) Cons by (intro view_eqI) (auto simp: fun_eq_iff)
    ultimately show ?thesis using s'(2) by blast
  qed
qed simp

lemma str_cleanup_ok:
  assumes "heap_inv own s"
  shows "\<exists>s'. str_cleanup t at s = Ok () s' \<and> heap_inv (own(t := [])) s' \<and>
    view_of s' = \<lparr>contents = (\<lambda>a. if owned_by (view_of s) a = Some t then None else contents (view_of s) a),
      owned_by = (\<lambda>a. if owned_by (view_of s) a = Some t then None else owned_by (view_of s) a)\<rparr>"
proof -
  have l: "lists_ok own s" "finite (in_use s)" using assms by (simp_all add: heap_inv_def)
  have "length (own t) = card (set (own t))" using l(1) by (simp add: lists_ok_def distinct_card)
  also have "\<dots> \<le> card (in_use s)" using l own_in_use by (intro card_mono) auto
  finally have "length (own t) < Suc (card (in_use s))" by simp
  moreover have "str_cleanup t at s = iterM (Suc (card (in_use s))) (\<lambda>_. cleanup_round t at) () s"
    by (simp add: str_cleanup_def bindM_def [of "getM (\<lambda>s. card (in_use s))"] getM_def [of "\<lambda>s. card (in_use s)"] del: iterM.simps)
  ultimately obtain s' where
    "str_cleanup t at s = Ok () s'" "heap_inv (own(t := [])) s'"
    "view_of s' = \<lparr>contents = (\<lambda>a. if a \<in> set (own t) then None else contents (view_of s) a),
      owned_by = (\<lambda>a. if a \<in> set (own t) then None else owned_by (view_of s) a)\<rparr>"
    using cleanup_loop [OF assms, of t "Suc (card (in_use s))" at] by metis
  moreover have "owned_by (view_of s) a = Some t \<longleftrightarrow> a \<in> set (own t)" for a
    using l(1) by (auto simp: view_of_def lists_ok_def)
  ultimately show ?thesis by simp
qed

end
