(* ===== verification/Resize.thy ===== *)
theory Resize
  imports Alloc
begin

text \<open>
  Resizing a block keeps the invariant of the allocator: the block keeps its place in the list of its thread, at the old
  address or at a new one, and the common part of its data.
\<close>

section \<open>What a resized block holds\<close>

definition trimmed :: "nat \<Rightarrow> block \<Rightarrow> block" where
  "trimmed n b = (if b_size b > n then b\<lparr>b_data := memset (b_data b) n 0 (b_size b - n)\<rparr> else b)"

definition new_data :: "nat \<Rightarrow> byte list \<Rightarrow> byte list" where
  "new_data n d = take n d @ replicate (n - length d) 0"

definition resized_block :: "nat \<Rightarrow> place \<Rightarrow> heap \<Rightarrow> block \<Rightarrow> block" where
  "resized_block n p s b = (resized n (canary s) (trimmed n b))
     \<lparr>b_size := n, b_alloc := p, b_free := (''none'', 0), b_canary := canary_initialized s\<rparr>"

lemma trimmed_fields [simp]:
  "b_prev (trimmed n b) = b_prev b" "b_next (trimmed n b) = b_next b" "b_tls (trimmed n b) = b_tls b"
  "b_size (trimmed n b) = b_size b" "b_alloc (trimmed n b) = b_alloc b" "b_magic (trimmed n b) = b_magic b"
  "b_canary (trimmed n b) = b_canary b"
  by (simp_all add: trimmed_def)

lemma resized_fields [simp]:
  "b_prev (resized n c b) = b_prev b" "b_next (resized n c b) = b_next b" "b_tls (resized n c b) = b_tls b"
  "b_size (resized n c b) = b_size b" "b_alloc (resized n c b) = b_alloc b" "b_magic (resized n c b) = b_magic b"
  by (simp_all add: resized_def)

lemma resized_block_fields [simp]:
  "b_prev (resized_block n p s b) = b_prev b" "b_next (resized_block n p s b) = b_next b"
  "b_tls (resized_block n p s b) = b_tls b" "b_size (resized_block n p s b) = n" "b_alloc (resized_block n p s b) = p"
  "b_magic (resized_block n p s b) = b_magic b" "b_canary (resized_block n p s b) = canary_initialized s"
  by (simp_all add: resized_block_def)

lemma length_new_data [simp]: "length (new_data n d) = n"
  by (simp add: new_data_def)

lemma resized_block_data:
  assumes "length (b_data b) = b_size b + 10"
  shows "b_data (resized_block n p s b) = new_data n (take (b_size b) (b_data b)) @ canary s"
proof (cases "b_size b > n")
  case True
  then have "take n (memset (b_data b) n 0 (b_size b - n)) = take n (b_data b)" using assms by simp
  with True assms show ?thesis by (simp add: resized_block_def resized_def trimmed_def new_data_def min_def)
next
  case False
  with assms show ?thesis by (simp add: resized_block_def resized_def trimmed_def new_data_def min_def)
qed

lemma sound_resized:
  assumes "block_sound s b" "length (canary s) = 10" "0 < snd p"
  shows "block_sound s (resized_block n p s b)"
  using assms resized_block_data [of b n p s] by (simp add: block_sound_def)

section \<open>The state afterwards\<close>

definition keep_block :: "nat \<Rightarrow> nat \<Rightarrow> block \<Rightarrow> heap \<Rightarrow> heap" where
  "keep_block a a' c s = s\<lparr>in_use := insert a' (in_use s - {a}), mem := (mem s)(a' := c)\<rparr>"

lemma lists_keep:
  assumes "lists_ok own s" "a \<in> in_use s" "b_tls (mem s a) = None" "a' \<notin> in_use s - {a}" "b_tls c = None"
  shows "lists_ok own (keep_block a a' c s)"
  by (rule lists_loose [OF assms(1)]) (use assms(2-5) in \<open>auto simp: keep_block_def\<close>)

definition settle :: "nat \<Rightarrow> nat \<Rightarrow> block \<Rightarrow> heap \<Rightarrow> heap" where
  "settle a a' c s = (case b_tls (mem s a) of None \<Rightarrow> keep_block a a' c s | Some t \<Rightarrow> move_block t a a' c s)"

lemma settle_fields [simp]:
  "in_use (settle a a' c s) = insert a' (in_use s - {a})" "canary (settle a a' c s) = canary s"
  "canary_initialized (settle a a' c s) = canary_initialized s" "leaks_of (settle a a' c s) = leaks_of s"
  "malloc (settle a a' c s) = malloc s" "realloc (settle a a' c s) = realloc s" "mem (settle a a' c s) a' = c"
  by (simp_all add: settle_def keep_block_def move_block_def Let_def split: option.split)

lemma settle_alike: "x \<noteq> a' \<Longrightarrow> alike (mem s x) (mem (settle a a' c s) x) \<and> b_tls (mem (settle a a' c s) x) = b_tls (mem s x)"
  by (simp add: settle_def keep_block_def move_block_def Let_def alike_def split: option.split)

lemma lists_settle:
  assumes "lists_ok own s" "a \<in> in_use s" "a' \<notin> in_use s - {a}"
    and "b_tls c = b_tls (mem s a)" "b_prev c = b_prev (mem s a)" "b_next c = b_next (mem s a)"
  shows "\<exists>own'. lists_ok own' (settle a a' c s)"
proof (cases "b_tls (mem s a)")
  case None
  then show ?thesis using lists_keep [of own s a a' c] assms by (auto simp: settle_def)
next
  case (Some t)
  then show ?thesis using lists_move [of own s a t a' c] assms by (auto simp: settle_def)
qed

lemma heap_inv_settle:
  assumes "heap_inv own s" "a \<in> in_use s" "a' \<notin> in_use s - {a}" "a' \<noteq> 0" "block_sound s c"
    and "b_tls c = b_tls (mem s a)" "b_prev c = b_prev (mem s a)" "b_next c = b_next (mem s a)"
  shows "\<exists>own'. heap_inv own' (settle a a' c s)"
proof -
  obtain own' where l: "lists_ok own' (settle a a' c s)"
    using lists_settle [of own s a a' c] assms by (auto simp: heap_inv_def)
  have "block_sound (settle a a' c s) b = block_sound s b" for b by (simp add: block_sound_def)
  moreover have "block_sound s (mem (settle a a' c s) x)" if "x \<in> insert a' (in_use s - {a})" for x
  proof (cases "x = a'")
    case False
    then have "block_sound s (mem s x)" using assms(1) that by (simp add: heap_inv_def)
    then show ?thesis using settle_alike [OF False, of s a c] by (simp add: block_sound_def alike_def)
  qed (simp add: assms(5))
  moreover have "malloc_ok (settle a a' c s)" using assms(1) by (simp add: heap_inv_def malloc_ok_def)
  ultimately have "heap_inv own' (settle a a' c s)" using assms(1,4) l by (simp add: heap_inv_def)
  then show ?thesis by blast
qed

lemma view_settle:
  assumes "a \<in> in_use s" "a' \<notin> in_use s - {a}" "b_tls c = b_tls (mem s a)"
  shows "view_of (settle a a' c s) =
    \<lparr>contents = (contents (view_of s))(a := None, a' \<mapsto> take (b_size c) (b_data c)),
     owned_by = (owned_by (view_of s))(a := None, a' := owned_by (view_of s) a)\<rparr>"
  using assms settle_alike [of _ a' s a c]
  by (intro view_eqI) (auto simp: view_of_def fun_eq_iff alike_def)

section \<open>Resizing\<close>

lemma trim_keeps:
  assumes "heap_inv own s" "a \<in> in_use s"
  shows "lists_ok own (s\<lparr>mem := (mem s)(a := trimmed n (mem s a))\<rparr>)"
proof (rule listsI)
  let ?m = "(mem s)(a := trimmed n (mem s a))"
  have l: "lists_ok own s" using assms by (simp add: heap_inv_def)
  show "linked (mem (s\<lparr>mem := ?m\<rparr>)) None (own u) None" for u
    using l by (subst linked_cong [of _ _ "mem s"]) (auto simp: lists_ok_def)
  have "bytes_of ?m xs = bytes_of (mem s) xs" for xs by (rule bytes_of_cong) simp
  then show "alloc_bytes (s\<lparr>mem := ?m\<rparr>) u = bytes_of (mem (s\<lparr>mem := ?m\<rparr>)) (own u)" for u using l by (simp add: lists_ok_def)
qed (use assms in \<open>auto simp: heap_inv_def lists_ok_def\<close>)

lemma sound_trimmed: "block_sound s b \<Longrightarrow> block_sound s (trimmed n b)"
  by (simp add: block_sound_def trimmed_def memset_def)

lemma heap_inv_trimmed:
  assumes "heap_inv own s" "a \<in> in_use s"
  shows "heap_inv own (s\<lparr>mem := (mem s)(a := trimmed n (mem s a))\<rparr>)"
proof -
  have "block_sound (s\<lparr>mem := m\<rparr>) b = block_sound s b" for m b by (simp add: block_sound_def)
  then show ?thesis
    using trim_keeps [OF assms] assms sound_trimmed by (simp add: heap_inv_def malloc_ok_def)
qed

lemma wp_note_leak: "wp (note_leak p c) Q E s = (case str_leak_debug p c (leaks_of s) of
    None \<Rightarrow> E Blocked s | Some l \<Rightarrow> Q () (s\<lparr>leaks_of := l\<rparr>))"
  by (simp add: wp_def note_leak_def split: option.split)

text \<open>The refreshed links of the neighbours, and the block written at its new address.\<close>

lemma settle_attached:
  assumes "lists_ok own s" "a \<in> in_use s" "b_tls (mem s a) = Some t" "a' \<notin> in_use s - {a}"
  shows "settle a a' c s = s\<lparr>in_use := insert a' (in_use s - {a}),
    mem := (relink (mem s a) (Some a') (Some a') ((mem s)(a' := b)))(a' := c),
    alloc_head := (alloc_head s)(t := if alloc_head s t = Some a then Some a' else alloc_head s t),
    alloc_bytes := (alloc_bytes s)(t := alloc_bytes s t + (of_nat (b_size c) - of_nat (b_size (mem s a))))\<rparr> \<and>
    relink (mem s a) (Some a') (Some a') ((mem s)(a' := b)) a' = b"
proof -
  obtain xs ys where own: "own t = xs @ a # ys" "b_prev (mem s a) = last_of None xs" "b_next (mem s a) = first_of ys None"
    "distinct (xs @ a # ys)" using own_split [OF assms(1-3)] by metis
  have "a' \<notin> set xs \<union> set ys" using own_in_use [OF assms(1), of _ t] assms(4) own(1,4) by auto
  then have "b_prev (mem s a) \<noteq> Some a'" "b_next (mem s a) \<noteq> Some a'"
    using neighbours [OF own(1-3), of a'] by auto
  then show ?thesis
    using assms(3) by (simp add: settle_def move_block_def Let_def relink_update)
qed

lemma str_realloc_internal_wp:
  assumes "heap_inv own s" "mine t a s" "0 < snd p"
  shows "wp (str_realloc_internal t a n p)
    (\<lambda>a' s'. a' \<notin> in_use s - {a} \<and> a' \<noteq> 0 \<and> (\<exists>own'. heap_inv own' s') \<and>
      view_of s' = \<lparr>contents = (contents (view_of s))(a := None, a' \<mapsto> new_data n (the (contents (view_of s) a))),
        owned_by = (owned_by (view_of s))(a := None, a' := owned_by (view_of s) a)\<rparr>)
    (\<lambda>k s'. k = Fatal \<and> realloc s (alloc_calls s) (in_use s) a = 0) s"
proof -
  let ?b = "mem s a"
  have a: "a \<in> in_use s" "block_sound s ?b" using assms(1,2) by (simp_all add: mine_def heap_inv_def)
  obtain l1 where l1: "str_leak_debug (b_alloc ?b) (-1) (leaks_of s) = Some l1" "leak_inv l1"
    using str_leak_debug_step [of "leaks_of s" "b_alloc ?b" "-1"] assms(1) a(2) by (auto simp: heap_inv_def block_sound_def)
  obtain l2 where l2: "str_leak_debug p 1 l1 = Some l2" "leak_inv l2"
    using str_leak_debug_step [of l1 p 1] l1(2) assms(3) by auto
  let ?s1 = "s\<lparr>mem := (mem s)(a := trimmed n ?b), leaks_of := l2, alloc_calls := alloc_calls s + 1\<rparr>"
  have inv: "heap_inv own ?s1"
    using heap_inv_leaks [OF heap_inv_trimmed [OF assms(1) a(1)] l2(2)] by simp
  define a' where "a' = realloc s (alloc_calls s) (in_use s) a"
  let ?c = "resized_block n p s ?b"
  have new: "a' \<notin> in_use s - {a}" using assms(1) by (simp add: a'_def heap_inv_def malloc_ok_def)
  have run: "wp (str_realloc_internal t a n p) (\<lambda>r s'. r = a' \<and> a' \<noteq> 0 \<and> s' = settle a a' ?c ?s1) (\<lambda>k s'. k = Fatal \<and> realloc s (alloc_calls s) (in_use s) a = 0) s"
  proof (cases "b_tls ?b")
    case None
    then show ?thesis
      by (simp add: str_realloc_internal_def wp_heap wp_if wp_note_leak wp_def [of "get_alloc_list_ptr t a"]
        get_alloc_list_ptr_ok [OF assms(1,2)] l1(1) l2(1) a'_def [symmetric] settle_def keep_block_def
        resized_block_def trimmed_def [symmetric])
  next
    case (Some u)
    have "lists_ok own ?s1" using inv by (simp add: heap_inv_def)
    from settle_attached [OF this, of a u a' ?c "resized n (canary s) (trimmed n ?b)"] Some a(1) new
    have eq: "settle a a' ?c ?s1 = ?s1\<lparr>in_use := insert a' (in_use s - {a}),
        mem := (relink ?b (Some a') (Some a') ((mem s)(a := trimmed n ?b, a' := resized n (canary s) (trimmed n ?b))))(a' := ?c),
        alloc_head := (alloc_head s)(u := if alloc_head s u = Some a then Some a' else alloc_head s u),
        alloc_bytes := (alloc_bytes s)(u := alloc_bytes s u + (of_nat n - of_nat (b_size ?b)))\<rparr>"
      and there: "relink ?b (Some a') (Some a') ((mem s)(a := trimmed n ?b, a' := resized n (canary s) (trimmed n ?b))) a' =
        resized n (canary s) (trimmed n ?b)"
      by (simp_all add: relink_def)
    show ?thesis
      using Some there unfolding eq
      by (simp add: str_realloc_internal_def wp_heap wp_if wp_note_leak wp_def [of "get_alloc_list_ptr t a"]
        get_alloc_list_ptr_ok [OF assms(1,2)] l1(1) l2(1) a'_def [symmetric] relink_def
        resized_block_def trimmed_def [symmetric])
  qed
  have "block_sound ?s1 ?c" using sound_resized [OF a(2) _ assms(3)] assms(1) by (simp add: heap_inv_def block_sound_def)
  then have inv': "a' \<noteq> 0 \<Longrightarrow> \<exists>own'. heap_inv own' (settle a a' ?c ?s1)"
    using inv a(1) new by (intro heap_inv_settle) simp_all
  have "take (b_size ?c) (b_data ?c) = new_data n (the (contents (view_of s) a))"
    using a by (simp add: resized_block_data block_sound_def view_of_def)
  moreover have "view_of (settle a a' ?c ?s1) =
    \<lparr>contents = (contents (view_of ?s1))(a := None, a' \<mapsto> take (b_size ?c) (b_data ?c)),
     owned_by = (owned_by (view_of ?s1))(a := None, a' := owned_by (view_of ?s1) a)\<rparr>"
    using a(1) new by (intro view_settle) simp_all
  moreover have "owned_by (view_of ?s1) = owned_by (view_of s)" "(contents (view_of ?s1))(a := None) = (contents (view_of s))(a := None)"
    by (auto simp: view_of_def fun_eq_iff)
  ultimately have "view_of (settle a a' ?c ?s1) =
    \<lparr>contents = (contents (view_of s))(a := None, a' \<mapsto> new_data n (the (contents (view_of s) a))),
     owned_by = (owned_by (view_of s))(a := None, a' := owned_by (view_of s) a)\<rparr>" by simp
  with inv' new show ?thesis by (intro wp_mono [OF run]) auto
qed

end
