(* ===== verification/Storage.thy ===== *)
theory Storage
  imports Resize
begin

text \<open>
  The contract of the allocator of str.c, as an interface: what each request does to the data and the owners of the blocks in
  use, and what threads may rely on. The lists, the canaries and the leak table of \<open>Alloc\<close> keep it.
\<close>

section \<open>Requests\<close>

datatype request =
    Start nat
  | Canary "byte list"
  | Alloc nat nat
  | Alloc_detached nat
  | Resize nat "nat option" nat
  | Resize_detached nat "nat option" nat
  | Detach nat "nat option"
  | Free nat "nat option"
  | Cleanup nat

text \<open>The place in the source goes with a request.\<close>

type_synonym call = "request \<times> place"

fun heap_run :: "call \<Rightarrow> nat hm" where
  "heap_run (Start t, p) = seqM (str_init t) (retM 0)"
| "heap_run (Canary random, p) = seqM (str_canary_init random) (retM 0)"
| "heap_run (Alloc t n, p) = str_alloc t n p"
| "heap_run (Alloc_detached n, p) = str_alloc_detached n p"
| "heap_run (Resize t q n, p) = str_realloc t q n p"
| "heap_run (Resize_detached t q n, p) = str_realloc_detached t q n p"
| "heap_run (Detach t q, p) = seqM (str_detach t q) (retM 0)"
| "heap_run (Free t q, p) = seqM (str_free t q p) (retM 0)"
| "heap_run (Cleanup t, p) = seqM (str_cleanup t p) (retM 0)"

text \<open>A thread passes NULL, a block of its own, or a detached one.\<close>

definition usable :: "nat \<Rightarrow> nat option \<Rightarrow> view \<Rightarrow> bool" where
  "usable t q v \<longleftrightarrow> (case q of None \<Rightarrow> True
     | Some a \<Rightarrow> contents v a \<noteq> None \<and> (owned_by v a = None \<or> owned_by v a = Some t))"

fun legal_request :: "request \<Rightarrow> view \<Rightarrow> bool" where
  "legal_request (Start t) v \<longleftrightarrow> (\<forall>a. owned_by v a \<noteq> Some t)"
| "legal_request (Canary random) v \<longleftrightarrow> length random = 10"
| "legal_request (Resize t q n) v \<longleftrightarrow> usable t q v"
| "legal_request (Resize_detached t q n) v \<longleftrightarrow> usable t q v"
| "legal_request (Detach t q) v \<longleftrightarrow> usable t q v"
| "legal_request (Free t q) v \<longleftrightarrow> usable t q v"
| "legal_request _ v \<longleftrightarrow> True"

definition legal :: "call \<Rightarrow> view \<Rightarrow> bool" where
  "legal c v \<longleftrightarrow> 0 < snd (snd c) \<and> legal_request (fst c) v"

section \<open>Promises\<close>

definition gained :: "nat \<Rightarrow> byte list \<Rightarrow> nat option \<Rightarrow> view \<Rightarrow> view" where
  "gained a d u v = \<lparr>contents = (contents v)(a \<mapsto> d), owned_by = (owned_by v)(a := u)\<rparr>"

definition lost :: "nat \<Rightarrow> view \<Rightarrow> view" where
  "lost a v = \<lparr>contents = (contents v)(a := None), owned_by = (owned_by v)(a := None)\<rparr>"

definition promised_block :: "byte list \<Rightarrow> nat option \<Rightarrow> view \<Rightarrow> nat \<Rightarrow> view \<Rightarrow> bool" where
  "promised_block d u v r v' \<longleftrightarrow> r \<noteq> 0 \<and> contents v r = None \<and> v' = gained r d u v"

definition promised_resize :: "nat \<Rightarrow> nat \<Rightarrow> view \<Rightarrow> nat \<Rightarrow> view \<Rightarrow> bool" where
  "promised_resize a n v r v' \<longleftrightarrow> promised_block (new_data n (the (contents v a))) (owned_by v a) (lost a v) r v'"

fun promised_request :: "request \<Rightarrow> view \<Rightarrow> nat \<Rightarrow> view \<Rightarrow> bool" where
  "promised_request (Alloc t n) v r v' \<longleftrightarrow> promised_block (replicate n 0) (Some t) v r v'"
| "promised_request (Alloc_detached n) v r v' \<longleftrightarrow> promised_block (replicate n 0) None v r v'"
| "promised_request (Resize t None n) v r v' \<longleftrightarrow> promised_block (replicate n 0) (Some t) v r v'"
| "promised_request (Resize t (Some a) n) v r v' \<longleftrightarrow> promised_resize a n v r v'"
| "promised_request (Resize_detached t None n) v r v' \<longleftrightarrow> promised_block (replicate n 0) None v r v'"
| "promised_request (Resize_detached t (Some a) n) v r v' \<longleftrightarrow> promised_resize a n v r v'"
| "promised_request (Detach t (Some a)) v r v' \<longleftrightarrow> v' = v\<lparr>owned_by := (owned_by v)(a := None)\<rparr>"
| "promised_request (Free t (Some a)) v r v' \<longleftrightarrow> v' = lost a v"
| "promised_request (Cleanup t) v r v' \<longleftrightarrow>
     v' = \<lparr>contents = (\<lambda>a. if owned_by v a = Some t then None else contents v a),
       owned_by = (\<lambda>a. if owned_by v a = Some t then None else owned_by v a)\<rparr>"
| "promised_request _ v r v' \<longleftrightarrow> v' = v"

definition promised :: "call \<Rightarrow> view \<Rightarrow> nat \<Rightarrow> view \<Rightarrow> bool" where
  "promised c = promised_request (fst c)"

section \<open>Threads apart\<close>

fun thread_of :: "request \<Rightarrow> nat option" where
  "thread_of (Start t) = Some t"
| "thread_of (Alloc t n) = Some t"
| "thread_of (Resize t q n) = Some t"
| "thread_of (Resize_detached t q n) = Some t"
| "thread_of (Detach t q) = Some t"
| "thread_of (Free t q) = Some t"
| "thread_of (Cleanup t) = Some t"
| "thread_of _ = None"

definition foreign :: "nat \<Rightarrow> call \<Rightarrow> bool" where
  "foreign u c \<longleftrightarrow> thread_of (fst c) \<noteq> Some u"

lemma promised_apart:
  assumes "legal c v" "promised c v r v'" "foreign u c" "owned_by v b = Some u" "contents v b = Some d"
  shows "owned_by v' b = Some u \<and> contents v' b = Some d"
proof -
  obtain q p where c: "c = (q, p)" by (meson surj_pair)
  have "legal_request q v \<Longrightarrow> promised_request q v r v' \<Longrightarrow> thread_of q \<noteq> Some u \<Longrightarrow>
      owned_by v b = Some u \<Longrightarrow> contents v b = Some d \<Longrightarrow> owned_by v' b = Some u \<and> contents v' b = Some d"
    by (induction q v r v' rule: promised_request.induct)
      (auto simp: promised_block_def promised_resize_def gained_def lost_def usable_def split: if_splits)
  then show ?thesis using assms c by (simp add: legal_def promised_def foreign_def)
qed

inductive calls_made :: "(call \<Rightarrow> 's \<Rightarrow> (nat, 's) res) \<Rightarrow> ('s \<Rightarrow> view) \<Rightarrow> (call \<Rightarrow> bool) \<Rightarrow> 's \<Rightarrow> 's \<Rightarrow> bool"
  for run abs P where
    calls_made_none: "calls_made run abs P s s"
  | calls_made_one: "calls_made run abs P s s' \<Longrightarrow> P c \<Longrightarrow> legal c (abs s') \<Longrightarrow> run c s' = Ok r s'' \<Longrightarrow> calls_made run abs P s s''"

locale storage =
  fixes inv :: "'s \<Rightarrow> bool" and abs :: "'s \<Rightarrow> view" and run :: "call \<Rightarrow> 's \<Rightarrow> (nat, 's) res" and short_of :: "call \<Rightarrow> 's \<Rightarrow> bool"
  assumes keeps: "inv s \<Longrightarrow> legal c (abs s) \<Longrightarrow>
    wp (run c) (\<lambda>r s'. inv s' \<and> promised c (abs s) r (abs s')) (\<lambda>k s'. k = Fatal \<and> short_of c s) s"
begin

lemma answered: "inv s \<Longrightarrow> legal c (abs s) \<Longrightarrow> run c s = Ok r s' \<Longrightarrow> inv s' \<and> promised c (abs s) r (abs s')"
  by (rule wp_Ok [OF keeps])

lemma answered_inv: "calls_made run abs P s s' \<Longrightarrow> inv s \<Longrightarrow> inv s'"
  by (induction rule: calls_made.induct) (use answered in blast)+

text \<open>What other threads do does not reach the blocks of a thread.\<close>

lemma answered_apart:
  assumes "calls_made run abs (foreign u) s s'" "inv s" "owned_by (abs s) b = Some u" "contents (abs s) b = Some d"
  shows "owned_by (abs s') b = Some u \<and> contents (abs s') b = Some d"
  using assms
proof (induction rule: calls_made.induct)
  case (calls_made_one s s' c r s'')
  then have "inv s'" using answered_inv by blast
  then show ?case using promised_apart [of c "abs s'" r "abs s''" u b d] answered calls_made_one by blast
qed simp

text \<open>A thread that cleans up leaves nothing behind, and takes nothing with it that it detached.\<close>

lemma cleaned:
  assumes "inv s" "0 < snd p" "run (Cleanup t, p) s = Ok r s'"
  shows "owned_by (abs s') b \<noteq> Some t \<and> (owned_by (abs s) b \<noteq> Some t \<longrightarrow> contents (abs s') b = contents (abs s) b)"
  using answered [OF assms(1) _ assms(3)] assms(2) by (auto simp: legal_def promised_def)

end

section \<open>The allocator provides it\<close>

definition heap_ok :: "heap \<Rightarrow> bool" where
  "heap_ok s \<longleftrightarrow> (\<exists>own. heap_inv own s)"

text \<open>The C library has no memory left.\<close>

fun no_memory_request :: "request \<Rightarrow> heap \<Rightarrow> bool" where
  "no_memory_request (Alloc t n) s \<longleftrightarrow> malloc s (alloc_calls s) (in_use s) = 0"
| "no_memory_request (Alloc_detached n) s \<longleftrightarrow> malloc s (alloc_calls s) (in_use s) = 0"
| "no_memory_request (Resize t None n) s \<longleftrightarrow> malloc s (alloc_calls s) (in_use s) = 0"
| "no_memory_request (Resize t (Some a) n) s \<longleftrightarrow> realloc s (alloc_calls s) (in_use s) a = 0"
| "no_memory_request (Resize_detached t None n) s \<longleftrightarrow> malloc s (alloc_calls s) (in_use s) = 0"
| "no_memory_request (Resize_detached t (Some a) n) s \<longleftrightarrow> realloc s (alloc_calls s) (in_use s) a = 0"
| "no_memory_request _ s \<longleftrightarrow> False"

definition no_memory :: "call \<Rightarrow> heap \<Rightarrow> bool" where
  "no_memory c = no_memory_request (fst c)"

lemma usable_mine: "usable t (Some a) (view_of s) \<longleftrightarrow> mine t a s"
  by (auto simp: usable_def mine_def view_of_def)

lemma str_init_ok:
  assumes "heap_inv own s" "\<forall>a. owned_by (view_of s) a \<noteq> Some t"
  shows "heap_inv own (s\<lparr>alloc_head := (alloc_head s)(t := None), alloc_bytes := (alloc_bytes s)(t := 0),
    alloc_blocks := (alloc_blocks s)(t := 0)\<rparr>)"
proof -
  have l: "lists_ok own s" using assms(1) by (simp add: heap_inv_def)
  have "a \<notin> set (own t)" for a
    using lists_member [OF l, of a t] assms(2) by (auto simp: view_of_def split: if_splits)
  then have "own t = []" by (meson last_in_set)
  then have "lists_ok own (s\<lparr>alloc_head := (alloc_head s)(t := None), alloc_bytes := (alloc_bytes s)(t := 0),
    alloc_blocks := (alloc_blocks s)(t := 0)\<rparr>)" using l by (auto simp: lists_ok_def)
  then show ?thesis using assms(1) by (auto simp: heap_inv_def block_sound_def malloc_ok_def)
qed

lemma str_canary_init_ok:
  assumes "heap_inv own s" "length random = 10"
  shows "\<exists>s'. str_canary_init random s = Ok () s' \<and> heap_inv own s' \<and> view_of s' = view_of s"
proof (cases "canary_initialized s = CANARY_UNINITIALIZED")
  case True
  let ?s = "s\<lparr>canary := random, canary_initialized := CANARY_INITIALIZED\<rparr>"
  have "block_sound ?s (mem s a)" if "a \<in> in_use s" for a
    using assms(1) that True by (simp add: heap_inv_def block_sound_def CANARY_INITIALIZED_def CANARY_UNINITIALIZED_def)
  then have "heap_inv own ?s" using assms by (simp add: heap_inv_def lists_ok_def malloc_ok_def)
  moreover have "view_of ?s = view_of s" by (simp add: view_of_def cong: if_cong)
  ultimately show ?thesis using True by (simp add: str_canary_init_def mdefs)
qed (use assms in \<open>simp add: str_canary_init_def mdefs\<close>)

lemma str_alloc_kept:
  assumes "heap_ok s" "0 < snd p"
  shows "wp (str_alloc t n p) (\<lambda>r s'. heap_ok s' \<and> promised_block (replicate n 0) (Some t) (view_of s) r (view_of s'))
    (\<lambda>k s'. k = Fatal \<and> malloc s (alloc_calls s) (in_use s) = 0) s"
proof -
  obtain own where "heap_inv own s" using assms(1) by (auto simp: heap_ok_def)
  from str_alloc_wp [OF this assms(2), of t n] show ?thesis
    by (rule wp_mono) (auto simp: heap_ok_def promised_block_def gained_def view_of_def)
qed

lemma str_alloc_detached_kept:
  assumes "heap_ok s" "0 < snd p"
  shows "wp (str_alloc_detached n p) (\<lambda>r s'. heap_ok s' \<and> promised_block (replicate n 0) None (view_of s) r (view_of s'))
    (\<lambda>k s'. k = Fatal \<and> malloc s (alloc_calls s) (in_use s) = 0) s"
proof -
  obtain own where own: "heap_inv own s" using assms(1) by (auto simp: heap_ok_def)
  show ?thesis
  proof (rule str_alloc_detached_wp [OF own assms(2)])
    fix a l
    assume a: "a \<notin> in_use s" "a \<noteq> 0" "leak_inv l"
    let ?s = "s\<lparr>alloc_calls := alloc_calls s + 1, in_use := insert a (in_use s), mem := (mem s)(a := fresh_block n p s), leaks_of := l\<rparr>"
    have "heap_inv own (s\<lparr>alloc_calls := alloc_calls s + 1\<rparr>)" using own by simp
    from heap_inv_new [OF this, of a p n] have "heap_inv own ?s"
      using a assms(2) by (intro heap_inv_leaks) (simp_all add: fresh_block_def)
    moreover have "view_of ?s = gained a (replicate n 0) None (view_of s)"
      by (intro view_eqI) (auto simp: view_of_def gained_def fresh_block_def fun_eq_iff)
    ultimately show "heap_ok ?s \<and> promised_block (replicate n 0) None (view_of s) a (view_of ?s)"
      using a by (auto simp: heap_ok_def promised_block_def view_of_def)
  qed simp
qed

lemma str_realloc_internal_kept:
  assumes "heap_ok s" "0 < snd p" "usable t (Some a) (view_of s)"
  shows "wp (str_realloc_internal t a n p) (\<lambda>r s'. heap_ok s' \<and> promised_resize a n (view_of s) r (view_of s'))
    (\<lambda>k s'. k = Fatal \<and> realloc s (alloc_calls s) (in_use s) a = 0) s"
proof -
  obtain own where "heap_inv own s" using assms(1) by (auto simp: heap_ok_def)
  moreover have "mine t a s" using assms(3) by (simp add: usable_mine)
  moreover have "contents (lost a (view_of s)) r = None \<longleftrightarrow> r \<notin> in_use s - {a}" for r
    by (auto simp: lost_def view_of_def)
  ultimately show ?thesis
    using assms(2)
    by (intro wp_mono [OF str_realloc_internal_wp [of own s t a p n]])
      (auto simp: heap_ok_def promised_resize_def promised_block_def gained_def lost_def [of a])
qed

lemma str_detach_kept:
  assumes "heap_ok s" "usable t (Some a) (view_of s)"
  shows "\<exists>s'. str_detach t (Some a) s = Ok () s' \<and> heap_ok s' \<and>
    view_of s' = (view_of s)\<lparr>owned_by := (owned_by (view_of s))(a := None)\<rparr>"
  using assms str_detach_wp [of _ s t a] unfolding heap_ok_def usable_mine by blast

lemma str_free_kept:
  assumes "heap_ok s" "usable t (Some a) (view_of s)"
  shows "\<exists>s'. str_free t (Some a) p s = Ok () s' \<and> heap_ok s' \<and> b_magic (mem s' a) = MAGIC_DEALLOCATED \<and>
    view_of s' = lost a (view_of s)"
proof -
  obtain own where "heap_inv own s" using assms(1) by (auto simp: heap_ok_def)
  moreover have "(view_of s)\<lparr>contents := (contents (view_of s))(a := None), owned_by := (owned_by (view_of s))(a := None)\<rparr> = lost a (view_of s)"
    by (simp add: lost_def)
  ultimately show ?thesis using str_free_ok [of own s t a p] assms(2) unfolding heap_ok_def usable_mine by auto
qed

lemma str_cleanup_kept: "heap_ok s \<Longrightarrow> \<exists>s'. str_cleanup t p s = Ok () s' \<and> heap_ok s'"
  using str_cleanup_ok unfolding heap_ok_def by blast

lemma wp_of_Ok: "m s = Ok a s' \<Longrightarrow> wp m Q E s = Q a s'"
  by (simp add: wp_def)

lemma heap_run_keeps:
  assumes "heap_ok s" "legal c (view_of s)"
  shows "wp (heap_run c) (\<lambda>r s'. heap_ok s' \<and> promised c (view_of s) r (view_of s')) (\<lambda>k s'. k = Fatal \<and> no_memory c s) s"
proof -
  obtain q p where c: "c = (q, p)" by (meson surj_pair)
  have p: "0 < snd p" and ok: "legal_request q (view_of s)" using assms(2) c by (simp_all add: legal_def)
  obtain own where own: "heap_inv own s" using assms(1) by (auto simp: heap_ok_def)
  note simps = c promised_def no_memory_def wp_seqM wp_retM wp_modM str_init_def
  show ?thesis
  proof (cases q)
    case (Start t)
    let ?s = "s\<lparr>alloc_head := (alloc_head s)(t := None), alloc_bytes := (alloc_bytes s)(t := 0), alloc_blocks := (alloc_blocks s)(t := 0)\<rparr>"
    have "view_of ?s = view_of s" by (simp add: view_of_def cong: if_cong)
    then show ?thesis using str_init_ok [OF own, of t] ok Start by (auto simp: simps heap_ok_def)
  next
    case (Canary random)
    then show ?thesis
      using str_canary_init_ok [OF own, of random] ok by (auto simp: simps wp_of_Ok heap_ok_def)
  next
    case (Alloc t n)
    then show ?thesis using str_alloc_kept [OF assms(1) p, of t n] by (simp add: simps)
  next
    case (Alloc_detached n)
    then show ?thesis using str_alloc_detached_kept [OF assms(1) p, of n] by (simp add: simps)
  next
    case (Resize t r n)
    then show ?thesis
      using str_alloc_kept [OF assms(1) p, of t n] str_realloc_internal_kept [OF assms(1) p] ok
      by (cases r) (simp_all add: simps str_realloc_def)
  next
    case (Resize_detached t r n)
    then show ?thesis
      using str_alloc_detached_kept [OF assms(1) p, of n] str_realloc_internal_kept [OF assms(1) p] ok
      by (cases r) (simp_all add: simps str_realloc_detached_def)
  next
    case (Detach t r)
    show ?thesis
    proof (cases r)
      case None
      then show ?thesis using Detach assms(1) by (simp add: simps str_detach_def)
    next
      case (Some a)
      then show ?thesis using str_detach_kept [OF assms(1), of t a] ok Detach by (auto simp: simps wp_of_Ok)
    qed
  next
    case (Free t r)
    show ?thesis
    proof (cases r)
      case None
      then show ?thesis using Free assms(1) by (simp add: simps str_free_def)
    next
      case (Some a)
      then show ?thesis using str_free_kept [OF assms(1), of t a p] ok Free by (auto simp: simps wp_of_Ok)
    qed
  next
    case (Cleanup t)
    then show ?thesis using str_cleanup_ok [OF own, of t p] by (auto simp: simps wp_of_Ok heap_ok_def)
  qed
qed

interpretation allocator: storage heap_ok view_of heap_run no_memory
  by unfold_locales (rule heap_run_keeps)

section \<open>Misuse\<close>

text \<open>A block that was written past its end, one of another thread, one already released.\<close>

definition overrun :: "heap \<Rightarrow> nat \<Rightarrow> bool" where
  "overrun s a \<longleftrightarrow> b_canary (mem s a) \<noteq> CANARY_UNINITIALIZED \<and>
     length (b_data (mem s a)) = b_size (mem s a) + 10 \<and> drop (b_size (mem s a)) (b_data (mem s a)) \<noteq> canary s"

definition misused :: "nat \<Rightarrow> nat \<Rightarrow> heap \<Rightarrow> bool" where
  "misused t a s \<longleftrightarrow> b_magic (mem s a) \<noteq> MAGIC_ALLOCATED \<or>
     (b_tls (mem s a) \<noteq> None \<and> b_tls (mem s a) \<noteq> Some t) \<or> overrun s a"

lemma get_alloc_list_ptr_stops:
  assumes "misused t a s" "length (canary s) = 10"
  shows "get_alloc_list_ptr t a s = Stop Fatal s"
proof -
  have "safe_memcmp (drop (b_size (mem s a)) (b_data (mem s a))) (canary s) 10" if "overrun s a"
    using that assms(2) safe_memcmp_equal [of 10 "drop (b_size (mem s a)) (b_data (mem s a))" "canary s"]
    by (auto simp: overrun_def)
  then show ?thesis
    using assms(1) by (auto simp: get_alloc_list_ptr_def block_at_def mdefs misused_def overrun_def)
qed

lemma misuse_stops:
  assumes "misused t a s" "length (canary s) = 10"
  shows "str_detach t (Some a) s = Stop Fatal s" "str_realloc t (Some a) n p s = Stop Fatal s"
    "str_realloc_detached t (Some a) n p s = Stop Fatal s"
    "b_magic (mem s a) \<noteq> MAGIC_DEALLOCATED \<Longrightarrow> str_free t (Some a) p s = Stop Fatal s"
  using get_alloc_list_ptr_stops [OF assms]
  by (simp_all add: str_detach_def str_realloc_def str_realloc_detached_def str_realloc_internal_def str_free_def block_at_def mdefs)

text \<open>No operation goes on.\<close>

definition refused :: "nat \<Rightarrow> nat \<Rightarrow> heap \<Rightarrow> bool" where
  "refused t a s \<longleftrightarrow> str_detach t (Some a) s = Stop Fatal s \<and> (\<forall>n p. str_realloc t (Some a) n p s = Stop Fatal s \<and>
     str_realloc_detached t (Some a) n p s = Stop Fatal s)"

definition free_refused :: "nat \<Rightarrow> nat \<Rightarrow> heap \<Rightarrow> bool" where
  "free_refused t a s \<longleftrightarrow> (\<forall>p. str_free t (Some a) p s = Stop Fatal s)"

text \<open>The code writes through a pointer, possibly past the end of the block.\<close>

definition scribble :: "nat \<Rightarrow> byte list \<Rightarrow> heap \<Rightarrow> heap" where
  "scribble a d s = s\<lparr>mem := (mem s)(a := (mem s a)\<lparr>b_data := d\<rparr>)\<rparr>"

lemma heap_ok_block:
  assumes "heap_ok s" "contents (view_of s) a \<noteq> None"
  shows "block_sound s (mem s a)" "length (canary s) = 10" "owned_by (view_of s) a = b_tls (mem s a)"
  using assms by (auto simp: heap_ok_def heap_inv_def view_of_def split: if_splits)

lemma refusals:
  assumes "misused t a s" "length (canary s) = 10"
  shows "refused t a s" "b_magic (mem s a) \<noteq> MAGIC_DEALLOCATED \<Longrightarrow> free_refused t a s"
  using misuse_stops [OF assms] by (simp_all add: refused_def free_refused_def)

lemma overrun_refused:
  assumes "heap_ok s" "contents (view_of s) a \<noteq> None" "length d = b_size (mem s a) + 10"
    and "b_canary (mem s a) \<noteq> CANARY_UNINITIALIZED" "drop (b_size (mem s a)) d \<noteq> canary s"
  shows "refused t a (scribble a d s) \<and> free_refused t a (scribble a d s)"
proof -
  have "misused t a (scribble a d s)" using assms(3-5) by (simp add: misused_def overrun_def scribble_def)
  moreover have "b_magic (mem (scribble a d s) a) \<noteq> MAGIC_DEALLOCATED"
    using heap_ok_block(1) [OF assms(1,2)] by (simp add: scribble_def block_sound_def MAGIC_ALLOCATED_def MAGIC_DEALLOCATED_def)
  moreover have "length (canary (scribble a d s)) = 10" using heap_ok_block(2) [OF assms(1,2)] by (simp add: scribble_def)
  ultimately show ?thesis using refusals by blast
qed

lemma foreign_refused:
  assumes "heap_ok s" "contents (view_of s) a \<noteq> None" "owned_by (view_of s) a = Some u" "u \<noteq> t"
  shows "refused t a s \<and> free_refused t a s"
proof -
  note b = heap_ok_block [OF assms(1,2)]
  have "misused t a s" using assms(3,4) b(3) by (simp add: misused_def)
  moreover have "b_magic (mem s a) \<noteq> MAGIC_DEALLOCATED"
    using b(1) by (simp add: block_sound_def MAGIC_ALLOCATED_def MAGIC_DEALLOCATED_def)
  ultimately show ?thesis using refusals b(2) by blast
qed

lemma freed_refused:
  assumes "heap_ok s" "usable t (Some a) (view_of s)"
  shows "\<exists>s'. str_free t (Some a) p s = Ok () s' \<and> heap_ok s' \<and>
    (\<forall>u q. refused u a s' \<and> str_free u (Some a) q s' = Ok () s')"
proof -
  obtain s' where s': "str_free t (Some a) p s = Ok () s'" "heap_ok s'" "b_magic (mem s' a) = MAGIC_DEALLOCATED"
    using str_free_kept [OF assms] by blast
  have "misused u a s'" for u using s'(3) by (simp add: misused_def MAGIC_ALLOCATED_def MAGIC_DEALLOCATED_def)
  moreover have "length (canary s') = 10" using s'(2) by (auto simp: heap_ok_def heap_inv_def)
  ultimately show ?thesis using s' refusals(1) str_free_again by blast
qed

section \<open>The first state\<close>

definition blank_block :: block where
  "blank_block = \<lparr>b_prev = None, b_next = None, b_tls = None, b_size = 0, b_alloc = (''none'', 0), b_free = (''none'', 0),
     b_canary = 0, b_magic = 0, b_data = []\<rparr>"

definition heap_init :: "(nat \<Rightarrow> nat set \<Rightarrow> nat) \<Rightarrow> (nat \<Rightarrow> nat set \<Rightarrow> nat \<Rightarrow> nat) \<Rightarrow> nat \<Rightarrow> heap" where
  "heap_init m r sections = \<lparr>mem = (\<lambda>_. blank_block), in_use = {}, alloc_head = (\<lambda>_. None), alloc_bytes = (\<lambda>_. 0),
     alloc_blocks = (\<lambda>_. 0), canary = replicate 10 0, canary_initialized = CANARY_UNINITIALIZED,
     leaks_of = leak_init sections 0, alloc_calls = 0, malloc = m, realloc = r\<rparr>"

lemma heap_ok_init: "malloc_ok (heap_init m r n) \<Longrightarrow> heap_ok (heap_init m r n)"
  unfolding heap_ok_def
  by (intro exI [of _ "\<lambda>_. []"])
    (simp add: heap_inv_def heap_init_def lists_ok_def leak_inv_init bytes_of_def)

text \<open>An allocator that gives out a new address at every call.\<close>

definition bump :: "nat \<Rightarrow> nat set \<Rightarrow> nat" where
  "bump n U = (if n + 1 \<in> U then 0 else n + 1)"

definition small_heap :: heap where
  "small_heap = heap_init bump (\<lambda>n U a. bump n (U - {a})) 0"

lemma small_heap_malloc: "malloc_ok small_heap"
  by (auto simp: malloc_ok_def small_heap_def heap_init_def bump_def)

lemma small_heap_ok: "heap_ok small_heap"
  using heap_ok_init small_heap_malloc unfolding small_heap_def by blast

text \<open>Thread 1 has a block of 3 bytes at 1 and one of 2 at 2, thread 2 one of 4 at 3; all carry canaries.\<close>

definition marks :: "byte list" where "marks = [1,2,3,4,5,6,7,8,9,10]"

definition filled :: "nat option \<Rightarrow> nat option \<Rightarrow> nat \<Rightarrow> byte list \<Rightarrow> block" where
  "filled p q t d = \<lparr>b_prev = p, b_next = q, b_tls = Some t, b_size = length d, b_alloc = (''client.c'', 10), b_free = (''none'', 0),
     b_canary = CANARY_INITIALIZED, b_magic = MAGIC_ALLOCATED, b_data = d @ marks\<rparr>"

definition busy_heap :: heap where
  "busy_heap = small_heap\<lparr>
     mem := (mem small_heap)(1 := filled (Some 2) None 1 [97,98,99], 2 := filled None (Some 1) 1 [120,121], 3 := filled None None 2 [0,0,0,0]),
     in_use := {1, 2, 3}, alloc_head := (alloc_head small_heap)(1 := Some 2, 2 := Some 3),
     alloc_bytes := (alloc_bytes small_heap)(1 := 5, 2 := 4), alloc_blocks := (alloc_blocks small_heap)(1 := 2, 2 := 1),
     canary := marks, canary_initialized := CANARY_INITIALIZED, alloc_calls := 3\<rparr>"

lemma busy_heap_fields:
  "mem busy_heap 1 = filled (Some 2) None 1 [97,98,99]" "mem busy_heap 2 = filled None (Some 1) 1 [120,121]"
  "mem busy_heap 3 = filled None None 2 [0,0,0,0]" "in_use busy_heap = {1, 2, 3}" "canary busy_heap = marks"
  "canary_initialized busy_heap = CANARY_INITIALIZED" "alloc_head busy_heap = (\<lambda>_. None)(1 := Some 2, 2 := Some 3)"
  "alloc_bytes busy_heap = (\<lambda>_. 0)(1 := 5, 2 := 4)" "alloc_blocks busy_heap = (\<lambda>_. 0)(1 := 2, 2 := 1)"
  "leaks_of busy_heap = leak_init 0 0" "malloc busy_heap = bump" "realloc busy_heap = (\<lambda>n U a. bump n (U - {a}))" "alloc_calls busy_heap = 3"
  by (simp_all add: busy_heap_def small_heap_def heap_init_def)

lemma filled_fields [simp]:
  "b_prev (filled p q t d) = p" "b_next (filled p q t d) = q" "b_tls (filled p q t d) = Some t" "b_size (filled p q t d) = length d"
  "b_data (filled p q t d) = d @ marks" "b_canary (filled p q t d) = CANARY_INITIALIZED" "b_magic (filled p q t d) = MAGIC_ALLOCATED"
  "b_alloc (filled p q t d) = (''client.c'', 10)"
  by (simp_all add: filled_def)

lemma busy_heap_ok: "heap_ok busy_heap"
proof -
  let ?own = "(\<lambda>_. [])(1 := [2, 1], 2 := [3]) :: owners"
  have "lists_ok ?own busy_heap"
    by (rule listsI) (auto simp: busy_heap_fields [simplified] bytes_of_def)
  moreover have "block_sound busy_heap (mem busy_heap a)" if "a \<in> in_use busy_heap" for a
    using that by (auto simp: busy_heap_fields [simplified] block_sound_def marks_def CANARY_INITIALIZED_def CANARY_UNINITIALIZED_def)
  moreover have "malloc_ok busy_heap" by (auto simp: malloc_ok_def busy_heap_fields bump_def)
  ultimately have "heap_inv ?own busy_heap" by (simp add: heap_inv_def busy_heap_fields leak_inv_init marks_def)
  then show ?thesis unfolding heap_ok_def by blast
qed

lemma busy_heap_view:
  "view_of busy_heap = \<lparr>contents = [1 \<mapsto> [97,98,99], 2 \<mapsto> [120,121], 3 \<mapsto> [0,0,0,0]], owned_by = [1 \<mapsto> 1, 2 \<mapsto> 1, 3 \<mapsto> 2]\<rparr>"
  by (rule view_eqI) (auto simp: view_of_def busy_heap_fields [simplified] fun_eq_iff)

end
