(* ===== verification/Spec2Isabelle.thy ===== *)
theory Spec2Isabelle
  imports Transfer_Loop Protocol Outcome Libwrap Custody Demo Storage
begin

text \<open>
  A model of stunnel (src/stunnel-oqs/stunnel-5.40/src), the TLS tunnel through which Koinonia's components talk,
  and of the pieces of OpenSSL (src/stunnel-oqs/oqs-openssl-1.0.2/crypto) its protocol negotiations compute with.

  \<^bold>\<open>The program.\<close> stunnel accepts a connection, optionally negotiates an application protocol in the
  clear or inside TLS (protocol.c), connects to a server (client.c, resolver.c), performs the TLS
  handshake, and then relays bytes between a plain socket and a TLS session (\<open>transfer()\<close> in client.c).
  All its waiting goes through one poll set (network.c), and all its blocking-style I/O is simulated on
  non-blocking descriptors with that set. Errors leave by \<open>longjmp\<close> to \<open>client_run()\<close>. The main thread
  (stunnel.c, ui_unix.c) binds the ports, accepts the connections and starts a thread for each; signals reach it through
  a pipe. The threads share a pool of processes that check the peers with libwrap (libwrap.c).

  \<^bold>\<open>The model.\<close> A function of the code is a computation \<open>'a cm\<close>: from a connection state \<open>cli\<close> to \<open>Ok r c\<close> or
  \<open>Stop k c\<close>, where \<open>k\<close> is the \<open>longjmp\<close> code, a write outside an array (\<open>Overflow\<close>), a NULL pointer
  followed (\<open>Null_deref\<close>), \<open>str.c\<close>'s fatal exit (\<open>Fatal\<close>), or \<open>Blocked\<close>: the observation ended. What is
  not under src/ (kernel, C library resolver) and the TLS engine are one parameter \<open>os\<close> of the state,
  which answers each request as a function of its number; every request and answer is recorded in \<open>trace\<close>, and \<open>stream ch c\<close> is what went through
  channel \<open>ch\<close>. \<open>os_ok\<close> states the documented return values of those calls, nothing about the data that
  arrives. Theorems quantify over all such environments. A loop runs on fuel derived from \<open>horizon\<close>, the number
  of requests observed: every round makes a request, so the fuel never runs out first
  (\<open>Frame.live\<close>, and the property \<open>client_main_ends\<close>).

  \<^bold>\<open>Interaction.\<close> \<open>client_try\<close> is the code's sequence: accept and authenticate the local side, negotiate, connect
  and do the TLS handshake in the configured order, negotiate again, relay. Everything it opens passes through two
  owners, \<open>tmp_fd\<close> (\<open>c->fd\<close>) and \<open>remote_fd\<close>; \<open>Session.stands\<close> is that accounting, and \<open>setjmp\<close> turns an
  abort into a value that the cleanup of \<open>client_run\<close> goes on from. The answer of the handshake carries whether
  \<open>verify_checks\<close> rejected a certificate; \<open>redirect\<close>, the sessions and the address lists are the state that the
  handshake, the session cache and \<open>connect_setup\<close> share. A function of the main thread is a computation \<open>'a dm\<close> on
  the state \<open>daemon\<close>, whose \<open>io\<close> is the state that the I/O functions of network.c and fd.c work on; \<open>create_client\<close>
  hands an accepted descriptor over to a \<open>Client_thread\<close>, the owner for which \<open>client_main\<close> answers, and
  \<open>Custody.acct\<close> is the account of the main thread. What concurrent threads do to the libwrap pool is a step relation
  (\<open>Libwrap.steps\<close>) with one step for each call of the thread library, so that every schedule is covered. The memory of
  all threads comes from the allocator of str.c, a computation \<open>'a hm\<close> on the state \<open>heap\<close> (\<open>malloc()\<close> and \<open>realloc()\<close> are
  parameters of it); \<open>Alloc.view_of\<close> is what the other parts see of it.

  \<^bold>\<open>Theories\<close>, in dependency order:
  \<^item> \<open>Prelude\<close>: outcomes, the state monad, weakest preconditions, C array operations;
  \<^item> \<open>Cstring\<close>: C strings, \<open>safe_memcmp\<close> of str.c;
  \<^item> \<open>Poll\<close>: the two implementations of \<open>s_poll_set\<close> in network.c, as instances of one locale;
  \<^item> \<open>Cli\<close>: the records of prototypes.h (\<open>CLI\<close>, \<open>SERVICE_OPTIONS\<close>, \<open>SOCKADDR_LIST\<close>), the environment;
  \<^item> \<open>Frame\<close>: what computations leave alone, liveness;
  \<^item> \<open>Netio\<close>: fd.c and the I/O functions of network.c;
  \<^item> \<open>Resolver\<close>: resolver.c;
  \<^item> \<open>Base64\<close>, \<open>Bio64\<close>: OpenSSL's base64 blocks and filter;
  \<^item> \<open>Dialog\<close>: rules that follow a negotiation through its streams;
  \<^item> \<open>Socks\<close>, \<open>Mail\<close>, \<open>Ntlm\<close>, \<open>Http\<close>, \<open>Protocol\<close>: protocol.c;
  \<^item> \<open>Transfer_Loop\<close>: \<open>transfer()\<close>;
  \<^item> \<open>Client\<close>: the rest of client.c, from \<open>client_main()\<close> to the cleanup in \<open>client_run()\<close>, with
    \<open>verify_callback()\<close> (verify.c) and the part of \<open>info_callback()\<close> (ctx.c) that it depends on;
  \<^item> \<open>Session\<close>: no way out of a connection leaks a descriptor; \<open>Failover\<close>: the order in which addresses are tried,
    the IDENT dialog; \<open>Redirect\<close>: where an unverified peer can get; \<open>Outcome\<close>: liveness of a client thread, and
    configurations in which a connection cannot end well;
  \<^item> \<open>Probe\<close>: the circular search that the pool and the leak table use; \<open>Leaks\<close>: the leak table of str.c as a map of counts;
    \<open>Alloc\<close>, \<open>Resize\<close>: the allocator of str.c, with its lists of blocks in a store; \<open>Storage\<close>: its contract as a
    locale, what threads rely on, and the misuse it detects;
  \<^item> \<open>Libwrap\<close>: the pool of libwrap.c under any schedule of its threads, and its contract as leases;
  \<^item> \<open>Daemon\<close>: the main thread, from \<open>main()\<close> to \<open>main_cleanup()\<close> (stunnel.c, ui_unix.c, with \<open>create_client()\<close> of
    sthreads.c, \<open>cron_init()\<close> of cron.c and \<open>libwrap_init()\<close>); \<open>Ports\<close>: what it polls; \<open>Custody\<close>: what it owns, and which
    of the threads it starts survive;
  \<^item> \<open>Demo\<close>: concrete environments, for the runs that show that hypotheses can hold.

  \<^bold>\<open>Configuration modelled\<close>: POSIX with threads, \<open>USE_POLL\<close> (and the \<open>select\<close> version of the poll set), IPv6,
  Unix sockets, server and client mode, systemd socket activation, libwrap with its pool of processes, \<open>daemon()\<close>.

  \<^bold>\<open>Not modelled.\<close> Logging; the configuration parser (options.c); the checks of a certificate, contexts
  and sessions inside OpenSSL (the rest of ctx.c and verify.c, ssl.c); the process started by \<open>fork\<close> (libwrap's, and the program
  of an exec service with its environment); what the cron thread does; signal dispositions and masks; log files and
  pseudo-terminals (file.c, log.c, pty.c); locks (sthreads.c); str.c's formatted printing and \<open>str_stats\<close>; the Windows front ends; the rest of OpenSSL and the JavaScript and Python programs of the repository. They are I/O, tables of options,
  or third-party code the negotiation and relay logic only calls.
\<close>

text \<open>
  C1. \<open>transfer\<close> relays: whatever way it ends, the bytes sent over TLS are the first bytes read from the
  plain side since it started, in order, and the rest is what \<open>sock_buff\<close> holds; likewise from TLS to the
  plain side with \<open>ssl_buff\<close>. The two counters grew by the bytes sent, modulo \<open>2\<^sup>6\<^sup>4\<close>, and no buffer was
  overrun.
\<close>

theorem transfer_relays:
  assumes "os_ok (os (env c))" "length (sock_buff c) = BUFFSIZE" "length (ssl_buff c) = BUFFSIZE"
    and c': "c' = res_state (transfer c)"
  shows "(\<exists>sent. stream Tls_out c' = stream Tls_out c @ sent \<and>
        stream (In (sock_rd c)) c' = stream (In (sock_rd c)) c @ sent @ take (sock_ptr c') (sock_buff c') \<and>
        ssl_bytes c' = ssl_bytes c + of_nat (length sent)) \<and>
    (\<exists>sent. stream (Out (sock_wr c)) c' = stream (Out (sock_wr c)) c @ sent \<and>
        stream Tls_in c' = stream Tls_in c @ sent @ take (ssl_ptr c') (ssl_buff c') \<and>
        sock_bytes c' = sock_bytes c + of_nat (length sent)) \<and>
    (\<forall>s. transfer c \<noteq> Stop Overflow s)"
proof -
  have wf: "bwf (restart c)" using assms(1-3) by (simp add: bwf_restart)
  then have "relayed (restart c) c'"
    using transfer_sound(1) [OF wf] c' by (simp add: relay_def)
  moreover have "transfer c \<noteq> Stop Overflow s" for s
    by (rule transfer_sound(2) [OF wf])
  ultimately show ?thesis
    by (auto simp: relayed_def passed_def buff_content_def sock_queue_def ssl_queue_def stream_def)
qed

theorem transfer_relays_run:
  "let c = buffered (conn [] 3 plain_service); c' = res_state (transfer c) in
    (\<exists>sent. stream Tls_out c' = stream Tls_out c @ sent \<and>
        stream (In (sock_rd c)) c' = stream (In (sock_rd c)) c @ sent @ take (sock_ptr c') (sock_buff c') \<and>
        ssl_bytes c' = ssl_bytes c + of_nat (length sent)) \<and>
    (\<forall>s. transfer c \<noteq> Stop Overflow s)"
  using transfer_relays [of "buffered (conn [] 3 plain_service)"] by (simp add: Let_def)

text \<open>
  C2. Closing is in order: whenever \<open>transfer\<close> sends close_notify, every byte read from the plain side has
  been sent over TLS, and nothing is read from the plain side after it.
\<close>

theorem transfer_closes_in_order:
  assumes "os_ok (os (env c))" "length (sock_buff c) = BUFFSIZE" "length (ssl_buff c) = BUFFSIZE"
  shows "\<exists>t. trace (env (res_state (transfer c))) = trace (env c) @ t \<and>
    (\<forall>before a after. t = before @ (Ssl_shutdown, a) # after \<longrightarrow>
       moved (In (sock_rd c)) before = moved Tls_out before \<and> moved (In (sock_rd c)) after = [])"
proof -
  have wf: "bwf (restart c)" using assms by (simp add: bwf_restart)
  obtain t where t: "trace (env (res_state (transfer c))) = trace (env c) @ t" "alert_in_order c t"
    using transfer_alerts [OF wf] by (auto simp: alert_stop_def)
  then show ?thesis
    by (intro exI [of _ t]) (fastforce simp: alert_in_order_def flushed_when_def silent_after_def is_alert_def)
qed

theorem transfer_closes_in_order_run:
  "\<exists>t. trace (env (res_state (transfer (buffered (conn [] 3 plain_service))))) = trace (env (buffered (conn [] 3 plain_service))) @ t \<and>
    (\<forall>before a after. t = before @ (Ssl_shutdown, a) # after \<longrightarrow>
       moved (In (sock_rd (buffered (conn [] 3 plain_service)))) before = moved Tls_out before \<and> moved (In (sock_rd (buffered (conn [] 3 plain_service)))) after = [])"
  by (rule transfer_closes_in_order) simp_all

text \<open>
  C3. The watchdog bounds waiting without progress: between two bytes moved \<open>transfer\<close> completes at most 101
  waits, so over its whole run at most 101 for each byte it moved and 101 more.
\<close>

theorem transfer_makes_progress:
  assumes "os_ok (os (env c))" and c': "c' = res_state (transfer c)"
  shows "waits c' \<le> waits c + 101 * (volume c' - volume c + 1)"
  using transfer_bounded_waits [OF assms(1)] by (simp add: bounded_waits_def c')

theorem transfer_makes_progress_run:
  "waits (res_state (transfer (conn [] 3 plain_service))) \<le> waits (conn [] 3 plain_service) +
     101 * (volume (res_state (transfer (conn [] 3 plain_service))) - volume (conn [] 3 plain_service) + 1)"
  by (rule transfer_makes_progress [OF _ refl]) simp

text \<open>
  C4. However a connection ends, \<open>client_run\<close> cleans up after it: no \<open>longjmp\<close> leaves it, the connection is
  counted out again, every descriptor opened for it is closed, once, and nothing of the caller's but the
  local descriptor, when reading and writing share it.
\<close>

theorem client_run_leaves_nothing:
  assumes "os_ok (os (env c))"
  shows "case client_run c of
      Ok _ c' \<Rightarrow> tmp_fd c' = INVALID_SOCKET \<and> fd (remote_fd c') = INVALID_SOCKET \<and>
        fd (local_rfd c') = INVALID_SOCKET \<and> num_clients c' = num_clients c \<and>
        (\<forall>f. held f c' = held f c - (if f = fd (local_rfd c) \<and> f \<noteq> INVALID_SOCKET \<and> f = fd (local_wfd c) then 1 else 0))
    | Stop k c' \<Rightarrow> (\<forall>n. k \<noteq> Longjmp n)"
proof (cases "client_run c")
  case (Ok u c')
  with wp_Ok [OF client_run_closed [OF assms]] show ?thesis
    by (auto simp: closed_def given_up_def)
next
  case (Stop k c')
  with wp_Stop [OF client_run_closed [OF assms]] show ?thesis by (auto simp: jumps_def)
qed

theorem client_run_leaves_nothing_run:
  "\<exists>c'. client_run (facing deaf 60 plain_service) = Ok () c' \<and>
     fd (remote_fd c') = INVALID_SOCKET \<and> held 7 c' = held 7 (facing deaf 60 plain_service)"
proof -
  have r: "ran client_run (facing deaf 60 plain_service)" by code_simp
  have l: "fd (local_rfd (facing deaf 60 plain_service)) = 3" by (simp add: facing_def conn_def)
  obtain c' where c': "client_run (facing deaf 60 plain_service) = Ok () c'"
    using r by (auto simp: ran_def split: res.splits)
  with client_run_leaves_nothing [of "facing deaf 60 plain_service"] l show ?thesis by simp
qed



text \<open>
  C6. A peer whose certificate was rejected, or that sent none, reaches the redirection target only: in a service
  with one, once the TLS handshake of a new session has come through, every connection attempted from then on
  goes to one of its addresses.
\<close>

theorem unverified_peers_deflected:
  assumes "\<And>n. a_ret (os (env c) n Ssl_session_reused) = 0" and "ssl_start c = Ok () c1"
    and "rejected c c1 \<or> certless c c1 \<and> o_protocol (opt c) = None"
    and "al_addr (o_redirect_addr (opt c)) \<noteq> []" "al_names (o_redirect_addr (opt c)) \<noteq> []"
    and "o_exec_name (opt c) = None \<or> al_names (o_connect_addr (opt c)) \<noteq> []"
    and c': "c' = res_state (seqM (negotiation PROTOCOL_MIDDLE) (seqM remote_start
      (seqM (negotiation PROTOCOL_LATE) transfer)) c1)"
  shows "\<exists>as. attempts c' = attempts c1 @ as \<and> set as \<subseteq> set (al_addr (o_redirect_addr (opt c)))"
proof -
  have "deflected c1 c'"
    using unverified_deflected [OF assms(1-6)] unfolding c' wp_res_state .
  moreover have "al_addr (o_redirect_addr (opt c1)) = al_addr (o_redirect_addr (opt c))"
    using wp_Ok [OF ssl_start_found [OF assms(1)] assms(2)] judged_settled by (simp add: found_def settled_def)
  ultimately show ?thesis by (metis deflected_attempts)
qed

theorem unverified_peers_deflected_run:
  "\<exists>c1. ssl_start (facing stern 40 elsewhere) = Ok () c1 \<and> rejected (facing stern 40 elsewhere) c1 \<and>
     (\<exists>as. attempts (res_state (seqM (negotiation PROTOCOL_MIDDLE) (seqM remote_start
        (seqM (negotiation PROTOCOL_LATE) transfer)) c1)) = attempts c1 @ as \<and> set as \<subseteq> {AF_INET [10, 0, 0, 9] [0, 80]})"
proof -
  let ?c = "facing stern 40 elsewhere"
  have r: "ran ssl_start ?c" by code_simp
  have j: "rejected ?c (res_state (ssl_start ?c))" by code_simp
  have reused: "a_ret (os (env ?c) n Ssl_session_reused) = 0" for n
    by (simp add: facing_def world_def blank_def)
  obtain c1 where c1: "ssl_start ?c = Ok () c1" using r by (auto simp: ran_def split: res.splits)
  have opts: "al_addr (o_redirect_addr (opt ?c)) = [AF_INET [10, 0, 0, 9] [0, 80]]"
    "al_names (o_redirect_addr (opt ?c)) \<noteq> []" "o_exec_name (opt ?c) = None"
    by (simp_all add: facing_def conn_def elsewhere_def plain_service_def)
  show ?thesis
    using unverified_peers_deflected [OF reused c1 _ _ _ _ refl] c1 j opts by simp
qed

text \<open>
  C7. Whatever the schedule, with any number of threads and of libwrap processes below \<open>2 ^ 32\<close> (stunnel starts five):
  no two threads ever talk to the same process, a process a thread talks to is marked busy, the
  mutex is held by one thread at a time, and the 32-bit counter is the number of processes marked busy.
\<close>

theorem pool_exclusive:
  assumes "0 < n" "n < 2 ^ 32" "steps (libwrap_init n) s"
  shows "(\<forall>t u p. held_by s t = Some p \<and> held_by s u = Some p \<longrightarrow> t = u) \<and>
    (\<forall>t p. held_by s t = Some p \<longrightarrow> p < n \<and> is_busy s ! p) \<and>
    (\<forall>t u. with_mutex (at_pc s t) \<and> with_mutex (at_pc s u) \<longrightarrow> t = u) \<and>
    num_busy s = of_nat (count_list (is_busy s) True) \<and> length (is_busy s) = n"
  using reachable [OF assms] unfolding pool_inv_def by (metis option.inject)

theorem pool_exclusive_run:
  "\<exists>s. schedule [(0, Returns), (0, Returns), (0, Returns), (0, Returns), (1, Returns), (1, Returns), (1, Returns)] (libwrap_init 2) = Some s \<and>
     held_by s 0 \<noteq> held_by s 1 \<and> num_busy s = of_nat (count_list (is_busy s) True)"
proof -
  let ?xs = "[(0, Returns), (0, Returns), (0, Returns), (0, Returns), (1, Returns), (1, Returns), (1, Returns)]"
  have "map_option (\<lambda>s. (held_by s 0, held_by s 1)) (schedule ?xs (libwrap_init 2)) = Some (Some 0, Some 1)" by code_simp
  then obtain s where s: "schedule ?xs (libwrap_init 2) = Some s" "held_by s 0 = Some 0" "held_by s 1 = Some 1" by auto
  with pool_exclusive [of 2 s] schedule_steps [OF s(1) steps_refl] show ?thesis by auto
qed







text \<open>
  C11. After a successful start the main thread waits for exactly the signal pipe and the ports it bound, to read from
  them; and from then on to its end, with reloads, reopened pipes and failed binds on the way,
  it waits for nothing but its signal pipe and ports that are open (\<open>watching\<close>: its poll set is well formed and a
  part of those), wherever the observation ends.
\<close>

theorem main_polls_own_ports:
  assumes "os_ok (os (env (io d)))"
  shows "wp (seqM main_init main_configure)
    (\<lambda>ok d'. ok \<longrightarrow> exactly (insert (fst (signal_pipe d')) (bound (ports d'))) d' \<and>
       wp (seqM (daemon_mode f) main_cleanup) (\<lambda>_. watching) (\<lambda>_. watching) d') (\<lambda>_ _. True) d"
proof -
  have "stays watching (seqM (daemon_mode f) main_cleanup)"
    by (intro stays_seqM daemon_mode_watching main_cleanup_watching)
  note run = staysD [OF this]
  show ?thesis
    unfolding wp_seqM [of main_init]
    by (intro wp_mono [OF main_init_exactly [OF assms]])
      (auto simp: in_step_def intro!: wp_mono [OF main_configure_in_step] run)
qed

theorem main_polls_own_ports_run:
  "\<exists>d'. seqM main_init main_configure (hosted (visited 28) False [listening]) = Ok True d' \<and>
     exactly (insert (fst (signal_pipe d')) (bound (ports d'))) d' \<and>
     wp (seqM (daemon_mode 15) main_cleanup) (\<lambda>_. watching) (\<lambda>_. watching) d'"
proof -
  let ?d = "hosted (visited 28) False [listening]"
  have "came_back True (seqM main_init main_configure) ?d" by code_simp
  then obtain d' where r: "seqM main_init main_configure ?d = Ok True d'" by (auto dest: came_back)
  from wp_Ok [OF main_polls_own_ports [OF hosted_ok(1)] r] r show ?thesis by auto
qed




text \<open>
  C14. A client whose destination is transparent never starts TLS: the target taken from the kernel has no array of
  sessions, and \<open>session_cache_retrieve\<close> follows the NULL pointer.
\<close>

theorem transparent_client_crashes:
  assumes "o_client (opt c)" "o_transparent_dst (opt c)" "o_exec_name (opt c) = None" "o_sni (opt c) = []"
    and "redirect c \<noteq> REDIRECT_ON" "al_addr (connect_addr c) = []" "al_parent (connect_addr c) = Own"
    and "al_session (connect_addr c) = None" "\<And>n. a_ret (os (env c) n Ssl_new) \<noteq> 0"
  shows "wp remote_start (\<lambda>_. wp ssl_start (\<lambda>_ _. False) (\<lambda>k _. k = Null_deref \<or> k = Blocked)) (\<lambda>_ _. True) c"
proof (rule wp_mono [OF remote_start_slotless [OF assms(2,5-8,3)]])
  fix u c1 assume "slotless c c1"
  then show "wp ssl_start (\<lambda>_ _. False) (\<lambda>k _. k = Null_deref \<or> k = Blocked) c1"
    using assms(1,4,9) by (intro ssl_start_slotless) (simp_all add: slotless_def)
qed simp

theorem transparent_client_crashes_run:
  "\<exists>c1. remote_start (facing mild 40 (plain_service\<lparr>o_client := True, o_transparent_dst := True\<rparr>)) = Ok () c1 \<and>
     wp ssl_start (\<lambda>_ _. False) (\<lambda>k _. k = Null_deref \<or> k = Blocked) c1"
proof -
  let ?c = "facing mild 40 (plain_service\<lparr>o_client := True, o_transparent_dst := True\<rparr>)"
  have r: "ran remote_start ?c" by code_simp
  have "wp remote_start (\<lambda>_. wp ssl_start (\<lambda>_ _. False) (\<lambda>k _. k = Null_deref \<or> k = Blocked)) (\<lambda>_ _. True) ?c"
    by (rule transparent_client_crashes)
      (simp_all add: facing_def conn_def world_def blank_def plain_service_def empty_addrlist_def REDIRECT_ON_def)
  from wp_ran [OF this r] show ?thesis by simp
qed

text \<open>
  C15. Time-outs exhaust the pool for good: after as many clients as there are processes have timed out in \<open>s_read\<close>
  (which leaves by \<open>longjmp\<close>), whatever happens from then on, no other thread ever gets past the wait for a free process.
\<close>

theorem leaked_pool_starves:
  assumes "0 < n" "n < 2 ^ 32"
  shows "\<exists>s. schedule (all_time_out n) (libwrap_init n) = Some s \<and>
    (\<forall>s' t. steps s s' \<and> n \<le> t \<longrightarrow> at_pc s' t \<in> {Outside, Locking, Checking, Waiting, Jumped})"
proof -
  obtain s where s: "schedule (all_time_out n) (libwrap_init n) = Some s" "pool_inv s" "all_leaked s"
    "at_pc s = (\<lambda>t. if t < n then Jumped else Outside)" using all_time_out_leaks [OF assms] by blast
  then have "starving (at_pc s' t)" if "steps s s'" for s' t using all_leaked_starves [OF that] by (simp add: starving_def)
  then show ?thesis using s(1) by (auto simp: starving_def)
qed

theorem leaked_pool_starves_run:
  "\<exists>s. schedule (all_time_out 5) (libwrap_init 5) = Some s \<and>
    (\<forall>s' t. steps s s' \<and> 5 \<le> t \<longrightarrow> at_pc s' t \<in> {Outside, Locking, Checking, Waiting, Jumped})"
  by (rule leaked_pool_starves) simp_all

text \<open>
  C16. A successful start in the foreground has the cron thread and one thread for every service that runs a program and
  connects to a server; a start in the background has none of them, because the threads are created before \<open>daemonize\<close> forks.
\<close>

theorem background_loses_threads:
  assumes "\<forall>n s. a_ret (os (env (io d)) n (Thread_create s)) = 0"
    and "seqM main_init (bindM main_configure (\<lambda>ok. if ok then daemonize f else retM False)) d = Ok True d'"
  shows "if foreground d'
    then Cron_thread \<in> set (threads d') \<and>
      (\<forall>p \<in> set (ports d'). \<not> s_accept_on p \<and> exec_connect p \<longrightarrow> Client_thread (s_opt p) INVALID_SOCKET \<in> set (threads d'))
    else threads d' = []"
  using wp_Ok [OF startup_threads [OF assms(1)] assms(2)] by (auto simp: threads_started_def serves_def)

theorem background_loses_threads_run:
  "\<exists>d' d2. seqM main_init (bindM main_configure (\<lambda>ok. if ok then daemonize 15 else retM False))
       (hosted (visited 30) False [listening, calling]) = Ok True d' \<and> threads d' = [] \<and>
     seqM main_init (bindM main_configure (\<lambda>ok. if ok then daemonize 15 else retM False))
       (hosted (visited 30) True [listening, calling]) = Ok True d2 \<and> Cron_thread \<in> set (threads d2)"
proof -
  let ?d = "\<lambda>fg. hosted (visited 30) fg [listening, calling]"
  let ?m = "seqM main_init (bindM main_configure (\<lambda>ok. if ok then daemonize 15 else retM False))"
  have ok: "\<forall>n s. a_ret (os (env (io (?d fg))) n (Thread_create s)) = 0" for fg
    by (simp add: hosted_def world_def blank_def)
  have "map_option foreground (case ?m (?d False) of Ok r d \<Rightarrow> if r then Some d else None | Stop k d \<Rightarrow> None) = Some False" by code_simp
  then obtain d' where r: "?m (?d False) = Ok True d'" "\<not> foreground d'" by (auto split: res.splits if_splits)
  have "map_option foreground (case ?m (?d True) of Ok r d \<Rightarrow> if r then Some d else None | Stop k d \<Rightarrow> None) = Some True" by code_simp
  then obtain d2 where r2: "?m (?d True) = Ok True d2" "foreground d2" by (auto split: res.splits if_splits)
  from background_loses_threads [OF ok r(1)] background_loses_threads [OF ok r2(1)] r r2 show ?thesis by auto
qed

text \<open>
  C17. When the thread for a client cannot be created, the accepted descriptor is closed twice, by \<open>create_client\<close> and
  again by \<open>accept_connection\<close>: in between another thread may have been given the same number.
\<close>

theorem rejected_client_closed_twice:
  assumes "s = a_ret (os (env (io d)) (now (env (io d))) (Accept (s_fd p)))"
    and "\<forall>n. a_ret (os (env (io d)) n (Thread_create s)) \<noteq> 0"
    and "0 \<le> s" "max_fds (io d) = 0 \<or> s < max_fds (io d)" "max_clients d = 0"
    and "now (env (io d)) + 5 \<le> horizon (env (io d))"
  shows "\<exists>d'. accept_connection p d = Ok False d' \<and> threads d' = threads d \<and>
    map fst (trace (env (io d'))) = map fst (trace (env (io d))) @
      [Accept (s_fd p), Count_clients, Thread_create s, Close s, Close s]"
  using rejected_closed_twice [OF assms] by blast

theorem rejected_client_closed_twice_run:
  "\<exists>d'. accept_connection listening (hosted threadless True [listening]) = Ok False d' \<and>
     map fst (trace (env (io d'))) = [Accept (-1), Count_clients, Thread_create 8, Close 8, Close 8]"
proof -
  let ?d = "hosted threadless True [listening]"
  have "\<exists>d'. accept_connection listening ?d = Ok False d' \<and> threads d' = threads ?d \<and>
    map fst (trace (env (io d'))) = map fst (trace (env (io ?d))) @
      [Accept (s_fd listening), Count_clients, Thread_create 8, Close 8, Close 8]"
    by (rule rejected_client_closed_twice) (simp_all add: hosted_def conn_def world_def blank_def)
  then show ?thesis unfolding listening_def INVALID_SOCKET_def hosted_def world_def by auto
qed












text \<open>
  C24. The simulated blocking writes send everything, in order: when \<open>s_write\<close> or \<open>s_ssl_write\<close> returns, exactly
  the buffer went out, on that channel and no other; when it gives up, a prefix of it did.
\<close>

theorem blocking_writes_send_all:
  assumes "os_ok (os (env c))"
  shows "sends (Out f) buf (s_write f buf) c \<and> sends Tls_out buf (s_ssl_write buf) c"
  using s_write_sends [OF assms] s_ssl_write_sends [OF assms] by blast

theorem blocking_writes_run:
  "sends (Out 5) [1, 2] (s_write 5 [1, 2]) (conn [] 9 plain_service) \<and>
   sends Tls_out [1, 2] (s_ssl_write [1, 2]) (conn [] 9 plain_service)"
  by (rule blocking_writes_send_all) simp

text \<open>
  C25. The simulated blocking reads return exactly the number of bytes asked for, the ones that arrived next on
  that channel, and take nothing more.
\<close>

theorem blocking_reads_receive_all:
  assumes "os_ok (os (env c))"
  shows "receives (In f) n (s_read f n) c \<and> receives Tls_in n (s_ssl_read n) c"
  using s_read_receives [OF assms] s_ssl_read_receives [OF assms] by blast

theorem blocking_reads_run:
  "receives (In 3) 2 (s_read 3 2) (conn [(1, [65, 66])] 9 plain_service) \<and>
   receives Tls_in 2 (s_ssl_read 2) (conn [(1, [65, 66])] 9 plain_service)"
  by (rule blocking_reads_receive_all) simp

text \<open>
  C26. The line reader takes one line and nothing after it: the bytes up to a newline or NUL, without their
  carriage returns, at most 65536 characters, never writing outside its growing buffer.
\<close>

theorem line_readers_bounded:
  assumes "os_ok (os (env c))"
  shows "wp (fd_getline f) (reads_line c (In f)) (\<lambda>k _. k = Longjmp 1 \<or> k = Blocked) c"
  using fd_getline_reads [OF assms] by (rule wp_mono) (auto simp: aborts_def)

theorem line_readers_run:
  "\<exists>r c'. fd_getline 3 (conn (drip 1 2 (raw ''HI'' @ [13, 10])) 20 plain_service) = Ok r c' \<and>
     reads_line (conn (drip 1 2 (raw ''HI'' @ [13, 10])) 20 plain_service) (In 3) r c'"
proof -
  have "ran (fd_getline 3) (conn (drip 1 2 (raw ''HI'' @ [13, 10])) 20 plain_service)" by code_simp
  from wp_ran [OF line_readers_bounded [OF conn_ok] this] show ?thesis by simp
qed





text \<open>
  C29. The binary negotiations stay in their buffers: whatever the length field of a NetBIOS request says,
  \<open>cifs_server\<close> returns, aborts the connection or waits, and \<open>pgsql_server\<close> answers \<open>S\<close> only to the SSLRequest
  message, byte for byte.
\<close>

theorem binary_negotiations_bounded:
  assumes "os_ok (os (env c))"
  shows "wp (cifs_server ph) (\<lambda>_ _. True) (\<lambda>k _. k = Longjmp 1 \<or> k = Blocked) c \<and>
    wp (pgsql_server PROTOCOL_EARLY)
      (\<lambda>_ c'. talks (In (local_rd c)) (Out (local_wr c)) c ssl_request [of_char CHR ''S''] c')
      (\<lambda>k _. k = Longjmp 1 \<or> k = Blocked) c"
  using cifs_server_fits [OF assms] pgsql_server_request [OF assms]
  by (auto simp: aborts_def elim!: wp_mono)

theorem binary_negotiations_run:
  "wp (cifs_server PROTOCOL_EARLY) (\<lambda>_ _. True) (\<lambda>k _. k = Longjmp 1 \<or> k = Blocked)
     (conn [(1, [0x81, 0, 1, 0])] 9 plain_service) \<and>
   (\<exists>r c'. pgsql_server PROTOCOL_EARLY (conn [(1, ssl_request)] 9 plain_service) = Ok r c' \<and>
     talks (In 3) (Out 3) (conn [(1, ssl_request)] 9 plain_service) ssl_request [of_char CHR ''S''] c')"
proof (rule conjI)
  show "wp (cifs_server PROTOCOL_EARLY) (\<lambda>_ _. True) (\<lambda>k _. k = Longjmp 1 \<or> k = Blocked) (conn [(1, [0x81, 0, 1, 0])] 9 plain_service)"
    by (rule binary_negotiations_bounded [OF conn_ok, THEN conjunct1])
  have "ran (pgsql_server PROTOCOL_EARLY) (conn [(1, ssl_request)] 9 plain_service)" by code_simp
  from wp_ran [OF binary_negotiations_bounded [OF conn_ok, THEN conjunct2] this]
  moreover have "local_rd (conn [(1, ssl_request)] 9 plain_service) = 3" "local_wr (conn [(1, ssl_request)] 9 plain_service) = 3"
    by (simp_all add: conn_def local_rd_def local_wr_def)
  ultimately show "\<exists>r c'. pgsql_server PROTOCOL_EARLY (conn [(1, ssl_request)] 9 plain_service) = Ok r c' \<and>
     talks (In 3) (Out 3) (conn [(1, ssl_request)] 9 plain_service) ssl_request [of_char CHR ''S''] c'"
    by (simp only:)
qed

text \<open>
  C30. STARTTLS as the client of SMTP, POP3, IMAP and NNTP: TLS starts only after the server was sent exactly the
  protocol's commands and its last line read agrees; nothing after that line was taken from it, and nothing
  else was read.
\<close>

theorem starttls_clients_negotiate:
  assumes "os_ok (os (env c))"
  shows "wp (smtp_client PROTOCOL_MIDDLE)
      (\<lambda>r c'. r = None \<and> starttls_client c [''EHLO localhost'', ''STARTTLS''] ''220 '' c') (\<lambda>k _. k \<in> refuses) c \<and>
    wp (pop3_client PROTOCOL_MIDDLE) (\<lambda>r c'. r = None \<and> starttls_client c [''STLS''] ''+OK '' c')
      (\<lambda>k _. k \<in> refuses) c \<and>
    wp (imap_client PROTOCOL_MIDDLE) (\<lambda>r c'. r = None \<and> starttls_client c [''stunnel STARTTLS''] ''stunnel OK'' c')
      (\<lambda>k _. k \<in> refuses) c \<and>
    wp (nntp_client PROTOCOL_MIDDLE) (\<lambda>r c'. r = None \<and> starttls_client c [''STARTTLS''] ''382 '' c')
      (\<lambda>k _. k \<in> refuses) c"
  using starttls_clients [OF assms] smtp_client_starttls [OF assms] by blast

theorem starttls_clients_run:
  "\<exists>r c'. pop3_client PROTOCOL_MIDDLE (conn (drip 1 2 (raw ''+OK '' @ [10]) @ drip 15 2 (raw ''+OK '' @ [10])) 40 plain_service) = Ok r c' \<and>
     r = None \<and> starttls_client (conn (drip 1 2 (raw ''+OK '' @ [10]) @ drip 15 2 (raw ''+OK '' @ [10])) 40 plain_service) [''STLS''] ''+OK '' c'"
proof -
  have "ran (pop3_client PROTOCOL_MIDDLE) (conn (drip 1 2 (raw ''+OK '' @ [10]) @ drip 15 2 (raw ''+OK '' @ [10])) 40 plain_service)" by code_simp
  from wp_ran [OF starttls_clients_negotiate [OF conn_ok, THEN conjunct2, THEN conjunct1] this] show ?thesis by simp
qed

text \<open>
  C31. STARTTLS as the server: TLS starts only after the client's last line read asks for it and was answered
  with the line that agrees, with no byte taken after it; or, where the client may speak first, with nothing
  read or written at all.
\<close>

theorem starttls_servers_agree:
  assumes "os_ok (os (env c))"
  shows "wp (smtp_server PROTOCOL_MIDDLE) (\<lambda>r c'. r = None \<and>
      (starttls_server c (\<lambda>s. is_prefix s ''STARTTLS'') (\<lambda>_. ''220 Go ahead'') c' \<or> untouched c c'))
      (\<lambda>k _. k \<in> refuses) c \<and>
    wp (pop3_server PROTOCOL_MIDDLE) (\<lambda>r c'. r = None \<and>
      starttls_server c (\<lambda>s. is_prefix s ''STLS'') (\<lambda>_. ''+OK Stunnel starts TLS negotiation'') c')
      (\<lambda>k _. k \<in> refuses) c \<and>
    wp (imap_server PROTOCOL_MIDDLE) (\<lambda>r c'. r = None \<and>
      (starttls_server c imap_asks imap_agrees c' \<or> untouched c c')) (\<lambda>k _. k \<in> refuses) c"
  using smtp_server_starttls [OF assms] pop3_server_starttls [OF assms] imap_server_starttls [OF assms]
  by blast

theorem starttls_servers_run:
  "\<exists>r c'. pop3_server PROTOCOL_MIDDLE (conn (drip 1 2 (raw ''+OK'' @ [10]) @ drip 11 2 (raw ''STLS'' @ [10])) 30 plain_service) = Ok r c' \<and>
     r = None \<and> starttls_server (conn (drip 1 2 (raw ''+OK'' @ [10]) @ drip 11 2 (raw ''STLS'' @ [10])) 30 plain_service) (\<lambda>s. is_prefix s ''STLS'')
       (\<lambda>_. ''+OK Stunnel starts TLS negotiation'') c'"
proof -
  have "ran (pop3_server PROTOCOL_MIDDLE) (conn (drip 1 2 (raw ''+OK'' @ [10]) @ drip 11 2 (raw ''STLS'' @ [10])) 30 plain_service)" by code_simp
  from wp_ran [OF starttls_servers_agree [OF conn_ok, THEN conjunct2, THEN conjunct1] this] show ?thesis by simp
qed





text \<open>
  C34. The HTTP CONNECT client starts TLS only after the proxy's 2xx answer and all its headers, the last bytes
  taken from the proxy, with every other stream untouched; with NTLM this needs a configured domain.
\<close>

theorem connect_client_accepts_2xx:
  assumes "os_ok (os (env c))" "o_protocol_domain (opt c) \<noteq> None \<or> \<not> uses_ntlm (opt c)"
  shows "wp (connect_client PROTOCOL_MIDDLE) (\<lambda>r c'. r = None \<and> proxy_accepted c c') (\<lambda>k _. k \<in> refuses) c"
  using assms by (rule connect_client_accepted)

theorem connect_client_accepts_run:
  "\<exists>c'. connect_client PROTOCOL_MIDDLE (conn (drip 11 2 (raw ''HTTP/1.0 200'' @ [10, 10])) 60
       (plain_service\<lparr>o_protocol_host := Some ''h:1'', o_protocol_username := Some ''u'',
        o_protocol_password := Some ''p''\<rparr>)) = Ok None c' \<and>
     proxy_accepted (conn (drip 11 2 (raw ''HTTP/1.0 200'' @ [10, 10])) 60
       (plain_service\<lparr>o_protocol_host := Some ''h:1'', o_protocol_username := Some ''u'',
        o_protocol_password := Some ''p''\<rparr>)) c'"
proof -
  let ?c = "conn (drip 11 2 (raw ''HTTP/1.0 200'' @ [10, 10])) 60
       (plain_service\<lparr>o_protocol_host := Some ''h:1'', o_protocol_username := Some ''u'',
        o_protocol_password := Some ''p''\<rparr>)"
  have "\<not> uses_ntlm (opt ?c)" by code_simp
  then have d: "o_protocol_domain (opt ?c) \<noteq> None \<or> \<not> uses_ntlm (opt ?c)" by blast
  have "ran (connect_client PROTOCOL_MIDDLE) ?c" by code_simp
  from wp_ran [OF connect_client_accepts_2xx [OF conn_ok d] this] show ?thesis by auto
qed

text \<open>
  C35. With basic credentials the proxy is sent exactly the request line, the Host header, the base64 of
  \<open>user:password\<close> in the authorization header, and the empty line.
\<close>

theorem connect_client_request:
  assumes "os_ok (os (env c))" "o_protocol_host (opt c) = Some host" "o_protocol_username (opt c) = Some user"
    "o_protocol_password (opt c) = Some password" "\<not> uses_ntlm (opt c)"
  shows "wp (connect_client PROTOCOL_MIDDLE) (\<lambda>_ c'. \<exists>m auth. flow c m c' \<and>
      basic_header user password = Some auth \<and> m (Out (remote c)) = connect_lines_of host auth) (\<lambda>k _. k \<in> refuses) c"
  using assms by (rule connect_client_sends)

theorem connect_client_request_run:
  "\<exists>c' auth. connect_client PROTOCOL_MIDDLE (conn (drip 11 2 (raw ''HTTP/1.0 200'' @ [10, 10])) 60
       (plain_service\<lparr>o_protocol_host := Some ''h:1'', o_protocol_username := Some ''u'',
        o_protocol_password := Some ''p''\<rparr>)) = Ok None c' \<and>
     basic_header ''u'' ''p'' = Some auth"
proof -
  let ?c = "conn (drip 11 2 (raw ''HTTP/1.0 200'' @ [10, 10])) 60
       (plain_service\<lparr>o_protocol_host := Some ''h:1'', o_protocol_username := Some ''u'',
        o_protocol_password := Some ''p''\<rparr>)"
  have "\<not> uses_ntlm (opt ?c)" by code_simp
  then have w: "wp (connect_client PROTOCOL_MIDDLE) (\<lambda>_ c'. \<exists>m auth. flow ?c m c' \<and>
      basic_header ''u'' ''p'' = Some auth \<and> m (Out (remote ?c)) = connect_lines_of ''h:1'' auth) (\<lambda>k _. k \<in> refuses) ?c"
    by (intro connect_client_request) simp_all
  have r: "case connect_client PROTOCOL_MIDDLE ?c of Ok r c' \<Rightarrow> r = None | Stop k c' \<Rightarrow> False" by code_simp
  show ?thesis using w r by (auto simp: wp_def split: res.splits)
qed



text \<open>
  C37. The base64 filter encodes what is written to it in pieces as if it had been written at once: after any
  writes and the flush the output is the encoding of all the bytes.
\<close>

theorem base64_streams:
  "b64_flush (foldl (\<lambda>(tmp, out) bs. b64_write tmp out bs) ([], []) pieces) = EVP_EncodeBlock (concat pieces)"
  using b64_at_flush [OF b64_writes_at [of pieces]] by simp

text \<open>
  C38. Decoding what \<open>base64\<close> encoded gives the bytes back, followed by zeros up to at least 32 bytes.
\<close>

theorem base64_decodes_encoded:
  assumes "base64_encode bs = Some s"
  shows "\<exists>z. base64_decode s = Some (bs @ replicate z 0) \<and> 32 \<le> length bs + z"
  using assms by (rule base64_round_trip)

theorem base64_decodes_run:
  "\<exists>z. base64_decode ''SGk='' = Some (raw ''Hi'' @ replicate z 0) \<and> 32 \<le> length (raw ''Hi'') + z"
proof -
  have "base64_encode (raw ''Hi'') = Some ''SGk=''" by code_simp
  then show ?thesis by (rule base64_decodes_encoded)
qed




end
